(* ===== verification/Prelude.thy ===== *)
theory Prelude
  imports Main "HOL-Library.Word"
begin

text \<open>
  Shared vocabulary of the zerver development: the machine integers of the C++ sources,
  results of code that can crash, boost error codes, and the generic invariant rule for
  step relations that every state machine of the development instantiates.
\<close>

section \<open>Machine integers\<close>

type_synonym u8 = "8 word"
type_synonym u16 = "16 word"
type_synonym u32 = "32 word"
type_synonym u64 = "64 word"

text \<open>\<open>ModState\<close> is a typedef for \<open>uint32_t\<close> (framework/types_def.h).\<close>

type_synonym ModState = u32

text \<open>A \<open>shared_char_array\<close> together with the length that travels beside it.\<close>

type_synonym bytes = "u8 list"

text \<open>Converting an \<open>int\<close> to \<open>size_t\<close>.\<close>

lemma uint_scast_size_t: "uint (scast (i :: 32 word) :: u64) = sint i mod 2 ^ 64"
  by (simp only: scast_eq uint_word_of_int) simp

lemma unat_scast_size_t: "int (unat (scast (i :: 32 word) :: u64)) = sint i mod 2 ^ 64"
  using uint_scast_size_t [of i] by (simp only: uint_nat)

lemma sint_mod_size_t:
  "sint (i :: 32 word) mod 2 ^ 64 = (if 0 \<le> sint i then sint i else sint i + 2 ^ 64)"
proof (cases "0 \<le> sint i")
  case True
  then show ?thesis using sint_lt [of i] by simp
next
  case False
  have "- (2 ^ 31) \<le> sint i" using sint_ge [of i] by simp
  with False have "(sint i + 2 ^ 64) mod 2 ^ 64 = sint i + 2 ^ 64"
    by (intro mod_pos_pos_trivial) simp_all
  with False show ?thesis by simp
qed

lemma unat_scast_nonneg:
  assumes "0 \<le> sint (i :: 32 word)"
  shows "unat (scast i :: u64) = nat (sint i)"
proof -
  have "int (unat (scast i :: u64)) = sint i"
    using assms by (simp only: unat_scast_size_t sint_mod_size_t if_True)
  then show ?thesis by linarith
qed

lemma unat_scast_neg:
  assumes "sint (i :: 32 word) < 0"
  shows "2 ^ 63 \<le> unat (scast i :: u64)"
proof -
  have "\<not> 0 \<le> sint i" using assms by simp
  then have "int (unat (scast i :: u64)) = sint i + 2 ^ 64"
    by (simp only: unat_scast_size_t sint_mod_size_t if_False)
  moreover have "- (2 ^ 31) \<le> sint i" using sint_ge [of i] by simp
  ultimately have "int (2 ^ 63) \<le> int (unat (scast i :: u64))" by simp
  then show ?thesis by (simp only: of_nat_le_iff)
qed

section \<open>Results of C++ code\<close>

text \<open>
  The ways the modelled code can leave the language: dereferencing a null pointer (also the
  null that a failed \<open>dynamic_cast\<close> gives), indexing outside an array, locking a
  \<open>boost::mutex\<close> the same thread holds, reading an uninitialised pointer, letting an
  exception escape from a completion handler, and running out of call stack. A computation is \<open>Inl e\<close> when it does one of these.
\<close>

datatype cpp_error =
    Null_deref
  | Out_of_bounds
  | Deadlock
  | Uninitialised
  | Uncaught_exception
  | Stack_overflow

type_synonym 'a res = "cpp_error + 'a"

definition rbind :: "'a res \<Rightarrow> ('a \<Rightarrow> 'b res) \<Rightarrow> 'b res" where
  "rbind r f = (case r of Inl e \<Rightarrow> Inl e | Inr x \<Rightarrow> f x)"

lemma rbind_Inl [simp]: "rbind (Inl e) f = Inl e"
  by (simp add: rbind_def)

lemma rbind_Inr [simp]: "rbind (Inr x) f = f x"
  by (simp add: rbind_def)

lemma rbind_eq_Inr [simp]: "rbind r f = Inr y \<longleftrightarrow> (\<exists>x. r = Inr x \<and> f x = Inr y)"
  by (cases r) auto

lemma rbind_split: "P (rbind r f) \<longleftrightarrow> (\<forall>e. r = Inl e \<longrightarrow> P (Inl e)) \<and> (\<forall>x. r = Inr x \<longrightarrow> P (f x))"
  by (cases r) auto

lemma rbind_cong [fundef_cong]:
  "r = s \<Longrightarrow> (\<And>x. s = Inr x \<Longrightarrow> f x = g x) \<Longrightarrow> rbind r f = rbind s g"
  by (cases s) auto

text \<open>Dereferencing a pointer that may be null.\<close>

definition deref :: "'a option \<Rightarrow> 'a res" where
  "deref p = (case p of None \<Rightarrow> Inl Null_deref | Some x \<Rightarrow> Inr x)"

lemma deref_simps [simp]: "deref None = Inl Null_deref" "deref (Some x) = Inr x"
  by (simp_all add: deref_def)

lemma deref_eq_Inr [simp]: "deref p = Inr x \<longleftrightarrow> p = Some x"
  by (cases p) auto

text \<open>
  Total and partial correctness of a computation: it returns a value with the property, or it
  may also leave the language. The rules for \<open>rbind\<close> carry the proofs about code.
\<close>

definition returns :: "'a res \<Rightarrow> ('a \<Rightarrow> bool) \<Rightarrow> bool" where
  "returns r P \<longleftrightarrow> (case r of Inl e \<Rightarrow> False | Inr x \<Rightarrow> P x)"

definition yields :: "'a res \<Rightarrow> ('a \<Rightarrow> bool) \<Rightarrow> bool" where
  "yields r P \<longleftrightarrow> (case r of Inl e \<Rightarrow> True | Inr x \<Rightarrow> P x)"

lemma returns_simps [simp]: "returns (Inr x) P = P x" "\<not> returns (Inl e) P"
  by (simp_all add: returns_def)

lemma yields_simps [simp]: "yields (Inr x) P = P x" "yields (Inl e) P"
  by (simp_all add: yields_def)

lemma returns_bind: "returns r Q \<Longrightarrow> (\<And>x. Q x \<Longrightarrow> returns (f x) P) \<Longrightarrow> returns (rbind r f) P"
  by (cases r) auto

lemma yields_bind: "yields r Q \<Longrightarrow> (\<And>x. Q x \<Longrightarrow> yields (f x) P) \<Longrightarrow> yields (rbind r f) P"
  by (cases r) auto

lemma yields_any: "(\<And>x. r = Inr x \<Longrightarrow> yields (f x) P) \<Longrightarrow> yields (rbind r f) P"
  by (cases r) auto

lemma returns_mono: "returns r Q \<Longrightarrow> (\<And>x. Q x \<Longrightarrow> P x) \<Longrightarrow> returns r P"
  by (cases r) auto

lemma yields_mono: "yields r Q \<Longrightarrow> (\<And>x. Q x \<Longrightarrow> P x) \<Longrightarrow> yields r P"
  by (cases r) auto

lemma returnsD: "returns r P \<Longrightarrow> \<exists>x. r = Inr x \<and> P x"
  by (cases r) auto

lemma yieldsD: "yields r P \<Longrightarrow> r = Inr x \<Longrightarrow> P x"
  by simp

lemma yieldsI: "(\<And>x. r = Inr x \<Longrightarrow> P x) \<Longrightarrow> yields r P"
  by (cases r) auto

section \<open>Error codes\<close>

text \<open>
  A \<open>boost::system::error_code\<close>: no error, the two asio errors the sources compare with,
  or any other. It converts to true in a condition exactly when it holds an error.
\<close>

datatype error_code = no_error | operation_aborted | would_block | other_error int

definition ec_set :: "error_code \<Rightarrow> bool" where
  "ec_set ec \<longleftrightarrow> ec \<noteq> no_error"

lemma ec_set_simps [simp]:
  "\<not> ec_set no_error" "ec_set operation_aborted" "ec_set would_block" "ec_set (other_error n)"
  by (simp_all add: ec_set_def)

section \<open>Invariants of step relations\<close>

text \<open>
  Every state machine of the development (the event loop, the join counter under
  interleaving, the load balancer, the client pool) is a start predicate and a step relation.
  The locale states what an invariant is and proves once that it holds in every state that
  can be reached.
\<close>

inductive reach :: "('s \<Rightarrow> bool) \<Rightarrow> ('s \<Rightarrow> 's \<Rightarrow> bool) \<Rightarrow> 's \<Rightarrow> bool" for init step where
  reach_init: "init s \<Longrightarrow> reach init step s"
| reach_step: "reach init step s \<Longrightarrow> step s t \<Longrightarrow> reach init step t"

lemma reach_weaken: "reach init step s \<Longrightarrow> (\<And>t. init t \<Longrightarrow> init' t) \<Longrightarrow> reach init' step s"
  by (induction rule: reach.induct) (auto intro: reach_init reach_step)

locale invariant =
  fixes init :: "'s \<Rightarrow> bool"
    and step :: "'s \<Rightarrow> 's \<Rightarrow> bool"
    and inv :: "'s \<Rightarrow> bool"
  assumes inv_init: "init s \<Longrightarrow> inv s"
    and inv_step: "inv s \<Longrightarrow> step s t \<Longrightarrow> inv t"
begin

lemma inv_reach: "reach init step s \<Longrightarrow> inv s"
  by (induction rule: reach.induct) (blast intro: inv_init inv_step)+

lemma inv_steps: "step\<^sup>*\<^sup>* s t \<Longrightarrow> inv s \<Longrightarrow> inv t"
  by (induction rule: rtranclp_induct) (blast intro: inv_step)+

end

end
