(* ===== verification/Load_Balancer.thy ===== *)
theory Load_Balancer
  imports Prelude
begin

text \<open>
  \<open>LoadBalancer\<close> (client/load_balancer.h and .cc): the servers of one service and which of
  them failed recently. Every method runs under the object's read-write lock, so it is one
  atomic operation. The order in which \<open>alive_ips_\<close> is iterated and the value of
  \<open>rand()\<close> are arguments of the model.
\<close>

record load_balancer =
  lb_port :: u16
  lb_ips :: "string list"
  lb_bad_ips :: "string set"
  lb_good_ips :: "string set"
  lb_alive_ips :: "string \<rightharpoonup> int"
  lb_timer_armed :: bool

section \<open>Operations\<close>

text \<open>\<open>call_later\<close>: arm the timer whose completion runs \<open>clear_bad_ips\<close>.\<close>

definition lb_call_later :: "load_balancer \<Rightarrow> load_balancer" where
  "lb_call_later b = b\<lparr>lb_timer_armed := True\<rparr>"

definition lb_new :: "string list \<Rightarrow> u16 \<Rightarrow> load_balancer" where
  "lb_new ips port =
     lb_call_later \<lparr> lb_port = port, lb_ips = ips, lb_bad_ips = {}, lb_good_ips = {},
       lb_alive_ips = fold (\<lambda>ip m. m(ip \<mapsto> 1)) ips Map.empty, lb_timer_armed = False \<rparr>"

text \<open>
  The timer's handler: whatever was in \<open>good_ips_\<close> becomes alive, \<open>good_ips_\<close> and
  \<open>bad_ips_\<close> are swapped, \<open>bad_ips_\<close> is emptied.
\<close>

definition clear_bad_ips :: "load_balancer \<Rightarrow> load_balancer" where
  "clear_bad_ips b =
     (let alive = (\<lambda>ip. if ip \<in> lb_good_ips b then Some 1 else lb_alive_ips b ip);
          b1 = b\<lparr>lb_alive_ips := alive\<rparr>;
          b2 = b1\<lparr>lb_good_ips := lb_bad_ips b1, lb_bad_ips := lb_good_ips b1\<rparr>;
          b3 = b2\<lparr>lb_bad_ips := {}\<rparr>
      in lb_call_later b3)"

text \<open>
  \<open>hash_val % ips_.size()\<close>: the \<open>int\<close> is converted to the 64-bit \<open>size_t\<close>, the
  remainder is stored in an \<open>int\<close>, and the subscript converts it to \<open>size_t\<close> again.
\<close>

definition hash_index :: "32 word \<Rightarrow> nat \<Rightarrow> nat" where
  "hash_index hash_val n =
     (let index = (ucast ((scast hash_val :: u64) mod word_of_nat n) :: 32 word)
      in unat (scast index :: u64))"

definition get_alive_ip_by_hash :: "32 word \<Rightarrow> load_balancer \<Rightarrow> (string \<times> u16) option res" where
  "get_alive_ip_by_hash hash_val b =
     (if lb_ips b = [] then Inr None
      else let index = hash_index hash_val (length (lb_ips b)) in
        if index \<ge> length (lb_ips b) then Inl Out_of_bounds
        else if lb_ips b ! index \<in> lb_bad_ips b then Inr None
        else Inr (Some (lb_ips b ! index, lb_port b)))"

text \<open>\<open>get_ip_by_index\<close>: the empty string when the index, read as \<open>size_t\<close>, is out of range.\<close>

definition get_ip_by_index :: "32 word \<Rightarrow> load_balancer \<Rightarrow> string" where
  "get_ip_by_index index b =
     (let i = unat (scast index :: u64) in
      if i \<ge> length (lb_ips b) then [] else lb_ips b ! i)"

text \<open>
  \<open>get_alive_ip_random\<close>: \<open>its\<close> are the keys of \<open>alive_ips_\<close> in iteration order,
  \<open>r\<close> is what \<open>rand()\<close> returned.
\<close>

definition get_alive_ip_random :: "string list \<Rightarrow> nat \<Rightarrow> load_balancer \<Rightarrow> (string \<times> u16) option" where
  "get_alive_ip_random its r b =
     (if length its \<noteq> 0 then
        (let n = r mod length its in
         case drop n its of [] \<Rightarrow> None | ip # _ \<Rightarrow> Some (ip, lb_port b))
      else None)"

definition server_connect_fail :: "string \<Rightarrow> load_balancer \<Rightarrow> load_balancer" where
  "server_connect_fail ip b =
     b\<lparr>lb_alive_ips := (lb_alive_ips b)(ip := None), lb_bad_ips := insert ip (lb_bad_ips b)\<rparr>"

section \<open>Lemmas\<close>

named_theorems lb_simps \<open>how the operations act on the fields\<close>

lemma lb_call_later_fields [simp]:
  "lb_port (lb_call_later b) = lb_port b" "lb_ips (lb_call_later b) = lb_ips b"
  "lb_bad_ips (lb_call_later b) = lb_bad_ips b" "lb_good_ips (lb_call_later b) = lb_good_ips b"
  "lb_alive_ips (lb_call_later b) = lb_alive_ips b" "lb_timer_armed (lb_call_later b)"
  by (simp_all add: lb_call_later_def)

lemma clear_bad_ips_fields [lb_simps]:
  "lb_port (clear_bad_ips b) = lb_port b"
  "lb_ips (clear_bad_ips b) = lb_ips b"
  "lb_bad_ips (clear_bad_ips b) = {}"
  "lb_good_ips (clear_bad_ips b) = lb_bad_ips b"
  "dom (lb_alive_ips (clear_bad_ips b)) = dom (lb_alive_ips b) \<union> lb_good_ips b"
  "lb_timer_armed (clear_bad_ips b)"
  by (auto simp: clear_bad_ips_def Let_def dom_def)

lemma server_connect_fail_fields [lb_simps]:
  "lb_port (server_connect_fail ip b) = lb_port b"
  "lb_ips (server_connect_fail ip b) = lb_ips b"
  "lb_bad_ips (server_connect_fail ip b) = insert ip (lb_bad_ips b)"
  "lb_good_ips (server_connect_fail ip b) = lb_good_ips b"
  "dom (lb_alive_ips (server_connect_fail ip b)) = dom (lb_alive_ips b) - {ip}"
  "lb_timer_armed (server_connect_fail ip b) = lb_timer_armed b"
  by (auto simp: server_connect_fail_def)

lemma dom_fold_upd: "dom (fold (\<lambda>ip m. m(ip \<mapsto> v)) ips m) = dom m \<union> set ips"
  by (induction ips arbitrary: m) auto

lemma lb_new_fields [lb_simps]:
  "lb_port (lb_new ips port) = port" "lb_ips (lb_new ips port) = ips"
  "lb_bad_ips (lb_new ips port) = {}" "lb_good_ips (lb_new ips port) = {}"
  "dom (lb_alive_ips (lb_new ips port)) = set ips" "lb_timer_armed (lb_new ips port)"
  by (simp_all add: lb_new_def dom_fold_upd)

text \<open>Storing a small \<open>size_t\<close> in an \<open>int\<close> and converting back loses nothing.\<close>

lemma size_t_via_int:
  assumes "unat (m :: u64) < 2 ^ 31"
  shows "unat (scast (ucast m :: 32 word) :: u64) = unat m"
proof -
  let ?i = "(ucast m :: 32 word)"
  have i: "unat ?i = unat m"
    using assms by (simp add: unsigned_ucast_eq take_bit_nat_eq_self)
  have small: "uint ?i < 2 ^ 31"
  proof -
    have "int (unat ?i) < int (2 ^ 31)" unfolding i using assms by (simp only: of_nat_less_iff)
    then have "int (unat ?i) < 2 ^ 31" by simp
    then show ?thesis unfolding uint_nat .
  qed
  then have "sint ?i = uint ?i"
    using order_trans [OF _ uint_ge_0, of "- 2147483648" ?i]
    by (simp add: sint_uint signed_take_bit_int_eq_self_iff)
  then have "unat (scast ?i :: u64) = nat (uint ?i)"
    using unat_scast_nonneg [of ?i] uint_ge_0 [of ?i] by simp
  with i show ?thesis by simp
qed

text \<open>
  Which server a hash selects: the hash is taken modulo \<open>2 ^ 64\<close>, then modulo the number of
  servers; the conversions change nothing as long as there are at most \<open>2 ^ 31\<close> of them.
\<close>

lemma hash_index_eq:
  assumes "0 < n" "n \<le> 2 ^ 31"
  shows "hash_index h n = nat (sint h mod 2 ^ 64) mod n"
proof -
  let ?m = "(scast h :: u64) mod word_of_nat n"
  have n64: "unat (word_of_nat n :: u64) = n"
    using assms by (simp add: unat_of_nat take_bit_nat_eq_self)
  have "unat (scast h :: u64) = nat (sint h mod 2 ^ 64)"
    by (simp only: unat_eq_nat_uint scast_eq uint_word_of_int_eq take_bit_eq_mod) simp
  then have m: "unat ?m = nat (sint h mod 2 ^ 64) mod n"
    by (simp add: unat_mod n64)
  then have "unat ?m < 2 ^ 31"
    using assms by (metis mod_less_divisor order_less_le_trans)
  from size_t_via_int [OF this] m show ?thesis
    by (simp add: hash_index_def)
qed

lemma hash_index_bound: "0 < n \<Longrightarrow> n \<le> 2 ^ 31 \<Longrightarrow> hash_index h n < n"
  by (simp add: hash_index_eq)

section \<open>The history of a balancer\<close>

text \<open>
  The events that change a balancer, and a history of them, the latest first. Ticks divide a
  history into periods: \<open>reported h k ip\<close> says that the address was reported as failed in the
  period \<open>k\<close> ticks before the present one.
\<close>

datatype lb_event = Tick | Fail string

fun lb_apply :: "lb_event \<Rightarrow> load_balancer \<Rightarrow> load_balancer" where
  "lb_apply Tick b = clear_bad_ips b"
| "lb_apply (Fail ip) b = server_connect_fail ip b"

definition lb_after :: "lb_event list \<Rightarrow> string list \<Rightarrow> u16 \<Rightarrow> load_balancer" where
  "lb_after h ips port = foldr lb_apply h (lb_new ips port)"

fun reported :: "lb_event list \<Rightarrow> nat \<Rightarrow> string \<Rightarrow> bool" where
  "reported [] k ip = False"
| "reported (Fail ip' # h) k ip = (k = 0 \<and> ip' = ip \<or> reported h k ip)"
| "reported (Tick # h) 0 ip = False"
| "reported (Tick # h) (Suc k) ip = reported h k ip"

lemma reported_fail: "reported h k ip \<Longrightarrow> Fail ip \<in> set h"
  by (induction h k ip rule: reported.induct) auto

section \<open>The balancer as a machine\<close>

inductive lb_step :: "load_balancer \<Rightarrow> load_balancer \<Rightarrow> bool" where
  lb_fail: "lb_step b (server_connect_fail ip b)"
| lb_tick: "lb_timer_armed b \<Longrightarrow> lb_step b (clear_bad_ips (b\<lparr>lb_timer_armed := False\<rparr>))"

definition lb_start :: "load_balancer \<Rightarrow> bool" where
  "lb_start b \<longleftrightarrow> (\<exists>ips port. b = lb_new ips port)"

definition lb_inv :: "load_balancer \<Rightarrow> bool" where
  "lb_inv b \<longleftrightarrow>
     dom (lb_alive_ips b) \<inter> lb_bad_ips b = {} \<and>
     set (lb_ips b) \<subseteq> dom (lb_alive_ips b) \<union> lb_bad_ips b \<union> lb_good_ips b \<and>
     lb_timer_armed b"

lemma lb_inv_step: "lb_inv b \<Longrightarrow> lb_step b b' \<Longrightarrow> lb_inv b'"
  by (erule lb_step.cases) (auto simp: lb_inv_def lb_simps)

lemma lb_inv_start: "lb_start b \<Longrightarrow> lb_inv b"
  unfolding lb_start_def lb_inv_def by (elim exE) (simp add: lb_simps)

interpretation lb_machine: invariant lb_start lb_step lb_inv
  by unfold_locales (erule lb_inv_start, erule (1) lb_inv_step)

section \<open>Properties\<close>

text \<open>
  C30: in every state the balancer can reach from its construction, by any sequence of reported
  failures and timer ticks, no server is alive and bad at once, no configured server has
  been lost (each is alive, bad or good), and the recovery timer is armed.
\<close>

theorem lb_invariant:
  assumes "reach lb_start lb_step b"
  shows "dom (lb_alive_ips b) \<inter> lb_bad_ips b = {} \<and>
         set (lb_ips b) \<subseteq> dom (lb_alive_ips b) \<union> lb_bad_ips b \<union> lb_good_ips b \<and>
         lb_timer_armed b"
  using lb_machine.inv_reach [OF assms] by (simp add: lb_inv_def)

text \<open>
  C20: where an address stands is a function of when it was reported. After any history of failures and
  ticks of a new balancer: the address is bad exactly when it was reported since the last tick; it is
  good exactly when it was reported in the period before; and it is alive exactly when it is a
  configured address or one that was ever reported, was not reported since the last tick, and, if it
  was reported in the period before, was reported in the one before that too. So a report keeps an
  address that was in order out of the alive set for two ticks, as the comment in the header means it,
  but one that is reported in two successive periods is alive again after the next tick.
\<close>

theorem lb_standing:
  "(ip \<in> lb_bad_ips (lb_after h ips port) \<longleftrightarrow> reported h 0 ip) \<and>
   (ip \<in> lb_good_ips (lb_after h ips port) \<longleftrightarrow> reported h 1 ip) \<and>
   (ip \<in> dom (lb_alive_ips (lb_after h ips port)) \<longleftrightarrow>
      (ip \<in> set ips \<or> Fail ip \<in> set h) \<and> \<not> reported h 0 ip \<and> (reported h 1 ip \<longrightarrow> reported h 2 ip))"
proof (induction h)
  case Nil
  then show ?case by (simp add: lb_after_def lb_simps)
next
  case (Cons e h)
  have step: "lb_after (e # h) ips port = lb_apply e (lb_after h ips port)" by (simp add: lb_after_def)
  show ?case
  proof (cases e)
    case Tick
    then show ?thesis
      unfolding step using Cons.IH reported_fail [of h 1 ip]
      by (auto simp: lb_simps numeral_2_eq_2)
  next
    case (Fail ip')
    then show ?thesis unfolding step using Cons.IH by (auto simp: lb_simps)
  qed
qed

text \<open>
  C31: recovery. From any reachable state, two ticks without a failure in between make every
  configured server alive again.
\<close>

theorem lb_recovers:
  assumes "reach lb_start lb_step b"
  shows "set (lb_ips b) \<subseteq> dom (lb_alive_ips (clear_bad_ips (clear_bad_ips b)))"
  using lb_machine.inv_reach [OF assms] by (auto simp: lb_inv_def lb_simps)

text \<open>
  C35: lookup by hash never reads outside the vector, for any hash value (negative ones
  included) and up to \<open>2 ^ 31\<close> servers; it selects the server at the hash modulo
  \<open>2 ^ 64\<close> modulo the number of servers, and answers with it and the port exactly when
  it is not bad.
\<close>

theorem get_alive_ip_by_hash_spec:
  assumes "0 < length (lb_ips b)" "length (lb_ips b) \<le> 2 ^ 31"
  shows "let ip = lb_ips b ! (nat (sint h mod 2 ^ 64) mod length (lb_ips b)) in
     get_alive_ip_by_hash h b = Inr (if ip \<in> lb_bad_ips b then None else Some (ip, lb_port b)) \<and>
     ip \<in> set (lb_ips b)"
proof -
  have "hash_index h (length (lb_ips b)) < length (lb_ips b)"
    using assms by (rule hash_index_bound)
  then show ?thesis
    unfolding hash_index_eq [OF assms, symmetric]
    using assms(1) by (auto simp: get_alive_ip_by_hash_def Let_def)
qed

text \<open>
  A random pick from a non-empty alive set always succeeds and yields an alive server, which
  is not a bad one in a reachable state; every alive server can be picked.
\<close>

lemma get_alive_ip_random_spec:
  assumes "reach lb_start lb_step b" and "set its = dom (lb_alive_ips b)" and "its \<noteq> []"
  shows "(\<exists>ip. get_alive_ip_random its r b = Some (ip, lb_port b) \<and>
              ip \<in> dom (lb_alive_ips b) \<and> ip \<notin> lb_bad_ips b) \<and>
         (\<forall>ip \<in> dom (lb_alive_ips b). \<exists>r'. get_alive_ip_random its r' b = Some (ip, lb_port b))"
proof
  have pick: "get_alive_ip_random its n b = Some (its ! (n mod length its), lb_port b)" for n
    using assms(3) by (simp add: get_alive_ip_random_def Let_def Cons_nth_drop_Suc [symmetric])
  have "its ! (r mod length its) \<in> dom (lb_alive_ips b)"
    using assms(2,3) nth_mem by fastforce
  with pick [of r] lb_machine.inv_reach [OF assms(1)]
  show "\<exists>ip. get_alive_ip_random its r b = Some (ip, lb_port b) \<and>
              ip \<in> dom (lb_alive_ips b) \<and> ip \<notin> lb_bad_ips b"
    unfolding lb_inv_def by blast
  show "\<forall>ip \<in> dom (lb_alive_ips b). \<exists>r'. get_alive_ip_random its r' b = Some (ip, lb_port b)"
  proof
    fix ip assume "ip \<in> dom (lb_alive_ips b)"
    then obtain n where "n < length its" "its ! n = ip"
      using assms(2) in_set_conv_nth by metis
    with pick [of n] show "\<exists>r'. get_alive_ip_random its r' b = Some (ip, lb_port b)"
      by (auto intro: exI [of _ n])
  qed
qed

text \<open>
  \<open>get_ip_by_index\<close> returns the server at the index when the index, as a signed
  number, is in range, and the empty string otherwise; negative indices are out of range.
\<close>

lemma get_ip_by_index_spec:
  assumes "length (lb_ips b) \<le> 2 ^ 63"
  shows "get_ip_by_index i b =
     (if 0 \<le> sint i \<and> sint i < int (length (lb_ips b)) then lb_ips b ! nat (sint i) else [])"
proof (cases "0 \<le> sint i")
  case True
  with unat_scast_nonneg [OF True] show ?thesis
    by (auto simp: get_ip_by_index_def Let_def)
next
  case False
  then have "2 ^ 63 \<le> unat (scast i :: u64)" by (intro unat_scast_neg) simp
  with assms have "length (lb_ips b) \<le> unat (scast i :: u64)" by (rule order_trans)
  with False show ?thesis by (simp add: get_ip_by_index_def)
qed

section \<open>Witnesses\<close>

text \<open>Two servers, the second of which has just failed.\<close>

definition ex_lb :: load_balancer where
  "ex_lb = server_connect_fail ''b'' (lb_new [''a'', ''b''] 80)"

lemma ex_lb_reach: "reach lb_start lb_step ex_lb"
  unfolding ex_lb_def
  by (rule reach_step [where s = "lb_new [''a'', ''b''] 80"], rule reach_init)
    (auto simp: lb_start_def intro: lb_fail)

lemma ex_lb_fields [simp]: "lb_ips ex_lb = [''a'', ''b'']" "lb_bad_ips ex_lb = {''b''}"
  "dom (lb_alive_ips ex_lb) = {''a''}" "lb_port ex_lb = 80"
  by (auto simp: ex_lb_def lb_simps)

theorem lb_invariant_witness:
  "dom (lb_alive_ips ex_lb) \<inter> lb_bad_ips ex_lb = {} \<and> ''b'' \<in> lb_bad_ips ex_lb"
  using lb_invariant [OF ex_lb_reach] by simp

text \<open>Reported once, an address is still out after a tick; reported in two periods, it is back.\<close>

theorem lb_standing_witness:
  "''b'' \<notin> dom (lb_alive_ips (lb_after [Tick, Fail ''b''] [''a'', ''b''] 80)) \<and>
   ''b'' \<in> dom (lb_alive_ips (lb_after [Tick, Fail ''b'', Tick, Fail ''b''] [''a'', ''b''] 80))"
  using lb_standing [of "''b''" "[Tick, Fail ''b'']" "[''a'', ''b'']" 80]
    lb_standing [of "''b''" "[Tick, Fail ''b'', Tick, Fail ''b'']" "[''a'', ''b'']" 80]
  by (simp add: numeral_2_eq_2)

theorem lb_recovers_witness: "{''a'', ''b''} \<subseteq> dom (lb_alive_ips (clear_bad_ips (clear_bad_ips ex_lb)))"
  using lb_recovers [OF ex_lb_reach] by simp

theorem get_alive_ip_by_hash_spec_witness:
  "get_alive_ip_by_hash 7 ex_lb = Inr None \<and> get_alive_ip_by_hash (- 2) ex_lb = Inr (Some (''a'', 80))"
  using get_alive_ip_by_hash_spec [of ex_lb 7] get_alive_ip_by_hash_spec [of ex_lb "- 2"]
  by (simp add: Let_def numeral_2_eq_2 [symmetric])

theorem get_alive_ip_random_spec_witness:
  "\<exists>ip. get_alive_ip_random [''a''] 41 ex_lb = Some (ip, 80) \<and> ip \<notin> lb_bad_ips ex_lb"
  using get_alive_ip_random_spec [OF ex_lb_reach, of "[''a'']" 41] by auto

end
