(* ===== verification/Std_Map.thy ===== *)
theory Std_Map
  imports Prelude "HOL-Library.List_Lexorder" "HOL-Library.Char_ord"
begin

text \<open>
  \<open>std::map\<close> as the sources use it: a container that is iterated in key order, with
  \<open>find\<close>, \<open>insert\<close> (which keeps an entry that is already there), assignment through
  \<open>operator[]\<close> and the default insertion that a bare \<open>operator[]\<close> makes. A map is an
  association list with strictly ascending keys; strings compare lexicographically by
  unsigned character, which is the order of the library's \<open>Char_ord\<close> and
  \<open>List_Lexorder\<close>.
\<close>

type_synonym ('k, 'v) smap = "('k \<times> 'v) list"

definition sm_empty :: "('k, 'v) smap" where
  "sm_empty = []"

definition sm_find :: "('k, 'v) smap \<Rightarrow> 'k \<Rightarrow> 'v option" where
  "sm_find = map_of"

text \<open>Assignment \<open>m[k] = v\<close>.\<close>

fun sm_put :: "'k::linorder \<Rightarrow> 'v \<Rightarrow> ('k, 'v) smap \<Rightarrow> ('k, 'v) smap" where
  "sm_put k v [] = [(k, v)]"
| "sm_put k v ((k', v') # m) =
     (if k < k' then (k, v) # (k', v') # m
      else if k = k' then (k, v) # m
      else (k', v') # sm_put k v m)"

text \<open>\<open>m.insert(make_pair(k, v))\<close>: no effect when the key is present.\<close>

definition sm_insert :: "'k::linorder \<Rightarrow> 'v \<Rightarrow> ('k, 'v) smap \<Rightarrow> ('k, 'v) smap" where
  "sm_insert k v m = (case sm_find m k of None \<Rightarrow> sm_put k v m | Some _ \<Rightarrow> m)"

text \<open>
  \<open>m[k]\<close> used as a value, for a mapped type that is a pointer: the entry, after a null
  has been inserted where there was none.
\<close>

definition sm_index :: "('k::linorder, 'v option) smap \<Rightarrow> 'k \<Rightarrow> 'v option \<times> ('k, 'v option) smap" where
  "sm_index m k = (case sm_find m k of None \<Rightarrow> (None, sm_put k None m) | Some v \<Rightarrow> (v, m))"

definition sm_wf :: "('k::linorder, 'v) smap \<Rightarrow> bool" where
  "sm_wf m \<longleftrightarrow> sorted_wrt (<) (map fst m)"

section \<open>The laws of the container\<close>

lemma sm_find_put: "sm_find (sm_put k v m) = (sm_find m)(k \<mapsto> v)"
  unfolding sm_find_def by (induction k v m rule: sm_put.induct) auto

lemma sm_find_Nil [simp]: "sm_find [] k = None"
  by (simp add: sm_find_def)

lemma sm_find_Cons [simp]: "sm_find ((k', v) # m) k = (if k = k' then Some v else sm_find m k)"
  by (simp add: sm_find_def)

lemma set_sm_put: "set (sm_put k v m) \<subseteq> insert (k, v) (set m)"
  by (induction k v m rule: sm_put.induct) auto

lemma fst_set_put: "fst ` set (sm_put k v m) = insert k (fst ` set m)"
  by (induction k v m rule: sm_put.induct) auto

lemma sm_wf_put: "sm_wf m \<Longrightarrow> sm_wf (sm_put k v m)"
proof (induction k v m rule: sm_put.induct)
  case (2 k v k' v' m)
  have "fst ` set (sm_put k v m) = insert k (fst ` set m)"
    by (rule fst_set_put)
  with 2 show ?case
    by (auto simp: sm_wf_def)
qed (simp add: sm_wf_def)

lemma sm_find_empty: "sm_find sm_empty k = None"
  by (simp add: sm_empty_def sm_find_def)

lemma sm_wf_empty: "sm_wf sm_empty"
  by (simp add: sm_wf_def sm_empty_def)

text \<open>What a user of a \<open>std::map\<close> may rely on, and the lemmas that follow from it.\<close>

locale std_map =
  fixes empty :: 'm
    and find :: "'m \<Rightarrow> 'k \<Rightarrow> 'v option"
    and put :: "'k \<Rightarrow> 'v \<Rightarrow> 'm \<Rightarrow> 'm"
    and ins :: "'k \<Rightarrow> 'v \<Rightarrow> 'm \<Rightarrow> 'm"
    and wf :: "'m \<Rightarrow> bool"
  assumes find_empty: "find empty k = None"
    and find_put: "find (put k v m) = (find m)(k \<mapsto> v)"
    and ins_eq: "ins k v m = (case find m k of None \<Rightarrow> put k v m | Some _ \<Rightarrow> m)"
    and wf_empty: "wf empty"
    and wf_put: "wf m \<Longrightarrow> wf (put k v m)"
begin

lemma find_ins: "find (ins k v m) k' = (if k' = k \<and> find m k = None then Some v else find m k')"
  by (simp add: ins_eq find_put split: option.split)

lemma find_ins_keeps: "find m k' = Some u \<Longrightarrow> find (ins k v m) k' = Some u"
  by (auto simp: find_ins)

lemma find_ins_new: "find m k = None \<Longrightarrow> find (ins k v m) k = Some v"
  by (simp add: find_ins)

lemma dom_ins: "dom (find (ins k v m)) = insert k (dom (find m))"
  by (auto simp: find_ins dom_def)

lemma wf_ins: "wf m \<Longrightarrow> wf (ins k v m)"
  by (auto simp: ins_eq wf_put split: option.split)

text \<open>Building a map by a sequence of insertions: the first entry for a key is the one kept.\<close>

lemma find_fold_ins:
  "find (fold (\<lambda>(k, v). ins k v) kvs m) k =
     (case find m k of Some v \<Rightarrow> Some v | None \<Rightarrow> map_of kvs k)"
proof (induction kvs arbitrary: m)
  case Nil
  then show ?case by (simp split: option.split)
next
  case (Cons kv kvs)
  then show ?case by (cases kv) (auto simp: find_ins split: option.split)
qed

end

interpretation sm: std_map "sm_empty" "sm_find" "sm_put" "sm_insert" "sm_wf"
  by unfold_locales
    (simp_all add: sm_find_empty sm_find_put sm_insert_def sm_wf_put sm_wf_empty
      split: option.split)

lemma sm_index_present [simp]: "sm_find m k = Some v \<Longrightarrow> sm_index m k = (v, m)"
  by (simp add: sm_index_def)

lemma sm_index_absent: "sm_find m k = None \<Longrightarrow> sm_index m k = (None, sm_put k None m)"
  by (simp add: sm_index_def)

lemma fst_sm_index: "fst (sm_index m k) = Option.bind (sm_find m k) id"
  by (cases "sm_find m k") (auto simp: sm_index_def)

lemma sm_find_in_set: "sm_find m k = Some v \<Longrightarrow> (k, v) \<in> set m"
  by (simp add: sm_find_def map_of_SomeD)

lemma sm_wf_distinct: "sm_wf m \<Longrightarrow> distinct (map fst m)"
  by (auto simp: sm_wf_def strict_sorted_iff)

lemma sm_find_iff: "sm_wf m \<Longrightarrow> sm_find m k = Some v \<longleftrightarrow> (k, v) \<in> set m"
  using sm_wf_distinct [of m] by (auto simp: sm_find_def)

end
