(* ===== verification/Asio.thy ===== *)
theory Asio
  imports Prelude
begin

text \<open>
  What the sources see of boost::asio and of the operating system. The library itself is not
  part of the repository, so nothing here computes what it would do: timers and sockets are
  names, an operation that was started is a record of the call, and every answer a synchronous
  call gives back is read from an environment \<open>asio_env\<close> that each entry point of the
  model takes as an argument. Theorems quantify over all environments.
\<close>

type_synonym ctx_id = nat
type_synonym conn_id = nat
type_synonym client_id = nat

text \<open>
  A \<open>boost::asio::deadline_timer\<close> of a module's data: the context, the module's name and the
  position in the module's timer array (0 for the modules with one timer).
\<close>

datatype timer_id = Module_timer ctx_id string nat

datatype sock_id = Conn_socket conn_id | Client_socket client_id

record asio_env =
  ev_now :: int
  ev_poll_read :: "client_id \<Rightarrow> int \<times> error_code"
  ev_recvmsg :: "client_id \<Rightarrow> int \<times> error_code"
  ev_timer_cancel :: "timer_id \<Rightarrow> error_code"
  ev_socket_cancel :: "sock_id \<Rightarrow> error_code"
  ev_address_parses :: "string \<Rightarrow> bool"
  ev_socket_opens :: bool
  ev_remote_endpoint :: "client_id \<Rightarrow> string \<times> error_code"

text \<open>
  The fields are, in order: \<open>time(NULL)\<close>; the result and error of
  \<open>socket_ops::poll_read\<close> and of \<open>socket_ops::recvmsg\<close> on a client's socket; the
  error of \<open>deadline_timer::cancel(err)\<close> and of \<open>socket::cancel(err)\<close>; whether
  \<open>address::from_string\<close> returns rather than throws; whether the socket constructor of
  a new client returns rather than throws; the address that
  \<open>socket::remote_endpoint(ec)\<close> reports for a client's socket, with its error.
\<close>

end
