(* ===== verification/Tcp_Client.thy ===== *)
theory Tcp_Client
  imports Asio
begin

text \<open>
  \<open>TcpClient\<close> (client/tcp_client.h): one connection to a back-end server. Clients are
  shared objects, so they live in a heap indexed by \<open>client_id\<close>; a \<open>TcpClientPtr\<close> is
  an optional index. The socket itself is named by the index.
\<close>

record tcp_client =
  tc_times :: int
  tc_peer_id :: int
  tc_is_closed :: bool
  tc_last_touch_time :: int

type_synonym client_ptr = "client_id option"
type_synonym client_heap = "client_id \<Rightarrow> tcp_client"

definition tcp_client_new :: "asio_env \<Rightarrow> int \<Rightarrow> tcp_client" where
  "tcp_client_new env peer =
     \<lparr> tc_times = 0, tc_peer_id = peer, tc_is_closed = False, tc_last_touch_time = ev_now env \<rparr>"

definition is_closed :: "tcp_client \<Rightarrow> bool" where
  "is_closed c = (if tc_is_closed c then True else False)"

text \<open>
  The probe of the socket: poll for readability; if something is there, peek at it, and call
  the connection broken when the peek reads nothing or fails; otherwise broken when polling
  failed with anything but \<open>would_block\<close>.
\<close>

definition is_error :: "asio_env \<Rightarrow> client_id \<Rightarrow> bool" where
  "is_error env i =
     (let (rc, error) = ev_poll_read env i in
      if rc > 0 \<and> \<not> ec_set error then
        (let (rc', error') = ev_recvmsg env i in
         if rc' \<le> 0 \<or> ec_set error' then True else False)
      else if rc < 0 \<or> (ec_set error \<and> ec_set error \<and> error \<noteq> would_block) then True
      else False)"

definition increase_times :: "tcp_client \<Rightarrow> int \<times> tcp_client" where
  "increase_times c = (let n = tc_times c + 1 in (n, c\<lparr>tc_times := n\<rparr>))"

definition close :: "tcp_client \<Rightarrow> tcp_client" where
  "close c = (if \<not> tc_is_closed c then c\<lparr>tc_is_closed := True\<rparr> else c)"

definition on_recollect :: "asio_env \<Rightarrow> tcp_client \<Rightarrow> tcp_client" where
  "on_recollect env c = c\<lparr>tc_last_touch_time := ev_now env\<rparr>"

definition get_peer_id :: "tcp_client \<Rightarrow> int" where
  "get_peer_id c = tc_peer_id c"

definition expired :: "tcp_client \<Rightarrow> int \<Rightarrow> int \<Rightarrow> bool" where
  "expired c now time \<longleftrightarrow> now - tc_last_touch_time c \<ge> time"

text \<open>The peer's address for log lines; empty when the socket has no peer.\<close>

definition remote_ip :: "asio_env \<Rightarrow> client_id \<Rightarrow> string" where
  "remote_ip env i = (case ev_remote_endpoint env i of (ip, ec) \<Rightarrow> if \<not> ec_set ec then ip else [])"

section \<open>Lemmas\<close>

named_theorems client_simps \<open>how the client's operations act on its fields\<close>

lemma is_closed_iff [client_simps]: "is_closed c \<longleftrightarrow> tc_is_closed c"
  by (simp add: is_closed_def)

lemma increase_times_fields [client_simps]:
  "increase_times c = (tc_times c + 1, c\<lparr>tc_times := tc_times c + 1\<rparr>)"
  by (simp add: increase_times_def Let_def)

lemma close_fields [client_simps]:
  "tc_is_closed (close c)"
  "tc_times (close c) = tc_times c"
  "tc_peer_id (close c) = tc_peer_id c"
  "tc_last_touch_time (close c) = tc_last_touch_time c"
  by (simp_all add: close_def)

lemma close_idem: "close (close c) = close c"
  by (simp add: close_def)

lemma on_recollect_fields [client_simps]:
  "tc_is_closed (on_recollect env c) = tc_is_closed c"
  "tc_times (on_recollect env c) = tc_times c"
  "tc_peer_id (on_recollect env c) = tc_peer_id c"
  "tc_last_touch_time (on_recollect env c) = ev_now env"
  by (simp_all add: on_recollect_def)

lemma is_error_iff:
  "is_error env i \<longleftrightarrow>
     (let (rc, ec) = ev_poll_read env i; (rc', ec') = ev_recvmsg env i in
        if rc > 0 \<and> ec = no_error then rc' \<le> 0 \<or> ec' \<noteq> no_error
        else rc < 0 \<or> ec \<notin> {no_error, would_block})"
  by (auto simp: is_error_def ec_set_def split: prod.splits)

lemma expired_recollect:
  "0 < t \<Longrightarrow> \<not> expired (on_recollect env c) (ev_now env) t"
  by (simp add: expired_def on_recollect_def)

end
