(* ===== verification/Client_Pool.thy ===== *)
theory Client_Pool
  imports Tcp_Client
begin

text \<open>
  \<open>TcpClientPool\<close> (client/tcp_client_pool.h and .cc): the free connections to back-end
  servers, one deque per peer. Every method takes the pool's mutex for its whole body, so a
  method is one atomic operation on the pool and on the client heap. The map from peers to
  deques is a \<open>boost::unordered_map\<close>: where the code iterates over it, the order of the
  keys is an argument of the model.
\<close>

record tcp_client_pool =
  cp_max_times :: int
  cp_check_time :: int
  cp_free_clients :: "int \<rightharpoonup> client_ptr list"
  cp_timer_armed :: bool

section \<open>Operations\<close>

text \<open>\<open>call_later\<close>: (re)arm the timer whose completion runs \<open>check_clients\<close>.\<close>

definition pool_call_later :: "tcp_client_pool \<Rightarrow> tcp_client_pool" where
  "pool_call_later p = p\<lparr>cp_timer_armed := True\<rparr>"

definition pool_new :: "int \<Rightarrow> int \<Rightarrow> tcp_client_pool" where
  "pool_new check_time max_times =
     pool_call_later \<lparr> cp_max_times = max_times, cp_check_time = check_time,
                       cp_free_clients = Map.empty, cp_timer_armed = False \<rparr>"

text \<open>
  The loop of \<open>get_client\<close>: pop clients from the front until one is alive, has uses left
  and probes clean. The result is that client, what is left of the deque, and the heap, in
  which the popped clients may have been counted or closed.
\<close>

fun get_client_loop ::
  "asio_env \<Rightarrow> int \<Rightarrow> client_heap \<Rightarrow> client_ptr list \<Rightarrow> client_ptr \<times> client_ptr list \<times> client_heap"
where
  "get_client_loop env mt h [] = (None, [], h)"
| "get_client_loop env mt h (client # dq) =
     (case client of
        None \<Rightarrow> get_client_loop env mt h dq
      | Some i \<Rightarrow>
          if is_closed (h i) then get_client_loop env mt h dq
          else if mt > 0 then
            (let (n, c) = increase_times (h i); h1 = h(i := c) in
             if n > mt then get_client_loop env mt (h1(i := close c)) dq
             else if \<not> is_error env i then (Some i, dq, h1)
             else get_client_loop env mt h1 dq)
          else if \<not> is_error env i then (Some i, dq, h)
          else get_client_loop env mt h dq)"

definition get_client ::
  "asio_env \<Rightarrow> int \<Rightarrow> tcp_client_pool \<Rightarrow> client_heap \<Rightarrow> client_ptr \<times> tcp_client_pool \<times> client_heap"
where
  "get_client env peer p h =
     (case cp_free_clients p peer of
        None \<Rightarrow> (None, p, h)
      | Some dq \<Rightarrow>
          (let (c, dq', h') = get_client_loop env (cp_max_times p) h dq
           in (c, p\<lparr>cp_free_clients := (cp_free_clients p)(peer \<mapsto> dq')\<rparr>, h')))"

definition recollect ::
  "asio_env \<Rightarrow> client_ptr \<Rightarrow> tcp_client_pool \<Rightarrow> client_heap \<Rightarrow> tcp_client_pool \<times> client_heap"
where
  "recollect env client p h =
     (case client of
        None \<Rightarrow> (p, h)
      | Some i \<Rightarrow>
          (let h1 = h(i := on_recollect env (h i));
               peer = get_peer_id (h1 i);
               dq = (case cp_free_clients p peer of None \<Rightarrow> [] | Some dq \<Rightarrow> dq)
           in (p\<lparr>cp_free_clients := (cp_free_clients p)(peer \<mapsto> dq @ [Some i])\<rparr>, h1)))"

text \<open>
  The two loops of \<open>check_clients\<close>. The inner loop dereferences every element of the
  deque without a null test.
\<close>

fun check_deque ::
  "asio_env \<Rightarrow> int \<Rightarrow> client_heap \<Rightarrow> client_ptr list \<Rightarrow> (client_ptr list \<times> client_heap) res"
where
  "check_deque env ct h [] = Inr ([], h)"
| "check_deque env ct h (client # dq) =
     rbind (deref client) (\<lambda>i.
       if expired (h i) (ev_now env) ct then
         check_deque env ct (h(i := close (h i))) dq
       else if is_closed (h i) \<or> is_error env i then check_deque env ct h dq
       else rbind (check_deque env ct h dq) (\<lambda>(dq', h'). Inr (client # dq', h')))"

fun check_loop ::
  "asio_env \<Rightarrow> int list \<Rightarrow> tcp_client_pool \<Rightarrow> client_heap \<Rightarrow> (tcp_client_pool \<times> client_heap) res"
where
  "check_loop env [] p h = Inr (p, h)"
| "check_loop env (k # ks) p h =
     (case cp_free_clients p k of
        None \<Rightarrow> check_loop env ks p h
      | Some dq \<Rightarrow>
          rbind (check_deque env (cp_check_time p) h dq) (\<lambda>(dq', h').
            check_loop env ks (p\<lparr>cp_free_clients := (cp_free_clients p)(k \<mapsto> dq')\<rparr>) h'))"

definition check_clients ::
  "asio_env \<Rightarrow> int list \<Rightarrow> tcp_client_pool \<Rightarrow> client_heap \<Rightarrow> (tcp_client_pool \<times> client_heap) res"
where
  "check_clients env ks p h =
     (if cp_free_clients p = Map.empty then Inr (pool_call_later p, h)
      else rbind (check_loop env ks p h) (\<lambda>(p', h'). Inr (pool_call_later p', h')))"

text \<open>\<open>size\<close>, over the keys in iteration order.\<close>

fun pool_size_loop :: "int list \<Rightarrow> tcp_client_pool \<Rightarrow> nat \<Rightarrow> nat" where
  "pool_size_loop [] p num = num"
| "pool_size_loop (k # ks) p num =
     pool_size_loop ks p
       (num + (case cp_free_clients p k of None \<Rightarrow> 0 | Some dq \<Rightarrow> length dq))"

definition pool_size :: "int list \<Rightarrow> tcp_client_pool \<Rightarrow> nat" where
  "pool_size ks p = pool_size_loop ks p 0"

section \<open>What \<open>get_client\<close> promises\<close>

text \<open>A client the pool may hand out: alive, with a use left, and with a clean socket.\<close>

definition usable :: "asio_env \<Rightarrow> int \<Rightarrow> client_heap \<Rightarrow> client_ptr \<Rightarrow> bool" where
  "usable env mt h client \<longleftrightarrow>
     (case client of None \<Rightarrow> False
      | Some i \<Rightarrow> \<not> tc_is_closed (h i) \<and> (mt > 0 \<longrightarrow> tc_times (h i) < mt) \<and> \<not> is_error env i)"

lemma usable_simps [simp]:
  "\<not> usable env mt h None"
  "usable env mt h (Some i) \<longleftrightarrow>
     \<not> tc_is_closed (h i) \<and> (mt > 0 \<longrightarrow> tc_times (h i) < mt) \<and> \<not> is_error env i"
  by (simp_all add: usable_def)

text \<open>
  Rejecting a client never makes any client usable or unusable: the one rejected stays
  unusable, the others are not touched.
\<close>

lemma usable_close:
  "\<not> usable env mt h (Some i) \<Longrightarrow>
     usable env mt (h(i := close c)) d = usable env mt h d"
  by (cases d) (auto simp: client_simps)

lemma usable_errored:
  "is_error env i \<Longrightarrow> usable env mt (h(i := c)) d = usable env mt h d"
  by (cases d) auto

text \<open>
  What a pop leaves of the heap: identities and touch times are kept, uses never shrink,
  and a closed client stays closed.
\<close>

definition heap_kept :: "client_heap \<Rightarrow> client_heap \<Rightarrow> bool" where
  "heap_kept h h' \<longleftrightarrow>
     (\<forall>j. tc_peer_id (h' j) = tc_peer_id (h j) \<and>
          tc_last_touch_time (h' j) = tc_last_touch_time (h j) \<and>
          tc_times (h j) \<le> tc_times (h' j) \<and>
          (tc_is_closed (h j) \<longrightarrow> tc_is_closed (h' j)))"

lemma heap_kept_refl [simp]: "heap_kept h h"
  by (simp add: heap_kept_def)

lemma heap_kept_trans: "heap_kept h h' \<Longrightarrow> heap_kept h' h'' \<Longrightarrow> heap_kept h h''"
  unfolding heap_kept_def by (metis order_trans)

text \<open>One round of the loop, on a client that is rejected and on one that is handed out.\<close>

lemma get_client_loop_reject:
  assumes "\<not> usable env mt h c"
  obtains h' where "get_client_loop env mt h (c # dq) = get_client_loop env mt h' dq"
    and "\<And>d. usable env mt h' d = usable env mt h d" and "heap_kept h h'"
    and "\<And>j. c \<noteq> Some j \<Longrightarrow> h' j = h j"
proof (cases c)
  case None
  then show ?thesis by (intro that [of h]) auto
next
  case (Some i)
  let ?inc = "(h i)\<lparr>tc_times := tc_times (h i) + 1\<rparr>"
  consider "is_closed (h i)"
    | "\<not> is_closed (h i)" "mt > 0" "tc_times (h i) + 1 > mt"
    | "\<not> is_closed (h i)" "is_error env i" "mt > 0" "\<not> tc_times (h i) + 1 > mt"
    | "\<not> is_closed (h i)" "is_error env i" "\<not> mt > 0"
    using assms Some by (fastforce simp: client_simps)
  then show ?thesis
  proof cases
    case 2
    with Some assms show ?thesis
      by (intro that [of "h(i := close ?inc)"])
        (auto simp: usable_close heap_kept_def Let_def client_simps)
  next
    case 3
    with Some show ?thesis
      by (intro that [of "h(i := ?inc)"])
        (auto simp: usable_errored heap_kept_def Let_def client_simps)
  qed (use Some in \<open>intro that [of h]; auto\<close>)+
qed

lemma get_client_loop_accept:
  "usable env mt h (Some i) \<Longrightarrow>
     get_client_loop env mt h (Some i # dq) =
       (Some i, dq, if mt > 0 then h(i := (h i)\<lparr>tc_times := tc_times (h i) + 1\<rparr>) else h)"
  by (auto simp: Let_def client_simps)

text \<open>The loop finds the first usable client and leaves exactly what is behind it.\<close>

lemma get_client_loop_first:
  "\<exists>h'. get_client_loop env mt h dq =
     (case dropWhile (\<lambda>c. \<not> usable env mt h c) dq of
        [] \<Rightarrow> (None, [], h')
      | c # rest \<Rightarrow> (c, rest, h')) \<and> heap_kept h h' \<and>
     (\<forall>i rest. dropWhile (\<lambda>c. \<not> usable env mt h c) dq = Some i # rest \<longrightarrow>
        \<not> tc_is_closed (h' i) \<and> (mt > 0 \<longrightarrow> tc_times (h' i) \<le> mt))"
proof (induction dq arbitrary: h)
  case Nil
  then show ?case by auto
next
  case (Cons c dq)
  show ?case
  proof (cases "usable env mt h c")
    case True
    then obtain i where "c = Some i" by (cases c) auto
    with True show ?thesis
      by (simp add: get_client_loop_accept del: get_client_loop.simps)
        (auto simp: heap_kept_def)
  next
    case False
    obtain h1 where h1: "get_client_loop env mt h (c # dq) = get_client_loop env mt h1 dq"
      "\<And>d. usable env mt h1 d = usable env mt h d" "heap_kept h h1"
      using get_client_loop_reject [OF False, of dq] by metis
    from Cons.IH [of h1] False show ?thesis
      unfolding h1(1,2) by (auto intro: heap_kept_trans [OF h1(3)])
  qed
qed

text \<open>Only clients that were popped are touched.\<close>

lemma get_client_loop_frame:
  "get_client_loop env mt h dq = (c, dq', h') \<Longrightarrow>
     \<exists>pre. dq = pre @ dq' \<and> (\<forall>j. Some j \<notin> set pre \<longrightarrow> h' j = h j)"
proof (induction dq arbitrary: h)
  case Nil
  then show ?case by simp
next
  case (Cons d dq)
  show ?case
  proof (cases "usable env mt h d")
    case True
    then obtain i where "d = Some i" by (cases d) auto
    with True Cons.prems show ?thesis
      by (intro exI [of _ "[d]"])
        (auto simp: get_client_loop_accept simp del: get_client_loop.simps split: if_splits)
  next
    case False
    obtain h1 where h1: "get_client_loop env mt h (d # dq) = get_client_loop env mt h1 dq"
      "\<And>j. d \<noteq> Some j \<Longrightarrow> h1 j = h j"
      using get_client_loop_reject [OF False, of dq] by metis
    with Cons obtain pre where "dq = pre @ dq'" "\<forall>j. Some j \<notin> set pre \<longrightarrow> h' j = h1 j"
      by metis
    with h1(2) show ?thesis by (intro exI [of _ "d # pre"]) auto
  qed
qed

text \<open>The same for the method: the deque of the peer as the pool has it.\<close>

definition pool_deque :: "tcp_client_pool \<Rightarrow> int \<Rightarrow> client_ptr list" where
  "pool_deque p peer = (case cp_free_clients p peer of None \<Rightarrow> [] | Some dq \<Rightarrow> dq)"

lemma pool_deque_upd [simp]:
  "pool_deque (p\<lparr>cp_free_clients := (cp_free_clients p)(k \<mapsto> dq)\<rparr>) k' =
     (if k' = k then dq else pool_deque p k')"
  by (simp add: pool_deque_def)

lemma pool_call_later_fields [simp]:
  "pool_deque (pool_call_later p) k = pool_deque p k"
  "cp_timer_armed (pool_call_later p)"
  "cp_max_times (pool_call_later p) = cp_max_times p"
  "cp_check_time (pool_call_later p) = cp_check_time p"
  by (simp_all add: pool_deque_def pool_call_later_def)

text \<open>The part of a peer's deque from its first usable client on.\<close>

definition candidates :: "asio_env \<Rightarrow> tcp_client_pool \<Rightarrow> client_heap \<Rightarrow> int \<Rightarrow> client_ptr list" where
  "candidates env p h peer = dropWhile (\<lambda>c. \<not> usable env (cp_max_times p) h c) (pool_deque p peer)"

lemma candidates_Nil: "cp_free_clients p peer = None \<Longrightarrow> candidates env p h peer = []"
  by (simp add: candidates_def pool_deque_def)

lemma get_client_spec:
  assumes "get_client env peer p h = (c, p', h')"
  shows get_client_result: "c = (case candidates env p h peer of [] \<Rightarrow> None | c # _ \<Rightarrow> c)"
    and get_client_deque: "pool_deque p' k = (if k = peer then tl (candidates env p h peer) else pool_deque p k)"
    and get_client_heap: "heap_kept h h'"
    and get_client_usable: "c = Some i \<Longrightarrow>
          \<not> tc_is_closed (h' i) \<and> (cp_max_times p > 0 \<longrightarrow> tc_times (h' i) \<le> cp_max_times p)"
    and get_client_config: "cp_max_times p' = cp_max_times p" "cp_check_time p' = cp_check_time p"
          "cp_timer_armed p' = cp_timer_armed p"
proof -
  let ?mt = "cp_max_times p" and ?cand = "candidates env p h peer"
  obtain h1 where h1: "get_client_loop env ?mt h (pool_deque p peer) =
       (case ?cand of [] \<Rightarrow> (None, [], h1) | c # rest \<Rightarrow> (c, rest, h1))" "heap_kept h h1"
     "\<And>i rest. ?cand = Some i # rest \<Longrightarrow> \<not> tc_is_closed (h1 i) \<and> (?mt > 0 \<longrightarrow> tc_times (h1 i) \<le> ?mt)"
    using get_client_loop_first [of env ?mt h "pool_deque p peer"] unfolding candidates_def by blast
  show "c = (case ?cand of [] \<Rightarrow> None | c # _ \<Rightarrow> c)"
    "pool_deque p' k = (if k = peer then tl ?cand else pool_deque p k)"
    "heap_kept h h'" "cp_max_times p' = cp_max_times p" "cp_check_time p' = cp_check_time p"
    "cp_timer_armed p' = cp_timer_armed p"
    "c = Some i \<Longrightarrow> \<not> tc_is_closed (h' i) \<and> (?mt > 0 \<longrightarrow> tc_times (h' i) \<le> ?mt)"
    using assms h1 candidates_Nil [of p peer env h]
    by (cases "cp_free_clients p peer"; cases ?cand; auto simp: get_client_def pool_deque_def)+
qed

lemma candidates_suffix: "\<exists>pre. pool_deque p peer = pre @ candidates env p h peer"
  unfolding candidates_def by (metis takeWhile_dropWhile_id)

section \<open>The pool invariant\<close>

text \<open>
  No deque holds a null or the same client twice, and every client waits under its own peer
  (so no client is in two deques).
\<close>

definition pool_clients :: "tcp_client_pool \<Rightarrow> client_id set" where
  "pool_clients p = {i. \<exists>k. Some i \<in> set (pool_deque p k)}"

definition pool_inv :: "tcp_client_pool \<Rightarrow> client_heap \<Rightarrow> bool" where
  "pool_inv p h \<longleftrightarrow>
     (\<forall>k. None \<notin> set (pool_deque p k) \<and> distinct (pool_deque p k) \<and>
          (\<forall>i. Some i \<in> set (pool_deque p k) \<longrightarrow> tc_peer_id (h i) = k))"

lemma pool_inv_heap:
  "pool_inv p h \<Longrightarrow> (\<And>i. i \<in> pool_clients p \<Longrightarrow> tc_peer_id (h' i) = tc_peer_id (h i)) \<Longrightarrow> pool_inv p h'"
  unfolding pool_inv_def pool_clients_def by auto

lemma pool_inv_new: "pool_inv (pool_new ct mt) h"
  by (simp add: pool_inv_def pool_new_def pool_deque_def pool_call_later_def)

lemma pool_clients_new: "pool_clients (pool_new ct mt) = {}"
  by (simp add: pool_clients_def pool_new_def pool_deque_def pool_call_later_def)

lemma get_client_deque_suffix:
  assumes "get_client env peer p h = (c, p', h')"
  shows "\<exists>pre. pool_deque p k = pre @ pool_deque p' k"
proof (cases "k = peer")
  case True
  obtain pre where "pool_deque p peer = pre @ candidates env p h peer"
    using candidates_suffix by blast
  with True show ?thesis
    using get_client_deque [OF assms, of k]
    by (cases "candidates env p h peer") (auto simp: append_eq_append_conv2 intro: exI [of _ "pre @ [_]"])
qed (use get_client_deque [OF assms, of k] in simp)

lemma get_client_inv:
  assumes "pool_inv p h" and get: "get_client env peer p h = (c, p', h')"
  shows "pool_inv p' h'"
  unfolding pool_inv_def
proof
  fix k
  obtain pre where "pool_deque p k = pre @ pool_deque p' k"
    using get_client_deque_suffix [OF get] by blast
  with assms(1) get_client_heap [OF get] show
    "None \<notin> set (pool_deque p' k) \<and> distinct (pool_deque p' k) \<and>
     (\<forall>i. Some i \<in> set (pool_deque p' k) \<longrightarrow> tc_peer_id (h' i) = k)"
    unfolding pool_inv_def heap_kept_def by (metis Un_iff distinct_append set_append)
qed

lemma get_client_shrinks:
  assumes "get_client env peer p h = (c, p', h')"
  shows "pool_clients p' \<subseteq> pool_clients p"
proof
  fix i assume "i \<in> pool_clients p'"
  then obtain k where "Some i \<in> set (pool_deque p' k)" by (auto simp: pool_clients_def)
  moreover obtain pre where "pool_deque p k = pre @ pool_deque p' k"
    using get_client_deque_suffix [OF assms] by blast
  ultimately have "Some i \<in> set (pool_deque p k)" by simp
  then show "i \<in> pool_clients p" unfolding pool_clients_def by blast
qed

lemma get_client_takes:
  assumes inv: "pool_inv p h" and get: "get_client env peer p h = (Some i, p', h')"
  shows "i \<in> pool_clients p" "i \<notin> pool_clients p'" "tc_peer_id (h i) = peer"
proof -
  obtain rest where cand: "candidates env p h peer = Some i # rest"
    using get_client_result [OF get] by (auto split: list.splits)
  obtain pre where pre: "pool_deque p peer = pre @ Some i # rest"
    using candidates_suffix [of p peer env h] cand by auto
  then have "Some i \<in> set (pool_deque p peer)" by simp
  then show "i \<in> pool_clients p" "tc_peer_id (h i) = peer"
    using inv unfolding pool_clients_def pool_inv_def by blast+
  have "Some i \<notin> set (pool_deque p' k)" for k
  proof (cases "k = peer")
    case True
    have "distinct (pool_deque p peer)" using inv by (simp add: pool_inv_def)
    with pre True show ?thesis
      using get_client_deque [OF get, of k] cand by simp
  next
    case False
    with \<open>tc_peer_id (h i) = peer\<close> inv show ?thesis
      using get_client_deque [OF get, of k] unfolding pool_inv_def by metis
  qed
  then show "i \<notin> pool_clients p'" by (simp add: pool_clients_def)
qed

lemma recollect_deque:
  "recollect env (Some i) p h = (p', h') \<Longrightarrow>
     pool_deque p' k = (if k = tc_peer_id (h i) then pool_deque p k @ [Some i] else pool_deque p k)"
  by (auto simp: recollect_def Let_def get_peer_id_def client_simps pool_deque_def)

lemma recollect_heap:
  "recollect env (Some i) p h = (p', h') \<Longrightarrow> h' = h(i := on_recollect env (h i))"
  by (auto simp: recollect_def Let_def)

lemma recollect_config:
  "recollect env c p h = (p', h') \<Longrightarrow> cp_max_times p' = cp_max_times p \<and>
     cp_check_time p' = cp_check_time p \<and> cp_timer_armed p' = cp_timer_armed p"
  by (auto simp: recollect_def Let_def split: option.splits)

lemma recollect_clients:
  "recollect env (Some i) p h = (p', h') \<Longrightarrow> pool_clients p' = insert i (pool_clients p)"
  unfolding pool_clients_def
  by (simp add: recollect_deque set_eq_iff) (metis Un_iff empty_iff empty_set insert_iff list.simps(15) option.inject set_append)

lemma recollect_inv:
  assumes "pool_inv p h" and "i \<notin> pool_clients p" and rec: "recollect env (Some i) p h = (p', h')"
  shows "pool_inv p' h'"
  using assms recollect_heap [OF rec] recollect_deque [OF rec]
  by (auto simp: pool_inv_def pool_clients_def client_simps)

section \<open>The interface a module sees\<close>

text \<open>
  What a user of a pool relies on: \<open>take\<close> moves a client out of the pool, \<open>give\<close>
  puts one back, and the pool never holds what its user holds.
\<close>

locale client_source =
  fixes take_client :: "'e \<Rightarrow> int \<Rightarrow> 'p \<Rightarrow> 'h \<Rightarrow> client_ptr \<times> 'p \<times> 'h"
    and give_client :: "'e \<Rightarrow> client_ptr \<Rightarrow> 'p \<Rightarrow> 'h \<Rightarrow> 'p \<times> 'h"
    and held :: "'p \<Rightarrow> client_id set"
    and ok :: "'p \<Rightarrow> 'h \<Rightarrow> bool"
  assumes take_ok: "ok p h \<Longrightarrow> take_client e k p h = (c, p', h') \<Longrightarrow> ok p' h'"
    and take_held: "take_client e k p h = (c, p', h') \<Longrightarrow> held p' \<subseteq> held p"
    and take_moves: "ok p h \<Longrightarrow> take_client e k p h = (Some i, p', h') \<Longrightarrow> i \<in> held p \<and> i \<notin> held p'"
    and give_ok: "ok p h \<Longrightarrow> i \<notin> held p \<Longrightarrow> give_client e (Some i) p h = (p', h') \<Longrightarrow> ok p' h'"
    and give_held: "give_client e (Some i) p h = (p', h') \<Longrightarrow> held p' = insert i (held p)"
    and give_null: "give_client e None p h = (p, h)"
begin

text \<open>Lending keeps the borrowed clients apart from the pooled ones, and so does returning.\<close>

lemma lend_exclusive:
  assumes "ok p h" "out \<inter> held p = {}" "take_client e k p h = (Some i, p', h')"
  shows "i \<notin> out" "insert i out \<inter> held p' = {}"
  using assms take_held [OF assms(3)] take_moves [OF assms(1,3)] by blast+

lemma lend_nothing:
  assumes "out \<inter> held p = {}" "take_client e k p h = (c, p', h')"
  shows "out \<inter> held p' = {}"
  using assms take_held [OF assms(2)] by blast

lemma return_exclusive:
  assumes "ok p h" "out \<inter> held p = {}" "i \<in> out" "give_client e (Some i) p h = (p', h')"
  shows "(out - {i}) \<inter> held p' = {}" "ok p' h'"
  using assms give_held [OF assms(4)] give_ok [OF assms(1) _ assms(4)] by blast+

end

interpretation pool: client_source get_client recollect pool_clients pool_inv
  by unfold_locales
    (auto simp: recollect_clients recollect_def intro: get_client_inv recollect_inv
      dest: get_client_takes(1,2) get_client_shrinks)

section \<open>Sweeping the pool\<close>

text \<open>The clients a sweep keeps, and what it does to the heap.\<close>

definition survives :: "asio_env \<Rightarrow> int \<Rightarrow> client_heap \<Rightarrow> client_ptr \<Rightarrow> bool" where
  "survives env ct h client \<longleftrightarrow>
     (case client of None \<Rightarrow> False
      | Some i \<Rightarrow> \<not> expired (h i) (ev_now env) ct \<and> \<not> tc_is_closed (h i) \<and> \<not> is_error env i)"

definition close_expired :: "asio_env \<Rightarrow> int \<Rightarrow> client_id set \<Rightarrow> client_heap \<Rightarrow> client_heap" where
  "close_expired env ct I h =
     (\<lambda>i. if i \<in> I \<and> expired (h i) (ev_now env) ct then close (h i) else h i)"

lemma close_expired_expired:
  "expired (close_expired env ct I h i) now' ct' = expired (h i) now' ct'"
  by (simp add: close_expired_def expired_def client_simps)

lemma survives_close_expired:
  "survives env ct (close_expired env ct I h) = survives env ct h"
  by (rule ext) (auto simp: survives_def close_expired_expired split: option.split,
      auto simp: close_expired_def)

lemma close_expired_Un:
  "close_expired env ct J (close_expired env ct I h) = close_expired env ct (I \<union> J) h"
  by (rule ext) (auto simp: close_expired_def expired_def client_simps close_idem)

lemma check_deque_filter:
  "None \<notin> set dq \<Longrightarrow>
     check_deque env ct h dq =
       Inr (filter (survives env ct h) dq, close_expired env ct {i. Some i \<in> set dq} h)"
proof (induction dq arbitrary: h)
  case Nil
  then show ?case by (simp add: close_expired_def)
next
  case (Cons c dq)
  then obtain i where c: "c = Some i" by (cases c) auto
  show ?case
  proof (cases "expired (h i) (ev_now env) ct")
    case True
    then have "h(i := close (h i)) = close_expired env ct {i} h"
      by (auto simp: close_expired_def)
    with True c Cons show ?thesis
      by (simp add: close_expired_Un survives_close_expired)
        (auto simp: survives_def close_expired_def fun_eq_iff)
  next
    case False
    then have "close_expired env ct {j. Some j \<in> set (c # dq)} h =
               close_expired env ct {j. Some j \<in> set dq} h"
      using c by (auto simp: close_expired_def)
    with False c Cons show ?thesis
      by (auto simp: client_simps survives_def)
  qed
qed

lemma check_loop_filter:
  "(\<And>k. None \<notin> set (pool_deque p k)) \<Longrightarrow> distinct ks \<Longrightarrow>
   \<exists>p'. check_loop env ks p h =
          Inr (p', close_expired env (cp_check_time p) {i. \<exists>k\<in>set ks. Some i \<in> set (pool_deque p k)} h) \<and>
        (\<forall>k. pool_deque p' k =
           (if k \<in> set ks then filter (survives env (cp_check_time p) h) (pool_deque p k)
            else pool_deque p k)) \<and>
        cp_max_times p' = cp_max_times p \<and> cp_check_time p' = cp_check_time p"
proof (induction ks arbitrary: p h)
  case Nil
  then show ?case by (simp add: close_expired_def)
next
  case (Cons k ks)
  let ?ct = "cp_check_time p"
  let ?P = "\<lambda>ks p. {i. \<exists>k\<in>set ks. Some i \<in> set (pool_deque p k)}"
  show ?case
  proof (cases "cp_free_clients p k")
    case None
    then have "pool_deque p k = []" by (simp add: pool_deque_def)
    with None Cons.IH [of p h] Cons.prems show ?thesis by auto
  next
    case (Some dq)
    then have dq: "pool_deque p k = dq" by (simp add: pool_deque_def)
    let ?h1 = "close_expired env ?ct {i. Some i \<in> set dq} h"
    let ?p1 = "p\<lparr>cp_free_clients := (cp_free_clients p)(k \<mapsto> filter (survives env ?ct h) dq)\<rparr>"
    have step: "check_loop env (k # ks) p h = check_loop env ks ?p1 ?h1"
      using Some check_deque_filter [of dq env ?ct h] Cons.prems(1) [of k] dq by simp
    have "None \<notin> set (pool_deque ?p1 k')" for k'
      using Cons.prems(1) [of k'] Cons.prems(1) [of k] dq by simp
    then obtain p' where p': "check_loop env ks ?p1 ?h1 = Inr (p', close_expired env ?ct (?P ks ?p1) ?h1)"
      "\<And>k'. pool_deque p' k' = (if k' \<in> set ks then filter (survives env ?ct ?h1) (pool_deque ?p1 k')
                               else pool_deque ?p1 k')"
      "cp_max_times p' = cp_max_times p" "cp_check_time p' = ?ct"
      using Cons.IH [of ?p1 ?h1] Cons.prems(2) by auto
    have "?P (k # ks) p = {i. Some i \<in> set dq} \<union> ?P ks ?p1"
      using dq Cons.prems(2) by (auto split: if_splits)
    with step p' dq Cons.prems(2) show ?thesis
      by (auto simp: close_expired_Un survives_close_expired)
  qed
qed

text \<open>The keys an iteration over the pool's map visits.\<close>

definition iterates :: "int list \<Rightarrow> tcp_client_pool \<Rightarrow> bool" where
  "iterates ks p \<longleftrightarrow> distinct ks \<and> set ks = dom (cp_free_clients p)"

lemma pool_deque_outside: "iterates ks p \<Longrightarrow> k \<notin> set ks \<Longrightarrow> pool_deque p k = []"
  by (auto simp: iterates_def pool_deque_def dom_def)

lemma pool_clients_iterates:
  assumes "iterates ks p"
  shows "pool_clients p = {i. \<exists>k\<in>set ks. Some i \<in> set (pool_deque p k)}"
  using pool_deque_outside [OF assms] unfolding pool_clients_def by fastforce

lemma check_clients_filter:
  assumes inv: "\<And>k. None \<notin> set (pool_deque p k)" and it: "iterates ks p"
  obtains p' where
    "check_clients env ks p h = Inr (p', close_expired env (cp_check_time p) (pool_clients p) h)"
    "\<And>k. pool_deque p' k = filter (survives env (cp_check_time p) h) (pool_deque p k)"
    "cp_timer_armed p'" "cp_max_times p' = cp_max_times p" "cp_check_time p' = cp_check_time p"
proof (cases "cp_free_clients p = Map.empty")
  case True
  then have "pool_deque p k = []" for k by (simp add: pool_deque_def)
  with True show ?thesis
    by (intro that [of "pool_call_later p"])
      (auto simp: check_clients_def pool_clients_def close_expired_def pool_call_later_def pool_deque_def)
next
  case False
  let ?ct = "cp_check_time p"
  obtain p' where p': "check_loop env ks p h = Inr (p', close_expired env ?ct (pool_clients p) h)"
    "\<And>k. pool_deque p' k = (if k \<in> set ks then filter (survives env ?ct h) (pool_deque p k) else pool_deque p k)"
    "cp_max_times p' = cp_max_times p" "cp_check_time p' = ?ct"
    using check_loop_filter [of p ks env h] inv it
    unfolding pool_clients_iterates [OF it] iterates_def by blast
  show ?thesis
    by (rule that [of "pool_call_later p'"])
      (use False p' pool_deque_outside [OF it] in \<open>auto simp: check_clients_def\<close>)
qed

lemma check_clients_inv:
  assumes "pool_inv p h" and it: "iterates ks p"
    and run: "check_clients env ks p h = Inr (p', h')"
  shows "pool_inv p' h'" "pool_clients p' \<subseteq> pool_clients p"
    "h' = close_expired env (cp_check_time p) (pool_clients p) h"
    "cp_timer_armed p'" "cp_max_times p' = cp_max_times p"
proof -
  from assms(1) have nn: "None \<notin> set (pool_deque p k)" for k by (simp add: pool_inv_def)
  obtain p'' where p'': "check_clients env ks p h = Inr (p'', close_expired env (cp_check_time p) (pool_clients p) h)"
    "\<And>k. pool_deque p'' k = filter (survives env (cp_check_time p) h) (pool_deque p k)"
    "cp_timer_armed p''" "cp_max_times p'' = cp_max_times p"
    using check_clients_filter [OF nn it, of env h] by metis
  with run show "h' = close_expired env (cp_check_time p) (pool_clients p) h"
    "cp_timer_armed p'" "cp_max_times p' = cp_max_times p"
    by simp_all
  show "pool_clients p' \<subseteq> pool_clients p"
    using run p'' by (auto simp: pool_clients_def)
  show "pool_inv p' h'"
    using run p'' assms(1) by (auto simp: pool_inv_def close_expired_def client_simps)
qed

section \<open>Lending as a machine\<close>

text \<open>
  The pool together with the clients its users hold (\<open>out\<close>). A step is one call of a
  pool method, or a user creating, using or dropping a client. A user may do anything to a
  client it holds except change whom it is connected to; only the pool counts uses.
\<close>

type_synonym pool_state = "tcp_client_pool \<times> client_heap \<times> client_id set"

inductive pool_step :: "pool_state \<Rightarrow> pool_state \<Rightarrow> bool" where
  ps_get: "get_client env peer p h = (Some i, p', h') \<Longrightarrow>
     pool_step (p, h, out) (p', h', insert i out)"
| ps_get_none: "get_client env peer p h = (None, p', h') \<Longrightarrow> pool_step (p, h, out) (p', h', out)"
| ps_recollect: "i \<in> out \<Longrightarrow> recollect env (Some i) p h = (p', h') \<Longrightarrow>
     pool_step (p, h, out) (p', h', out - {i})"
| ps_create: "i \<notin> out \<Longrightarrow> i \<notin> pool_clients p \<Longrightarrow>
     pool_step (p, h, out) (p, h(i := tcp_client_new env peer), insert i out)"
| ps_close: "i \<in> out \<Longrightarrow> pool_step (p, h, out) (p, h(i := close (h i)), out)"
| ps_drop: "pool_step (p, h, out) (p, h, out - {i})"
| ps_sweep: "cp_timer_armed p \<Longrightarrow> iterates ks p \<Longrightarrow>
     check_clients env ks (p\<lparr>cp_timer_armed := False\<rparr>) h = Inr (p', h') \<Longrightarrow>
     pool_step (p, h, out) (p', h', out)"

definition pool_start :: "pool_state \<Rightarrow> bool" where
  "pool_start s \<longleftrightarrow> (\<exists>ct mt h. s = (pool_new ct mt, h, {}))"

text \<open>
  Nothing is pooled and lent at the same time, the sweep stays scheduled, and a client in
  circulation has not been handed out more often than the pool allows.
\<close>

definition pool_machine_inv :: "pool_state \<Rightarrow> bool" where
  "pool_machine_inv = (\<lambda>(p, h, out).
     pool_inv p h \<and> out \<inter> pool_clients p = {} \<and> cp_timer_armed p \<and>
     (cp_max_times p > 0 \<longrightarrow> (\<forall>i \<in> out \<union> pool_clients p. tc_times (h i) \<le> cp_max_times p)))"

lemma pool_clients_disarm [simp]:
  "pool_clients (p\<lparr>cp_timer_armed := b\<rparr>) = pool_clients p"
  "pool_inv (p\<lparr>cp_timer_armed := b\<rparr>) h = pool_inv p h"
  "iterates ks (p\<lparr>cp_timer_armed := b\<rparr>) = iterates ks p"
  by (simp_all add: pool_clients_def pool_inv_def pool_deque_def iterates_def)

lemma get_client_frame:
  assumes inv: "pool_inv p h" and get: "get_client env peer p h = (c, p', h')"
    and "i \<in> pool_clients p' \<or> i \<notin> pool_clients p"
  shows "h' i = h i"
proof (cases "cp_free_clients p peer")
  case None
  with get show ?thesis by (simp add: get_client_def)
next
  case (Some dq)
  then obtain dq' where loop: "get_client_loop env (cp_max_times p) h dq = (c, dq', h')"
    and p': "p' = p\<lparr>cp_free_clients := (cp_free_clients p)(peer \<mapsto> dq')\<rparr>"
    using get by (auto simp: get_client_def split: prod.splits)
  from get_client_loop_frame [OF loop] obtain pre where
    pre: "dq = pre @ dq'" "\<forall>j. Some j \<notin> set pre \<longrightarrow> h' j = h j" by blast
  have dq: "pool_deque p peer = dq" using Some by (simp add: pool_deque_def)
  have "Some i \<notin> set pre"
  proof
    assume i: "Some i \<in> set pre"
    then have "Some i \<in> set (pool_deque p peer)" using pre(1) dq by simp
    then have "tc_peer_id (h i) = peer" and "i \<in> pool_clients p"
      using inv unfolding pool_inv_def pool_clients_def by blast+
    with assms(3) obtain k where k: "Some i \<in> set (pool_deque p' k)"
      unfolding pool_clients_def by blast
    show False
    proof (cases "k = peer")
      case True
      with k i pre(1) dq inv p' show False
        by (metis disjoint_iff distinct_append pool_deque_upd pool_inv_def)
    next
      case False
      with k p' \<open>tc_peer_id (h i) = peer\<close> inv show False
        by (metis pool_deque_upd pool_inv_def)
    qed
  qed
  with pre(2) show ?thesis by simp
qed

lemma pool_inv_other:
  "pool_inv p h \<Longrightarrow> i \<notin> pool_clients p \<Longrightarrow> pool_inv p (h(i := c))"
  by (auto simp: pool_inv_def pool_clients_def)

lemma pool_machine_step:
  assumes "pool_machine_inv s" and "pool_step s t"
  shows "pool_machine_inv t"
  using assms(2,1)
proof (cases rule: pool_step.cases)
  case (ps_get env peer p h i p' h' out)
  note get = ps_get(3)
  from assms(1) ps_get have inv: "pool_inv p h" "out \<inter> pool_clients p = {}"
    "cp_max_times p > 0 \<Longrightarrow> j \<in> out \<union> pool_clients p \<Longrightarrow> tc_times (h j) \<le> cp_max_times p" for j
    by (auto simp: pool_machine_inv_def)
  have "tc_times (h' j) \<le> cp_max_times p"
    if "cp_max_times p > 0" "j \<in> insert i out \<union> pool_clients p'" for j
  proof (cases "j = i")
    case True
    with that(1) get_client_usable [OF get] show ?thesis by simp
  next
    case False
    with that inv(2) get_client_shrinks [OF get] have "h' j = h j"
      by (intro get_client_frame [OF inv(1) get]) auto
    with inv(3) [of j] that False get_client_shrinks [OF get] show ?thesis by auto
  qed
  with ps_get assms(1) get_client_inv [OF inv(1) get] pool.lend_exclusive [OF inv(1,2) get]
    get_client_config [OF get]
  show ?thesis by (auto simp: pool_machine_inv_def)
next
  case (ps_get_none env peer p h p' h' out)
  note get = ps_get_none(3)
  from assms(1) ps_get_none have inv: "pool_inv p h" "out \<inter> pool_clients p = {}"
    by (auto simp: pool_machine_inv_def)
  have "h' j = h j" if "j \<in> out \<union> pool_clients p'" for j
    using that inv(2) by (intro get_client_frame [OF inv(1) get]) auto
  with ps_get_none assms(1) get_client_inv [OF inv(1) get] pool.lend_nothing [OF inv(2) get]
    get_client_config [OF get] get_client_shrinks [OF get]
  show ?thesis by (auto simp: pool_machine_inv_def)
next
  case (ps_recollect i out env p h p' h')
  note rec = ps_recollect(4)
  from assms(1) ps_recollect have inv: "pool_inv p h" "out \<inter> pool_clients p = {}"
    by (auto simp: pool_machine_inv_def)
  with ps_recollect assms(1) pool.return_exclusive [OF inv _ rec] recollect_heap [OF rec]
    recollect_config [OF rec] recollect_clients [OF rec]
  show ?thesis by (auto simp: pool_machine_inv_def client_simps)
next
  case (ps_create i out p h env peer)
  with assms(1) pool_inv_other [of p h i] show ?thesis
    by (auto simp: pool_machine_inv_def tcp_client_new_def)
next
  case (ps_close i out p h)
  with assms(1) have "i \<notin> pool_clients p" by (auto simp: pool_machine_inv_def)
  with ps_close assms(1) pool_inv_other [of p h i] show ?thesis
    by (auto simp: pool_machine_inv_def client_simps)
next
  case (ps_drop p h out i)
  with assms(1) show ?thesis by (auto simp: pool_machine_inv_def)
next
  case (ps_sweep p ks env h p' h' out)
  with assms(1) check_clients_inv [of "p\<lparr>cp_timer_armed := False\<rparr>" h ks env p' h']
  show ?thesis
    by (fastforce simp: pool_machine_inv_def close_expired_def client_simps)
qed

lemma pool_machine_init: "pool_start s \<Longrightarrow> pool_machine_inv s"
  unfolding pool_start_def pool_machine_inv_def
  by (auto simp: pool_inv_new pool_clients_new) (simp add: pool_new_def)

interpretation pool_machine: invariant pool_start pool_step pool_machine_inv
  by unfold_locales (erule pool_machine_init, erule (1) pool_machine_step)

section \<open>Properties\<close>

text \<open>
  C18: \<open>get_client\<close> answers with the first client in the peer's deque that is open, has been
  handed out fewer than \<open>max_times\<close> times (when that limit is positive) and probes clean,
  or with null when there is none. What was in front of it is gone from the deque, what was
  behind it stays, in order; other peers' deques are not touched. The client handed out is
  open and its use count does not exceed the limit.
\<close>

theorem get_client_first_usable:
  "case get_client env peer p h of (c, p', h') \<Rightarrow>
     c = (case dropWhile (\<lambda>c. \<not> usable env (cp_max_times p) h c) (pool_deque p peer) of
            [] \<Rightarrow> None | c # _ \<Rightarrow> c) \<and>
     pool_deque p' peer = tl (dropWhile (\<lambda>c. \<not> usable env (cp_max_times p) h c) (pool_deque p peer)) \<and>
     (\<forall>k. k = peer \<or> pool_deque p' k = pool_deque p k) \<and>
     (case c of None \<Rightarrow> True
      | Some i \<Rightarrow> \<not> tc_is_closed (h' i) \<and> (cp_max_times p \<le> 0 \<or> tc_times (h' i) \<le> cp_max_times p))"
proof -
  obtain c p' h' where get: "get_client env peer p h = (c, p', h')" by (cases "get_client env peer p h")
  show ?thesis
    using get_client_result [OF get] get_client_deque [OF get] get_client_usable [OF get]
    unfolding get candidates_def by (auto split: option.split)
qed

text \<open>
  C27: a sweep by \<open>check_clients\<close> never dereferences a null, keeps in every deque exactly
  the clients that are neither expired nor closed nor broken, in order, closes the expired
  ones, and arms its timer again.
\<close>

theorem check_clients_sweeps:
  assumes "pool_inv p h" and "iterates ks p"
  shows "\<exists>p'. check_clients env ks p h =
           Inr (p', close_expired env (cp_check_time p) (pool_clients p) h) \<and>
         (\<forall>k. pool_deque p' k = filter (survives env (cp_check_time p) h) (pool_deque p k)) \<and>
         cp_timer_armed p'"
proof -
  have "None \<notin> set (pool_deque p k)" for k using assms(1) by (simp add: pool_inv_def)
  from check_clients_filter [OF this assms(2), of env h] show ?thesis by metis
qed

text \<open>
  C26: in every state the pool and its users can reach, no client is both pooled and in a
  user's hands, no deque holds a null or a duplicate, each client waits under the peer it is
  connected to, the sweep is scheduled, and no client in circulation has been handed out more
  than \<open>max_times\<close> times.
\<close>

theorem pool_lends_exclusively:
  assumes "reach pool_start pool_step (p, h, out)"
  shows "out \<inter> pool_clients p = {} \<and> pool_inv p h \<and> cp_timer_armed p \<and>
    (cp_max_times p > 0 \<longrightarrow> (\<forall>i \<in> out \<union> pool_clients p. tc_times (h i) \<le> cp_max_times p))"
  using pool_machine.inv_reach [OF assms] by (auto simp: pool_machine_inv_def)

text \<open>
  \<open>size\<close> counts every free client once, whatever the order in which the map is iterated.
\<close>

lemma pool_size_counts:
  assumes "pool_inv p h" and "iterates ks p"
  shows "pool_size ks p = card (pool_clients p)"
proof -
  let ?D = "\<lambda>k. {i. Some i \<in> set (pool_deque p k)}"
  have loop: "pool_size_loop ls p n = n + (\<Sum>k\<leftarrow>ls. length (pool_deque p k))" for ls n
    by (induction ls arbitrary: n) (auto simp: pool_deque_def split: option.split)
  have fin: "finite (?D k)" for k
    using finite_vimageI [of "set (pool_deque p k)" Some] by (simp add: vimage_def)
  have card: "card (?D k) = length (pool_deque p k)" for k
  proof -
    have "set (pool_deque p k) = Some ` ?D k"
      using assms(1) unfolding pool_inv_def
      by (auto simp: image_iff) (metis option.exhaust)
    then show ?thesis
      using assms(1) distinct_card [of "pool_deque p k"] card_image [of Some "?D k"]
      unfolding pool_inv_def by (metis inj_Some)
  qed
  have "?D k \<inter> ?D k' = {}" if "k \<noteq> k'" for k k'
    using assms(1) that unfolding pool_inv_def by blast
  then have "card (\<Union>k\<in>set ks. ?D k) = (\<Sum>k\<in>set ks. card (?D k))"
    using fin by (intro card_UN_disjoint) auto
  moreover have "pool_clients p = (\<Union>k\<in>set ks. ?D k)"
    using pool_clients_iterates [OF assms(2)] by blast
  ultimately show ?thesis
    using assms(2) by (simp add: pool_size_def loop card iterates_def sum_list_distinct_conv_sum_set)
qed

text \<open>
  A client given back with \<open>recollect\<close> is what the next \<open>get_client\<close> for its peer
  returns, when it is usable and nothing usable waits in front of it; the deque is empty
  afterwards.
\<close>

lemma recollect_get_client:
  assumes "recollect env (Some i) p h = (p1, h1)"
    and "\<And>c. c \<in> set (pool_deque p (tc_peer_id (h i))) \<Longrightarrow> \<not> usable env' (cp_max_times p) h1 c"
    and "usable env' (cp_max_times p) h1 (Some i)"
  shows "\<exists>p2 h2. get_client env' (tc_peer_id (h i)) p1 h1 = (Some i, p2, h2) \<and>
           pool_deque p2 (tc_peer_id (h i)) = []"
proof -
  let ?k = "tc_peer_id (h i)"
  have "candidates env' p1 h1 ?k = [Some i]"
    using assms(2,3) recollect_config [OF assms(1)] recollect_deque [OF assms(1), of ?k]
    by (simp add: candidates_def dropWhile_append2)
  moreover obtain c p2 h2 where "get_client env' ?k p1 h1 = (c, p2, h2)"
    by (cases "get_client env' ?k p1 h1")
  ultimately show ?thesis
    using get_client_result [of env' ?k p1 h1 c p2 h2] get_client_deque [of env' ?k p1 h1 c p2 h2 ?k]
    by simp
qed

section \<open>Witnesses\<close>

text \<open>A quiet environment: no socket reports anything, time stands at 100.\<close>

definition quiet_env :: asio_env where
  "quiet_env = \<lparr> ev_now = 100, ev_poll_read = (\<lambda>_. (0, no_error)), ev_recvmsg = (\<lambda>_. (0, no_error)),
     ev_timer_cancel = (\<lambda>_. no_error), ev_socket_cancel = (\<lambda>_. no_error),
     ev_address_parses = (\<lambda>_. True), ev_socket_opens = True,
     ev_remote_endpoint = (\<lambda>_. (''10.0.0.1'', no_error)) \<rparr>"

text \<open>A pool that holds client 7 of peer 3, touched at time 100, and the heap behind it.\<close>

definition ex_heap :: client_heap where
  "ex_heap = (\<lambda>_. tcp_client_new quiet_env 3)"

definition ex_pool :: tcp_client_pool where
  "ex_pool = (pool_new 20 1000)\<lparr>cp_free_clients := [3 \<mapsto> [Some 7]]\<rparr>"

lemma ex_pool_deque: "pool_deque ex_pool k = (if k = 3 then [Some 7] else [])"
  by (simp add: ex_pool_def pool_deque_def)

lemma ex_pool_inv: "pool_inv ex_pool ex_heap"
  by (simp add: pool_inv_def ex_pool_deque ex_heap_def tcp_client_new_def)

lemma ex_pool_iterates: "iterates [3] ex_pool"
  by (simp add: iterates_def ex_pool_def)

theorem check_clients_sweeps_witness:
  "\<exists>p'. check_clients (quiet_env\<lparr>ev_now := 150\<rparr>) [3] ex_pool ex_heap =
       Inr (p', close_expired (quiet_env\<lparr>ev_now := 150\<rparr>) 20 (pool_clients ex_pool) ex_heap) \<and>
     pool_deque p' 3 = []"
proof -
  have "cp_check_time ex_pool = 20" by (simp add: ex_pool_def pool_new_def pool_call_later_def)
  moreover have "\<not> survives (quiet_env\<lparr>ev_now := 150\<rparr>) 20 ex_heap (Some 7)"
    by (simp add: survives_def ex_heap_def expired_def tcp_client_new_def quiet_env_def)
  ultimately show ?thesis
    using check_clients_sweeps [OF ex_pool_inv ex_pool_iterates, of "quiet_env\<lparr>ev_now := 150\<rparr>"]
    by (auto simp: ex_pool_deque)
qed

theorem pool_lends_exclusively_witness:
  "reach pool_start pool_step (pool_new 20 1000, ex_heap, {7}) \<and> {7} \<inter> pool_clients (pool_new 20 1000) = {}"
proof -
  have "reach pool_start pool_step (pool_new 20 1000, ex_heap, {})"
    by (rule reach_init) (auto simp: pool_start_def)
  then have "reach pool_start pool_step (pool_new 20 1000, ex_heap(7 := tcp_client_new quiet_env 3), insert 7 {})"
    by (rule reach_step) (rule ps_create, simp_all add: pool_clients_new)
  then have *: "reach pool_start pool_step (pool_new 20 1000, ex_heap, {7})"
    by (simp add: ex_heap_def fun_upd_def)
  with pool_lends_exclusively [OF *] show ?thesis by blast
qed

theorem recollect_get_client_witness:
  "\<exists>p2 h2. get_client quiet_env 3 ex_pool ex_heap = (Some 7, p2, h2) \<and> pool_deque p2 3 = []"
proof -
  have "recollect quiet_env (Some 7) (pool_new 20 1000) ex_heap = (ex_pool, ex_heap)"
    by (auto simp: recollect_def Let_def ex_heap_def on_recollect_def tcp_client_new_def get_peer_id_def
        ex_pool_def pool_new_def pool_call_later_def)
  from recollect_get_client [OF this, of quiet_env] show ?thesis
    by (simp add: ex_heap_def tcp_client_new_def is_error_def quiet_env_def pool_new_def pool_call_later_def
        pool_deque_def)
qed

end
