(* ===== verification/Framework.thy ===== *)
theory Framework
  imports Std_Map Client_Pool
begin

text \<open>
  The data model of the framework: module states and module classes (framework/module.h,
  module/*.h), the per-request \<open>FsmContext\<close> (framework/data.h and .cc), and the world they
  live in. Application code enters as the type \<open>'d\<close> of application data
  (\<open>IFsmData\<close>) and as records of the virtual methods an application overrides; a virtual
  method that receives the context reads and writes the context's application data.
\<close>

section \<open>Module states\<close>

definition Mod_else :: ModState where "Mod_else = 0"
definition Mod_Succeed :: ModState where "Mod_Succeed = 1"
definition Mod_Failed :: ModState where "Mod_Failed = 2"
definition Mod_Timeout :: ModState where "Mod_Timeout = 3"
definition Mod_async :: ModState where "Mod_async = 4"
definition Mod_start :: ModState where "Mod_start = 5"

definition Mod_Fork0 :: ModState where "Mod_Fork0 = 840"
definition Mod_Fork1 :: ModState where "Mod_Fork1 = 841"
definition Mod_Fork2 :: ModState where "Mod_Fork2 = 842"
definition Mod_Fork3 :: ModState where "Mod_Fork3 = 843"
definition Mod_Fork4 :: ModState where "Mod_Fork4 = 844"
definition Mod_Fork5 :: ModState where "Mod_Fork5 = 845"
definition Mod_Fork6 :: ModState where "Mod_Fork6 = 846"
definition Mod_Fork7 :: ModState where "Mod_Fork7 = 847"
definition Mod_Fork8 :: ModState where "Mod_Fork8 = 848"
definition Mod_Fork9 :: ModState where "Mod_Fork9 = 849"
definition Mod_Fork10 :: ModState where "Mod_Fork10 = 850"
definition Mod_Fork11 :: ModState where "Mod_Fork11 = 851"
definition Mod_Fork12 :: ModState where "Mod_Fork12 = 852"
definition Mod_Fork13 :: ModState where "Mod_Fork13 = 853"
definition Mod_Fork14 :: ModState where "Mod_Fork14 = 854"
definition Mod_Fork15 :: ModState where "Mod_Fork15 = 855"

lemmas mod_state_defs =
  Mod_else_def Mod_Succeed_def Mod_Failed_def Mod_Timeout_def Mod_async_def Mod_start_def Mod_Fork0_def

lemma mod_states_distinct [simp]:
  "Mod_Succeed \<noteq> Mod_async" "Mod_Failed \<noteq> Mod_async" "Mod_Timeout \<noteq> Mod_async"
  "Mod_async \<noteq> Mod_Succeed" "Mod_async \<noteq> Mod_Failed" "Mod_async \<noteq> Mod_Timeout"
  "Mod_Succeed \<noteq> Mod_Failed" "Mod_Failed \<noteq> Mod_Succeed" "Mod_Succeed \<noteq> Mod_else"
  "Mod_Failed \<noteq> Mod_else" "Mod_Timeout \<noteq> Mod_else" "Mod_async \<noteq> Mod_else"
  by (simp_all add: mod_state_defs)

section \<open>Module data\<close>

datatype SocketEventState = Socket_Event_None | Socket_Event_Opened | Socket_Event_Closed

text \<open>\<open>TcpModule::ModuleData\<close>; \<open>td_locked\<close> is whether its mutex is held.\<close>

record tcp_data =
  td_client :: client_ptr
  td_socket_event :: SocketEventState
  td_locked :: bool

text \<open>\<open>JoinModule::ModuleData\<close>; its mutex is only held inside one method body.\<close>

record join_data =
  jd_module_joined_num :: u16
  jd_failed_join :: bool

text \<open>
  The classes derived from \<open>IModuleData\<close>. Timers are named, not stored; \<open>Fork_data\<close>
  keeps the length of its timer array.
\<close>

datatype module_data =
    Request_data
  | Response_data
  | Tcp_data tcp_data
  | Fork_data u16
  | Join_data join_data

text \<open>\<open>dynamic_cast<ModuleData*>\<close>: null for a null pointer or another class.\<close>

fun as_request :: "module_data option \<Rightarrow> unit option" where
  "as_request (Some Request_data) = Some ()"
| "as_request _ = None"

fun as_response :: "module_data option \<Rightarrow> unit option" where
  "as_response (Some Response_data) = Some ()"
| "as_response _ = None"

fun as_tcp :: "module_data option \<Rightarrow> tcp_data option" where
  "as_tcp (Some (Tcp_data d)) = Some d"
| "as_tcp _ = None"

fun as_fork :: "module_data option \<Rightarrow> u16 option" where
  "as_fork (Some (Fork_data n)) = Some n"
| "as_fork _ = None"

fun as_join :: "module_data option \<Rightarrow> join_data option" where
  "as_join (Some (Join_data d)) = Some d"
| "as_join _ = None"

text \<open>The virtual \<open>IModuleData::reset\<close> and \<open>recollectable\<close> with their overrides.\<close>

fun module_data_reset :: "module_data \<Rightarrow> module_data" where
  "module_data_reset (Tcp_data d) =
     Tcp_data (d\<lparr>td_client := None, td_socket_event := Socket_Event_None\<rparr>)"
| "module_data_reset (Join_data d) =
     Join_data (d\<lparr>jd_module_joined_num := 0, jd_failed_join := False\<rparr>)"
| "module_data_reset d = d"

fun module_data_recollectable :: "module_data \<Rightarrow> bool" where
  "module_data_recollectable (Tcp_data d) = (td_socket_event d \<noteq> Socket_Event_Opened)"
| "module_data_recollectable _ = True"

section \<open>Module classes\<close>

text \<open>The virtual methods of \<open>RequestModule\<close> (module/request_module.h).\<close>

record 'd request_hooks =
  rq_get_version_len :: "'d \<Rightarrow> u32"
  rq_get_head_len :: "'d \<Rightarrow> u32"
  rq_get_body_len :: "'d \<Rightarrow> u32"
  rq_get_read_version_time_out_ms :: u32
  rq_get_read_head_and_body_time_out_ms :: u32
  rq_on_read_version_failed :: "'d \<Rightarrow> 'd"
  rq_on_read_head_failed :: "'d \<Rightarrow> 'd"
  rq_on_read_body_failed :: "'d \<Rightarrow> 'd"
  rq_on_read_version_time_out :: "'d \<Rightarrow> 'd"
  rq_on_read_head_and_body_time_out :: "'d \<Rightarrow> 'd"
  rq_on_read_version_impl :: "bytes \<Rightarrow> u32 \<Rightarrow> 'd \<Rightarrow> bool \<times> 'd"
  rq_on_read_head_impl :: "bytes \<Rightarrow> u32 \<Rightarrow> 'd \<Rightarrow> bool \<times> 'd"
  rq_on_read_body_impl :: "bytes \<Rightarrow> u32 \<Rightarrow> 'd \<Rightarrow> bool \<times> 'd"
  rq_get_succeed_state :: "'d \<Rightarrow> ModState"

text \<open>The virtual methods of \<open>ResponseModule\<close>; \<open>get_resp\<close> may return a null array.\<close>

record 'd response_hooks =
  rs_get_resp :: "'d \<Rightarrow> bytes option \<times> 'd"
  rs_on_write_resp_failed :: "'d \<Rightarrow> 'd"
  rs_on_write_resp_time_out :: "'d \<Rightarrow> 'd"
  rs_on_write_resp_succeed :: "'d \<Rightarrow> 'd"
  rs_get_write_resp_time_out_ms :: u32

text \<open>The virtual methods of \<open>TcpModule\<close> (module/tcp_module.h).\<close>

record 'd tcp_hooks =
  tm_get_connect_time_out_ms :: u32
  tm_get_time_out_ms :: u32
  tm_get_resp_head_len :: u32
  tm_on_send_req_failed :: "'d \<Rightarrow> 'd"
  tm_on_read_head_failed :: "'d \<Rightarrow> 'd"
  tm_on_read_body_failed :: "'d \<Rightarrow> 'd"
  tm_on_connect_failed :: "string \<Rightarrow> u16 \<Rightarrow> 'd \<Rightarrow> 'd"
  tm_on_read_head_impl :: "bytes \<Rightarrow> u32 \<Rightarrow> 'd \<Rightarrow> bool \<times> 'd"
  tm_on_read_body_impl :: "bytes \<Rightarrow> u32 \<Rightarrow> 'd \<Rightarrow> bool \<times> 'd"
  tm_on_handle_time_out_impl :: "'d \<Rightarrow> 'd"
  tm_get_client_type_id :: "'d \<Rightarrow> u32"
  tm_get_server_ip_port :: "'d \<Rightarrow> (string \<times> u16) option \<times> 'd"
  tm_get_request :: "'d \<Rightarrow> bytes \<times> 'd"
  tm_get_resp_body_len :: "'d \<Rightarrow> u32"

text \<open>
  The module classes of the framework with the members their constructors set. A
  \<open>TcpModule\<close> names the pool it was constructed with; a fork or join module has its
  \<open>fork_num_\<close> or \<open>join_num_\<close> and the virtual \<open>get_active_fork_num\<close> or
  \<open>get_active_join_num\<close>.
\<close>

datatype 'd module_class =
    SimpleModule "'d \<Rightarrow> ModState \<times> 'd"
  | RequestModule "'d request_hooks"
  | ResponseModule "'d response_hooks"
  | TcpModule nat "'d tcp_hooks"
  | ForkModule u16 "'d \<Rightarrow> u16"
  | JoinModule u16 "'d \<Rightarrow> u16"

text \<open>
  A module object. Modules do not change after construction, so a non-null
  \<open>Module*\<close> is the object together with its address; pointers are equal when the
  addresses are. \<open>Module*\<close> with null is \<open>'d module option\<close>.
\<close>

record 'd module =
  md_addr :: nat
  md_name :: string
  md_class :: "'d module_class"

definition same_module :: "'d module \<Rightarrow> 'd module \<Rightarrow> bool" where
  "same_module m m' \<longleftrightarrow> md_addr m = md_addr m'"

text \<open>
  The virtual \<open>Module::create_data\<close>, class by class. Members that a constructor does not set
  start with whatever the memory holds: \<open>ev\<close>, \<open>num\<close> and \<open>fl\<close>.
\<close>

definition request_create_data :: module_data where
  "request_create_data = Request_data"

definition response_create_data :: module_data where
  "response_create_data = Response_data"

definition tcp_create_data :: "SocketEventState \<Rightarrow> module_data" where
  "tcp_create_data ev = Tcp_data \<lparr> td_client = None, td_socket_event = ev, td_locked = False \<rparr>"

definition fork_create_data :: "u16 \<Rightarrow> module_data" where
  "fork_create_data fork_num = Fork_data fork_num"

definition join_create_data :: "u16 \<Rightarrow> bool \<Rightarrow> module_data" where
  "join_create_data num fl = Join_data \<lparr> jd_module_joined_num = num, jd_failed_join = fl \<rparr>"

lemmas create_data_defs [simp] =
  request_create_data_def response_create_data_def tcp_create_data_def fork_create_data_def join_create_data_def

definition module_create_data ::
  "SocketEventState \<times> u16 \<times> bool \<Rightarrow> 'd module \<Rightarrow> module_data option" where
  "module_create_data g md =
     (case g of (ev, num, fl) \<Rightarrow>
      case md_class md of
        SimpleModule f \<Rightarrow> None
      | RequestModule h \<Rightarrow> Some request_create_data
      | ResponseModule h \<Rightarrow> Some response_create_data
      | TcpModule p h \<Rightarrow> Some (tcp_create_data ev)
      | ForkModule n f \<Rightarrow> Some (fork_create_data n)
      | JoinModule n f \<Rightarrow> Some (join_create_data num fl))"

end
