(* ===== verification/World.thy ===== *)
theory World
  imports Framework
begin

text \<open>
  The state the server process keeps: the state machine \<open>Fsm\<close> (framework/fsm.h), the
  contexts (framework/data.h), the client pools and clients, and the asynchronous operations
  that have been handed to asio and have not completed. The methods of \<open>FsmContext\<close>
  (framework/data.cc) are defined here.
\<close>

section \<open>Pending operations\<close>

text \<open>
  A completion handler as the sources bind it: the method, the module (\<open>this\<close>), the context
  and the further bound arguments.
\<close>

datatype 'd handler =
    On_read_version "'d module" ctx_id u32
  | On_read_head "'d module" ctx_id u32
  | On_read_body "'d module" ctx_id u32
  | On_read_time_out u32 "'d module" ctx_id
  | On_write_resp "'d module" ctx_id
  | On_write_time_out "'d module" ctx_id
  | On_connect "'d module" ctx_id string u16
  | On_handle_connect_time_out "'d module" ctx_id string u16
  | On_write_req "'d module" ctx_id bytes
  | On_recv_resp_head "'d module" ctx_id u32
  | On_recv_resp_body "'d module" ctx_id u32
  | On_handle_time_out "'d module" ctx_id
  | On_forked "'d module" ctx_id ModState
  | On_joined "'d module" ctx_id ModState
  | On_accepted conn_id

datatype 'd async_op =
    Async_wait timer_id u32 "'d handler"
  | Async_read sock_id u32 "'d handler"
  | Async_write sock_id bytes "'d handler"
  | Async_connect sock_id string u16 "'d handler"
  | Async_accept conn_id "'d handler"

fun op_handler :: "'d async_op \<Rightarrow> 'd handler" where
  "op_handler (Async_wait t ms h) = h"
| "op_handler (Async_read s n h) = h"
| "op_handler (Async_write s b h) = h"
| "op_handler (Async_connect s ip port h) = h"
| "op_handler (Async_accept c h) = h"

section \<open>The state machine, contexts and the world\<close>

record 'd fsm =
  fsm_mod_trans_map :: "(string, (ModState, string) smap) smap"
  fsm_mod_map :: "(string, 'd module option) smap"
  fsm_start_mod :: "'d module option"
  fsm_end_mod :: "'d module option"

record 'd fsm_context =
  cx_exit :: bool
  cx_conn :: conn_id
  cx_data :: "'d option"
  cx_module_data_map :: "(string, module_data option) smap"
  cx_uuid :: u32

text \<open>
  \<open>w_fsm_data_factory\<close> is the registered factory, null or the object its
  \<open>create_data\<close> returns, and \<open>w_fsm_data_reset\<close> the virtual \<open>IFsmData::reset\<close> of
  such objects. \<open>w_garbage\<close> is what uninitialised members of a new module data hold, \<open>w_rand\<close> what
  successive calls of \<open>rand_r\<close> return. \<open>w_pending\<close> are the operations started and not completed,
  \<open>w_cancelled\<close> the sockets cancelled so far.
\<close>

record 'd world =
  w_fsm :: "'d fsm"
  w_fsm_data_factory :: "'d option"
  w_fsm_data_reset :: "'d \<Rightarrow> 'd"
  w_contexts :: "ctx_id \<rightharpoonup> 'd fsm_context"
  w_next_ctx :: ctx_id
  w_next_conn :: conn_id
  w_pools :: "nat \<Rightarrow> tcp_client_pool"
  w_clients :: client_heap
  w_next_client :: client_id
  w_pending :: "'d async_op list"
  w_cancelled :: "sock_id list"
  w_garbage :: "ctx_id \<Rightarrow> string \<Rightarrow> SocketEventState \<times> u16 \<times> bool"
  w_rand :: "nat \<Rightarrow> u32"
  w_rand_pos :: nat

section \<open>Access to the world\<close>

definition start_op :: "'d async_op \<Rightarrow> 'd world \<Rightarrow> 'd world" where
  "start_op a w = w\<lparr>w_pending := w_pending w @ [a]\<rparr>"

text \<open>
  \<open>socket::cancel\<close>: asio is asked to complete what is pending on the socket with
  \<open>operation_aborted\<close>. The call is remembered; when the operations complete is up to asio.
\<close>

definition cancel_socket :: "sock_id \<Rightarrow> 'd world \<Rightarrow> 'd world" where
  "cancel_socket s w = w\<lparr>w_cancelled := w_cancelled w @ [s]\<rparr>"

definition get_ctx :: "ctx_id \<Rightarrow> 'd world \<Rightarrow> 'd fsm_context res" where
  "get_ctx c w = deref (w_contexts w c)"

definition put_ctx :: "ctx_id \<Rightarrow> 'd fsm_context \<Rightarrow> 'd world \<Rightarrow> 'd world" where
  "put_ctx c cx w = w\<lparr>w_contexts := (w_contexts w)(c \<mapsto> cx)\<rparr>"

text \<open>
  Calling a virtual method of the application with the context: it needs the application
  data, and may change it.
\<close>

definition app_call :: "ctx_id \<Rightarrow> ('d \<Rightarrow> 'r \<times> 'd) \<Rightarrow> 'd world \<Rightarrow> ('r \<times> 'd world) res" where
  "app_call c f w =
     rbind (get_ctx c w) (\<lambda>cx.
     rbind (deref (cx_data cx)) (\<lambda>d.
       let (r, d') = f d in Inr (r, put_ctx c (cx\<lparr>cx_data := Some d'\<rparr>) w)))"

definition app_get :: "ctx_id \<Rightarrow> ('d \<Rightarrow> 'r) \<Rightarrow> 'd world \<Rightarrow> 'r res" where
  "app_get c f w =
     rbind (get_ctx c w) (\<lambda>cx. rbind (deref (cx_data cx)) (\<lambda>d. Inr (f d)))"

definition app_do :: "ctx_id \<Rightarrow> ('d \<Rightarrow> 'd) \<Rightarrow> 'd world \<Rightarrow> 'd world res" where
  "app_do c f w = rbind (app_call c (\<lambda>d. ((), f d)) w) (\<lambda>(_, w). Inr w)"

text \<open>\<open>context->conn()->socket().cancel()\<close>, without an error argument: it throws when it fails.\<close>

definition cancel_conn :: "asio_env \<Rightarrow> ctx_id \<Rightarrow> 'd world \<Rightarrow> 'd world res" where
  "cancel_conn env c w =
     rbind (get_ctx c w) (\<lambda>cx.
       if ec_set (ev_socket_cancel env (Conn_socket (cx_conn cx))) then Inl Uncaught_exception
       else Inr (cancel_socket (Conn_socket (cx_conn cx)) w))"

lemma cancel_conn_Inr: "cancel_conn env c w = Inr w' \<Longrightarrow> \<exists>so. w' = cancel_socket so w"
  by (auto simp: cancel_conn_def get_ctx_def split: if_splits)

lemma app_do_eq:
  "w_contexts w c = Some cx \<Longrightarrow> cx_data cx = Some d \<Longrightarrow>
     app_do c g w = Inr (put_ctx c (cx\<lparr>cx_data := Some (g d)\<rparr>) w)"
  by (simp add: app_do_def app_call_def get_ctx_def)

section \<open>\<open>FsmContext\<close>\<close>

text \<open>The factory that \<open>init\<close> will ask for application data.\<close>

definition register_fsm_data_factory :: "'d option \<Rightarrow> 'd world \<Rightarrow> 'd world" where
  "register_fsm_data_factory factory w = w\<lparr>w_fsm_data_factory := factory\<rparr>"

text \<open>The constructor: a fresh context on a connection.\<close>

definition context_new :: "conn_id \<Rightarrow> 'd world \<Rightarrow> ctx_id \<times> 'd world" where
  "context_new conn w =
     (let c = w_next_ctx w;
          cx = \<lparr> cx_exit = False, cx_conn = conn, cx_data = None, cx_module_data_map = sm_empty,
                 cx_uuid = 0 \<rparr>
      in (c, (put_ctx c cx w)\<lparr>w_next_ctx := Suc c\<rparr>))"

definition context_is_exit :: "ctx_id \<Rightarrow> 'd world \<Rightarrow> bool res" where
  "context_is_exit c w = rbind (get_ctx c w) (\<lambda>cx. Inr (cx_exit cx))"

definition context_exit :: "ctx_id \<Rightarrow> 'd world \<Rightarrow> 'd world res" where
  "context_exit c w = rbind (get_ctx c w) (\<lambda>cx. Inr (put_ctx c (cx\<lparr>cx_exit := True\<rparr>) w))"

text \<open>\<open>get_module_data\<close> goes through \<open>operator[]\<close>, so a missing entry becomes a null one.\<close>

definition get_module_data ::
  "ctx_id \<Rightarrow> string \<Rightarrow> 'd world \<Rightarrow> (module_data option \<times> 'd world) res" where
  "get_module_data c n w =
     rbind (get_ctx c w) (\<lambda>cx.
       let (p, m) = sm_index (cx_module_data_map cx) n
       in Inr (p, put_ctx c (cx\<lparr>cx_module_data_map := m\<rparr>) w))"

text \<open>Writing through a module data pointer.\<close>

definition put_module_data :: "ctx_id \<Rightarrow> string \<Rightarrow> module_data \<Rightarrow> 'd world \<Rightarrow> 'd world res" where
  "put_module_data c n d w =
     rbind (get_ctx c w) (\<lambda>cx.
       Inr (put_ctx c (cx\<lparr>cx_module_data_map := sm_put n (Some d) (cx_module_data_map cx)\<rparr>) w))"

text \<open>\<open>init\<close>: the application data from the factory, then every module's data.\<close>

fun init_loop ::
  "(string \<Rightarrow> SocketEventState \<times> u16 \<times> bool) \<Rightarrow> (string, 'd module option) smap \<Rightarrow>
   (string, module_data option) smap \<Rightarrow> (string, module_data option) smap res"
where
  "init_loop g [] m = Inr m"
| "init_loop g ((n, p) # mods) m =
     rbind (deref p) (\<lambda>md.
       case module_create_data (g n) md of
         None \<Rightarrow> init_loop g mods m
       | Some d \<Rightarrow> init_loop g mods (sm_put n (Some d) m))"

definition context_init :: "ctx_id \<Rightarrow> 'd world \<Rightarrow> 'd world res" where
  "context_init c w =
     rbind (get_ctx c w) (\<lambda>cx.
     rbind (deref (w_fsm_data_factory w)) (\<lambda>d.
     rbind (init_loop (w_garbage w c) (fsm_mod_map (w_fsm w)) (cx_module_data_map cx)) (\<lambda>m.
       Inr (put_ctx c (cx\<lparr>cx_data := Some d, cx_module_data_map := m\<rparr>) w))))"

fun recollectable_loop :: "(string, module_data option) smap \<Rightarrow> bool res" where
  "recollectable_loop [] = Inr True"
| "recollectable_loop ((n, p) # m) =
     rbind (deref p) (\<lambda>d.
       if \<not> module_data_recollectable d then Inr False else recollectable_loop m)"

definition context_recollectable :: "ctx_id \<Rightarrow> 'd world \<Rightarrow> bool res" where
  "context_recollectable c w =
     rbind (get_ctx c w) (\<lambda>cx. recollectable_loop (cx_module_data_map cx))"

definition my_rand :: "'d world \<Rightarrow> u32 \<times> 'd world" where
  "my_rand w = (w_rand w (w_rand_pos w), w\<lparr>w_rand_pos := Suc (w_rand_pos w)\<rparr>)"

fun reset_loop ::
  "(string, module_data option) smap \<Rightarrow> (string, module_data option) smap res" where
  "reset_loop [] = Inr []"
| "reset_loop ((n, p) # m) =
     rbind (deref p) (\<lambda>d.
     rbind (reset_loop m) (\<lambda>m'. Inr ((n, Some (module_data_reset d)) # m')))"

definition context_reset :: "ctx_id \<Rightarrow> 'd world \<Rightarrow> 'd world res" where
  "context_reset c w =
     rbind (get_ctx c w) (\<lambda>cx.
     rbind (deref (cx_data cx)) (\<lambda>d.
       let (r, w1) = my_rand w in
     rbind (reset_loop (cx_module_data_map cx)) (\<lambda>m.
       Inr (put_ctx c (cx\<lparr>cx_exit := False, cx_data := Some (w_fsm_data_reset w d), cx_uuid := r,
                          cx_module_data_map := m\<rparr>) w1))))"

section \<open>Module data in a world\<close>

text \<open>What \<open>get_module_data\<close> finds: the entry of a module in a context, if there is one.\<close>

definition mdata :: "'d world \<Rightarrow> ctx_id \<Rightarrow> string \<Rightarrow> module_data option option" where
  "mdata w c n = Option.bind (w_contexts w c) (\<lambda>cx. sm_find (cx_module_data_map cx) n)"

lemma mdata_eq: "w_contexts w c = Some cx \<Longrightarrow> mdata w c n = sm_find (cx_module_data_map cx) n"
  by (simp add: mdata_def)

lemma mdata_ctxD: "mdata w c n = Some p \<Longrightarrow> \<exists>cx. w_contexts w c = Some cx"
  by (cases "w_contexts w c") (auto simp: mdata_def)

lemma mdata_start_op [simp]: "mdata (start_op a w) c n = mdata w c n"
  by (simp add: mdata_def start_op_def)

lemma mdata_world [simp]:
  "mdata (w\<lparr>w_pools := ps\<rparr>) = mdata w" "mdata (w\<lparr>w_clients := hp\<rparr>) = mdata w"
  "mdata (w\<lparr>w_next_client := k\<rparr>) = mdata w" "mdata (w\<lparr>w_pending := as\<rparr>) = mdata w"
  "mdata (w\<lparr>w_fsm := f\<rparr>) = mdata w" "mdata (w\<lparr>w_next_conn := cn\<rparr>) = mdata w"
  "mdata (cancel_socket so w) = mdata w"
  by (simp_all add: mdata_def fun_eq_iff cancel_socket_def)

lemma start_op_fields [simp]:
  "w_contexts (start_op a w) = w_contexts w" "w_fsm (start_op a w) = w_fsm w"
  "w_fsm_data_factory (start_op a w) = w_fsm_data_factory w"
  "w_fsm_data_reset (start_op a w) = w_fsm_data_reset w"
  "w_next_ctx (start_op a w) = w_next_ctx w" "w_pools (start_op a w) = w_pools w"
  "w_clients (start_op a w) = w_clients w" "w_next_client (start_op a w) = w_next_client w"
  "w_pending (start_op a w) = w_pending w @ [a]" "w_cancelled (start_op a w) = w_cancelled w"
  by (simp_all add: start_op_def)

lemma put_ctx_fields [simp]:
  "w_contexts (put_ctx c cx w) = (w_contexts w)(c \<mapsto> cx)" "w_fsm (put_ctx c cx w) = w_fsm w"
  "w_fsm_data_factory (put_ctx c cx w) = w_fsm_data_factory w"
  "w_fsm_data_reset (put_ctx c cx w) = w_fsm_data_reset w"
  "w_next_ctx (put_ctx c cx w) = w_next_ctx w" "w_pools (put_ctx c cx w) = w_pools w"
  "w_clients (put_ctx c cx w) = w_clients w" "w_next_client (put_ctx c cx w) = w_next_client w"
  "w_pending (put_ctx c cx w) = w_pending w" "w_cancelled (put_ctx c cx w) = w_cancelled w"
  by (simp_all add: put_ctx_def)

lemma cancel_socket_fields [simp]:
  "w_contexts (cancel_socket so w) = w_contexts w" "w_fsm (cancel_socket so w) = w_fsm w"
  "w_fsm_data_factory (cancel_socket so w) = w_fsm_data_factory w"
  "w_fsm_data_reset (cancel_socket so w) = w_fsm_data_reset w"
  "w_next_ctx (cancel_socket so w) = w_next_ctx w" "w_next_conn (cancel_socket so w) = w_next_conn w"
  "w_pools (cancel_socket so w) = w_pools w" "w_clients (cancel_socket so w) = w_clients w"
  "w_next_client (cancel_socket so w) = w_next_client w" "w_pending (cancel_socket so w) = w_pending w"
  "w_cancelled (cancel_socket so w) = w_cancelled w @ [so]"
  by (simp_all add: cancel_socket_def)

lemma put_ctx_same: "w_contexts w c = Some cx \<Longrightarrow> put_ctx c cx w = w"
  by (simp add: put_ctx_def map_upd_triv)

lemma get_module_data_present:
  assumes "mdata w c n = Some p"
  shows "get_module_data c n w = Inr (p, w)"
proof -
  obtain cx where cx: "w_contexts w c = Some cx" using mdata_ctxD [OF assms] by blast
  with assms have "sm_find (cx_module_data_map cx) n = Some p" by (simp add: mdata_def)
  with cx show ?thesis
    by (simp add: get_module_data_def get_ctx_def put_ctx_same)
qed

lemma get_module_data_absent:
  assumes "w_contexts w c = Some cx" and "mdata w c n = None"
  shows "get_module_data c n w =
    Inr (None, put_ctx c (cx\<lparr>cx_module_data_map := sm_put n None (cx_module_data_map cx)\<rparr>) w)"
  using assms by (simp add: get_module_data_def get_ctx_def mdata_def sm_index_absent)

lemma get_module_data_Inr:
  assumes "get_module_data c n w = Inr (Some p, w')"
  shows "w' = w" "mdata w c n = Some (Some p)"
proof -
  from assms obtain cx where cx: "w_contexts w c = Some cx"
    by (auto simp: get_module_data_def get_ctx_def)
  then show md: "mdata w c n = Some (Some p)"
    using assms get_module_data_absent [OF cx, of n] get_module_data_present [of w c n]
    by (cases "mdata w c n") auto
  then show "w' = w" using assms get_module_data_present [OF md] by simp
qed

text \<open>Writing a module's data changes that entry and nothing else.\<close>

lemma put_module_data_eq:
  assumes "w_contexts w c = Some cx"
  shows "put_module_data c n d w =
    Inr (put_ctx c (cx\<lparr>cx_module_data_map := sm_put n (Some d) (cx_module_data_map cx)\<rparr>) w)"
  using assms by (simp add: put_module_data_def get_ctx_def)

lemma put_module_data_Inr:
  assumes "put_module_data c n d w = Inr w'"
  obtains cx where "w_contexts w c = Some cx"
    "w' = put_ctx c (cx\<lparr>cx_module_data_map := sm_put n (Some d) (cx_module_data_map cx)\<rparr>) w"
    "\<And>c' n'. mdata w' c' n' = (if c' = c \<and> n' = n then Some (Some d) else mdata w c' n')"
proof -
  from assms obtain cx where cx: "w_contexts w c = Some cx"
    by (auto simp: put_module_data_def get_ctx_def)
  show ?thesis
    by (rule that [OF cx])
      (use assms cx put_module_data_eq [OF cx] in \<open>auto simp: mdata_def sm_find_put\<close>)
qed

section \<open>A context that was just made\<close>

text \<open>
  The data a module starts a request with, whatever uninitialised memory held.
\<close>

definition fresh_data :: "'d module \<Rightarrow> module_data option" where
  "fresh_data md =
     (case md_class md of
        SimpleModule f \<Rightarrow> None
      | RequestModule h \<Rightarrow> Some Request_data
      | ResponseModule h \<Rightarrow> Some Response_data
      | TcpModule p h \<Rightarrow>
          Some (Tcp_data \<lparr> td_client = None, td_socket_event = Socket_Event_None, td_locked = False \<rparr>)
      | ForkModule n f \<Rightarrow> Some (Fork_data n)
      | JoinModule n f \<Rightarrow> Some (Join_data \<lparr> jd_module_joined_num = 0, jd_failed_join = False \<rparr>))"

lemma fresh_data_created: "map_option module_data_reset (module_create_data g md) = fresh_data md"
  by (cases g) (auto simp: module_create_data_def fresh_data_def split: module_class.split)

text \<open>A registry without null entries, each module under its name.\<close>

definition registry_ok :: "(string, 'd module option) smap \<Rightarrow> bool" where
  "registry_ok m \<longleftrightarrow> sm_wf m \<and> (\<forall>(n, p) \<in> set m. \<exists>md. p = Some md \<and> md_name md = n)"

lemma init_loop_null: "None \<in> snd ` set mods \<Longrightarrow> init_loop g mods m = Inl Null_deref"
proof (induction g mods m rule: init_loop.induct)
  case (2 g n p mods m)
  then show ?case by (cases p) (auto split: option.split)
qed simp

lemma init_loop_find:
  assumes "registry_ok mods"
  shows "\<exists>m'. init_loop g mods m = Inr m' \<and>
     (\<forall>n. sm_find m' n = (case sm_find mods n of
            Some (Some md) \<Rightarrow> (case module_create_data (g n) md of
                                Some d \<Rightarrow> Some (Some d) | None \<Rightarrow> sm_find m n)
          | _ \<Rightarrow> sm_find m n))"
  using assms
proof (induction g mods m rule: init_loop.induct)
  case (2 g n p mods m)
  from "2.prems" have ok: "registry_ok mods" and nd: "sm_find mods n = None"
    by (auto simp: registry_ok_def sm_wf_def sm_find_def map_of_eq_None_iff)
  from "2.prems" obtain md where p: "p = Some md" by (auto simp: registry_ok_def)
  then have dp: "deref p = Inr md" by simp
  show ?case
  proof (cases "module_create_data (g n) md")
    case None
    from "2.IH"(1) [OF dp None ok] p nd None show ?thesis
      by (fastforce split: option.splits)
  next
    case (Some d)
    from "2.IH"(2) [OF dp Some ok] obtain m' where
      "init_loop g mods (sm_put n (Some d) m) = Inr m'"
      "\<forall>k. sm_find m' k = (case sm_find mods k of
            Some (Some md) \<Rightarrow> (case module_create_data (g k) md of
                                Some d \<Rightarrow> Some (Some d) | None \<Rightarrow> sm_find (sm_put n (Some d) m) k)
          | _ \<Rightarrow> sm_find (sm_put n (Some d) m) k)" by blast
    with p nd Some show ?thesis
      by (auto simp: sm_find_put split: option.splits)
  qed
qed simp

lemma reset_loop_find:
  assumes "\<forall>(n, p) \<in> set m. p \<noteq> None"
  shows "\<exists>m'. reset_loop m = Inr m' \<and>
     (\<forall>n. sm_find m' n = map_option (map_option module_data_reset) (sm_find m n))"
  using assms
proof (induction m rule: reset_loop.induct)
  case (2 n p m)
  then obtain m' d where "reset_loop m = Inr m'" "p = Some d"
    "\<forall>n. sm_find m' n = map_option (map_option module_data_reset) (sm_find m n)" by auto
  then show ?case by auto
qed simp

lemma init_loop_no_null:
  "\<forall>(n, p) \<in> set m. p \<noteq> None \<Longrightarrow> init_loop g mods m = Inr m' \<Longrightarrow> \<forall>(n, p) \<in> set m'. p \<noteq> None"
proof (induction g mods m rule: init_loop.induct)
  case (2 g n p mods m)
  from "2.prems"(2) obtain md where p: "p = Some md" by auto
  show ?case
  proof (cases "module_create_data (g n) md")
    case (Some d)
    have "\<forall>(n, p) \<in> set (sm_put n (Some d) m). p \<noteq> None"
      using "2.prems"(1) set_sm_put [of n "Some d" m] by auto
    with "2.IH"(2) [of md d] "2.prems"(2) p Some show ?thesis by simp
  qed (use "2.IH"(1) [of md] "2.prems" p in simp)
qed simp

text \<open>Where a request starts: a context that was made, initialised and reset.\<close>

definition begins :: "conn_id \<Rightarrow> 'd world \<Rightarrow> 'd fsm_context \<Rightarrow> bool" where
  "begins conn w cx \<longleftrightarrow>
     \<not> cx_exit cx \<and> cx_conn cx = conn \<and>
     cx_data cx = map_option (w_fsm_data_reset w) (w_fsm_data_factory w) \<and>
     cx_uuid cx = w_rand w (w_rand_pos w) \<and>
     (\<forall>n. sm_find (cx_module_data_map cx) n =
        (case sm_find (fsm_mod_map (w_fsm w)) n of
           Some (Some md) \<Rightarrow> map_option Some (fresh_data md) | _ \<Rightarrow> None))"

lemma context_start:
  assumes ok: "registry_ok (fsm_mod_map (w_fsm w))" and fac: "w_fsm_data_factory w \<noteq> None"
    and new: "context_new conn w = (c, w1)"
  shows "\<exists>w2 cx. context_init c w1 = Inr w2 \<and>
     context_reset c w2 =
       Inr (w\<lparr>w_contexts := (w_contexts w)(c \<mapsto> cx), w_next_ctx := Suc (w_next_ctx w),
              w_rand_pos := Suc (w_rand_pos w)\<rparr>) \<and>
     c = w_next_ctx w \<and> begins conn w cx"
proof -
  obtain d where d: "w_fsm_data_factory w = Some d" using fac by blast
  let ?cx0 = "\<lparr> cx_exit = False, cx_conn = conn, cx_data = None, cx_module_data_map = sm_empty,
                cx_uuid = 0 \<rparr> :: 'a fsm_context"
  have w1: "w1 = (put_ctx c ?cx0 w)\<lparr>w_next_ctx := Suc c\<rparr>" and c: "c = w_next_ctx w"
    using new by (auto simp: context_new_def Let_def)
  obtain m where m: "init_loop (w_garbage w c) (fsm_mod_map (w_fsm w)) sm_empty = Inr m"
    "\<And>n. sm_find m n = (case sm_find (fsm_mod_map (w_fsm w)) n of
            Some (Some md) \<Rightarrow> (case module_create_data (w_garbage w c n) md of
                                Some d \<Rightarrow> Some (Some d) | None \<Rightarrow> None)
          | _ \<Rightarrow> None)"
    using init_loop_find [OF ok, of "w_garbage w c" sm_empty] unfolding sm_find_empty by blast
  have "\<forall>(n, p) \<in> set m. p \<noteq> None"
    using init_loop_no_null [OF _ m(1)] by (simp add: sm_empty_def)
  then obtain m' where m': "reset_loop m = Inr m'"
    "\<And>n. sm_find m' n = map_option (map_option module_data_reset) (sm_find m n)"
    using reset_loop_find by blast
  let ?cx1 = "?cx0\<lparr>cx_data := Some d, cx_module_data_map := m\<rparr>"
  let ?cx = "?cx0\<lparr>cx_data := Some (w_fsm_data_reset w d), cx_uuid := w_rand w (w_rand_pos w),
                 cx_module_data_map := m'\<rparr>"
  have "sm_find m' n = (case sm_find (fsm_mod_map (w_fsm w)) n of
      Some (Some md) \<Rightarrow> map_option Some (fresh_data md) | _ \<Rightarrow> None)" for n
    unfolding m' m(2) fresh_data_created [of "w_garbage w c n", symmetric]
    by (auto split: option.split)
  then have "begins conn w ?cx" by (simp add: begins_def d)
  moreover have init: "context_init c w1 = Inr (put_ctx c ?cx1 w1)"
    using m(1) d by (simp add: context_init_def get_ctx_def w1 put_ctx_def)
  moreover have "context_reset c (put_ctx c ?cx1 w1) =
      Inr (w\<lparr>w_contexts := (w_contexts w)(c \<mapsto> ?cx), w_next_ctx := Suc (w_next_ctx w),
             w_rand_pos := Suc (w_rand_pos w)\<rparr>)"
    using m'(1) c by (simp add: context_reset_def get_ctx_def w1 put_ctx_def my_rand_def)
  ultimately show ?thesis using c by blast
qed

text \<open>
  C19: A request starts in a known state: when every registered module is a real object and the
  factory is set, making a context, \<open>init\<close> and \<open>reset\<close> succeed, and the context then
  has fresh application data and, for every module, the data listed in \<open>fresh_data\<close>: no
  client, socket event \<open>None\<close>, join counter 0, no failed join. Nothing depends on what the
  constructors left uninitialised (\<open>w_garbage\<close>), and no other context changes.
\<close>

theorem context_starts_fresh:
  assumes "registry_ok (fsm_mod_map (w_fsm w))" and "w_fsm_data_factory w \<noteq> None"
    and "context_new conn w = (c, w1)"
  shows "\<exists>w2 w3 cx. context_init c w1 = Inr w2 \<and> context_reset c w2 = Inr w3 \<and>
     w_contexts w3 = (w_contexts w)(c \<mapsto> cx) \<and> w_pending w3 = w_pending w \<and> begins conn w cx"
  using context_start [OF assms] by fastforce

end
