(* ===== verification/Fsm.thy ===== *)
theory Fsm
  imports World
begin

text \<open>
  \<open>Fsm\<close> (framework/fsm.h and fsm.cc): the registry of modules, the transition table, and
  the interpreter that runs modules until one of them goes asynchronous. The virtual
  \<open>Module::run\<close> is the argument \<open>mrun\<close> of the interpreter. \<open>_run\<close>,
  \<open>_end_request\<close> and \<open>handle_request\<close> call each other on the C++ stack without bound
  in the code, so the model gives them the number of stack frames that are left and ends in
  \<open>Stack_overflow\<close> when there is none.
\<close>

section \<open>Building the machine\<close>

definition fsm_empty :: "'d fsm" where
  "fsm_empty = \<lparr> fsm_mod_trans_map = sm_empty, fsm_mod_map = sm_empty, fsm_start_mod = None,
                 fsm_end_mod = None \<rparr>"

definition add_module :: "'d module \<Rightarrow> 'd fsm \<Rightarrow> 'd fsm" where
  "add_module md f =
     (case sm_find (fsm_mod_map f) (md_name md) of
        Some _ \<Rightarrow> f
      | None \<Rightarrow> f\<lparr>fsm_mod_map := sm_put (md_name md) (Some md) (fsm_mod_map f)\<rparr>)"

definition set_start_module :: "'d module \<Rightarrow> 'd fsm \<Rightarrow> 'd fsm" where
  "set_start_module md f = f\<lparr>fsm_start_mod := Some md\<rparr>"

definition set_end_module :: "'d module \<Rightarrow> 'd fsm \<Rightarrow> 'd fsm" where
  "set_end_module md f = f\<lparr>fsm_end_mod := Some md\<rparr>"

definition link_module :: "'d module \<Rightarrow> 'd module \<Rightarrow> ModState \<Rightarrow> 'd fsm \<Rightarrow> 'd fsm" where
  "link_module from to state f =
     (case sm_find (fsm_mod_trans_map f) (md_name from) of
        Some tm \<Rightarrow>
          f\<lparr>fsm_mod_trans_map :=
              sm_put (md_name from) (sm_insert state (md_name to) tm) (fsm_mod_trans_map f)\<rparr>
      | None \<Rightarrow>
          f\<lparr>fsm_mod_trans_map :=
              sm_insert (md_name from) (sm_insert state (md_name to) sm_empty) (fsm_mod_trans_map f)\<rparr>)"

section \<open>Running it\<close>

text \<open>
  \<open>_get_next_module\<close>: the link for the state, else the link for \<open>Mod_else\<close>, else null.
  The module is fetched with \<open>mod_map_[...]\<close>, which inserts a null entry for a name that is
  not registered.
\<close>

definition fetch_module :: "string \<Rightarrow> 'd fsm \<Rightarrow> 'd module option \<times> 'd fsm" where
  "fetch_module n f = (let (p, m) = sm_index (fsm_mod_map f) n in (p, f\<lparr>fsm_mod_map := m\<rparr>))"

definition get_next_module :: "'d module \<Rightarrow> ModState \<Rightarrow> 'd fsm \<Rightarrow> 'd module option \<times> 'd fsm" where
  "get_next_module md state f =
     (case sm_find (fsm_mod_trans_map f) (md_name md) of
        None \<Rightarrow> (None, f)
      | Some tm \<Rightarrow>
          (case sm_find tm state of
             Some n \<Rightarrow> fetch_module n f
           | None \<Rightarrow>
               (case sm_find tm Mod_else of
                  Some n \<Rightarrow> fetch_module n f
                | None \<Rightarrow> (None, f))))"

definition next_module :: "'d module \<Rightarrow> ModState \<Rightarrow> 'd world \<Rightarrow> 'd module option \<times> 'd world" where
  "next_module md state w =
     (let (p, f) = get_next_module md state (w_fsm w) in (p, w\<lparr>w_fsm := f\<rparr>))"

text \<open>\<open>mod == end_mod_\<close>; comparing with a member that was never set is an error.\<close>

definition is_end_module :: "'d module \<Rightarrow> 'd world \<Rightarrow> bool res" where
  "is_end_module md w =
     (case fsm_end_mod (w_fsm w) of None \<Rightarrow> Inl Uninitialised | Some e \<Rightarrow> Inr (same_module md e))"

type_synonym 'd module_run = "'d module \<Rightarrow> ctx_id \<Rightarrow> ModState \<Rightarrow> 'd world \<Rightarrow> (ModState \<times> 'd world) res"

fun fsm_run :: "'d module_run \<Rightarrow> nat \<Rightarrow> 'd module \<Rightarrow> ctx_id \<Rightarrow> ModState \<Rightarrow> 'd world \<Rightarrow> 'd world res"
  and end_request :: "'d module_run \<Rightarrow> nat \<Rightarrow> ctx_id \<Rightarrow> 'd world \<Rightarrow> 'd world res"
  and handle_request :: "'d module_run \<Rightarrow> nat \<Rightarrow> ctx_id \<Rightarrow> 'd world \<Rightarrow> 'd world res"
where
  "fsm_run mrun 0 md c last_mod_state w = Inl Stack_overflow"
| "fsm_run mrun (Suc n) md c last_mod_state w =
     rbind (mrun md c last_mod_state w) (\<lambda>(state, w).
       if state \<noteq> Mod_async then
         rbind (is_end_module md w) (\<lambda>at_end.
           if at_end then end_request mrun n c w
           else (let (nxt, w) = next_module md state w in
             case nxt of
               None \<Rightarrow> rbind (context_exit c w) (\<lambda>w. end_request mrun n c w)
             | Some next_mod \<Rightarrow> fsm_run mrun n next_mod c state w))
       else Inr w)"
| "end_request mrun 0 c w = Inl Stack_overflow"
| "end_request mrun (Suc n) c w =
     rbind (context_is_exit c w) (\<lambda>ex.
       if \<not> ex then
         rbind (get_ctx c w) (\<lambda>cx.
           let (c', w) = context_new (cx_conn cx) w in
           rbind (context_init c' w) (\<lambda>w. handle_request mrun n c' w))
       else Inr w)"
| "handle_request mrun 0 c w = Inl Stack_overflow"
| "handle_request mrun (Suc n) c w =
     rbind (context_reset c w) (\<lambda>w.
       case fsm_start_mod (w_fsm w) of
         None \<Rightarrow> Inl Uninitialised
       | Some start \<Rightarrow> fsm_run mrun n start c Mod_start w)"

definition resume ::
  "'d module_run \<Rightarrow> nat \<Rightarrow> 'd module \<Rightarrow> ModState \<Rightarrow> ctx_id \<Rightarrow> 'd world \<Rightarrow> 'd world res" where
  "resume mrun n last_mod state c w =
     rbind (is_end_module last_mod w) (\<lambda>at_end.
       if at_end then end_request mrun n c w
       else (let (nxt, w) = next_module last_mod state w in
         case nxt of
           None \<Rightarrow> rbind (context_exit c w) (\<lambda>w. end_request mrun n c w)
         | Some next_mod \<Rightarrow> fsm_run mrun n next_mod c state w))"

text \<open>A destroyed machine: every registered module is deleted and the registry emptied.\<close>

fun delete_loop :: "(string, 'd module option) smap \<Rightarrow> nat list \<Rightarrow> nat list" where
  "delete_loop [] freed = freed"
| "delete_loop ((n, p) # m) freed =
     delete_loop m (case p of None \<Rightarrow> freed | Some md \<Rightarrow> md_addr md # freed)"

definition fsm_destroy :: "'d fsm \<Rightarrow> 'd fsm \<times> nat list" where
  "fsm_destroy f = (f\<lparr>fsm_mod_map := sm_empty\<rparr>, delete_loop (fsm_mod_map f) [])"

text \<open>\<open>_run\<close> is running the module and, when it did not go asynchronous, resuming after it.\<close>

lemma fsm_run_resume:
  "fsm_run mrun (Suc n) md c s w =
     rbind (mrun md c s w) (\<lambda>(state, w).
       if state \<noteq> Mod_async then resume mrun n md state c w else Inr w)"
  unfolding fsm_run.simps resume_def by (rule refl)

section \<open>The transition table\<close>

text \<open>
  What the table says: the target linked to a module and a state, and the target the
  interpreter takes, which is that one or else the one for \<open>Mod_else\<close>.
\<close>

definition link_of :: "'d fsm \<Rightarrow> string \<Rightarrow> ModState \<Rightarrow> string option" where
  "link_of f n s = Option.bind (sm_find (fsm_mod_trans_map f) n) (\<lambda>tm. sm_find tm s)"

definition route :: "'d fsm \<Rightarrow> string \<Rightarrow> ModState \<Rightarrow> string option" where
  "route f n s = (case link_of f n s of Some t \<Rightarrow> Some t | None \<Rightarrow> link_of f n Mod_else)"

definition module_of :: "'d fsm \<Rightarrow> string \<Rightarrow> 'd module option" where
  "module_of f n = Option.bind (sm_find (fsm_mod_map f) n) id"

lemma link_module_link_of:
  "link_of (link_module a b s f) n t =
     (if n = md_name a \<and> t = s \<and> link_of f n t = None then Some (md_name b) else link_of f n t)"
  by (auto simp: link_of_def link_module_def sm.find_ins sm_find_put sm_find_empty
      split: option.split)

lemma link_module_mods [simp]:
  "fsm_mod_map (link_module a b s f) = fsm_mod_map f"
  "fsm_start_mod (link_module a b s f) = fsm_start_mod f"
  "fsm_end_mod (link_module a b s f) = fsm_end_mod f"
  by (simp_all add: link_module_def split: option.split)

lemma add_module_links [simp]:
  "link_of (add_module md f) = link_of f"
  "fsm_start_mod (add_module md f) = fsm_start_mod f" "fsm_end_mod (add_module md f) = fsm_end_mod f"
  by (auto simp: add_module_def link_of_def fun_eq_iff split: option.split)

lemma set_module_links [simp]:
  "link_of (set_start_module md f) = link_of f" "link_of (set_end_module md f) = link_of f"
  "fsm_mod_map (set_start_module md f) = fsm_mod_map f"
  "fsm_mod_map (set_end_module md f) = fsm_mod_map f"
  by (auto simp: set_start_module_def set_end_module_def link_of_def fun_eq_iff)

lemma link_of_empty [simp]: "link_of fsm_empty n s = None"
  by (simp add: link_of_def fsm_empty_def sm_find_empty)

lemma add_module_map:
  "fsm_mod_map (add_module md f) = sm_insert (md_name md) (Some md) (fsm_mod_map f)"
  by (simp add: add_module_def sm_insert_def split: option.split)

lemma add_module_registry:
  assumes "registry_ok (fsm_mod_map f)"
  shows "registry_ok (fsm_mod_map (add_module md f))"
proof -
  have "(k, v) \<in> set (sm_insert (md_name md) (Some md) (fsm_mod_map f)) \<Longrightarrow>
      (k, v) = (md_name md, Some md) \<or> (k, v) \<in> set (fsm_mod_map f)" for k v
    using set_sm_put [of "md_name md" "Some md" "fsm_mod_map f"]
    unfolding sm_insert_def by (cases "sm_find (fsm_mod_map f) (md_name md)") auto
  with assms show ?thesis
    unfolding registry_ok_def add_module_map by (blast intro: sm.wf_ins)
qed

text \<open>
  The transition table after any sequence of \<open>link_module\<close> calls: for every module and
  state the first link made for them is the one in force, later ones for the same pair are
  ignored, and links that were already there win over the new ones.
\<close>

lemma link_modules_first_wins:
  "link_of (fold (\<lambda>(a, b, s). link_module a b s) ls f) n t =
     (case link_of f n t of
        Some m \<Rightarrow> Some m
      | None \<Rightarrow> map_of (map (\<lambda>(a, b, s). ((md_name a, s), md_name b)) ls) (n, t))"
proof (induction ls arbitrary: f)
  case Nil
  then show ?case by (simp split: option.split)
next
  case (Cons l ls)
  then show ?case by (cases l) (auto simp: link_module_link_of split: option.split)
qed

text \<open>
  Registration keeps the first module of a name, as a real object under its own name, and the
  registry is in strictly ascending order of names.
\<close>

lemma add_modules_find:
  "sm_find (fsm_mod_map (fold add_module mds fsm_empty)) n =
     map_option Some (map_of (map (\<lambda>md. (md_name md, md)) mds) n)"
proof -
  have fold_map: "fsm_mod_map (fold add_module mds f) =
      fold (\<lambda>(k, v). sm_insert k v) (map (\<lambda>md. (md_name md, Some md)) mds) (fsm_mod_map f)" for f :: "'a fsm"
    by (induction mds arbitrary: f) (simp_all add: add_module_map)
  have "map_of (map (\<lambda>md. (md_name md, Some md)) mds) n =
      map_option Some (map_of (map (\<lambda>md. (md_name md, md)) mds) n)"
    by (induction mds) auto
  then show ?thesis
    unfolding fold_map sm.find_fold_ins by (simp add: fsm_empty_def sm_find_empty)
qed

lemma registry_ok_empty: "registry_ok (fsm_mod_map fsm_empty)"
  by (simp add: fsm_empty_def registry_ok_def sm_empty_def sm_wf_def)

lemma add_modules_registry: "registry_ok (fsm_mod_map (fold add_module mds fsm_empty))"
proof -
  have "registry_ok (fsm_mod_map (fold add_module mds f))" if "registry_ok (fsm_mod_map f)" for f :: "'a fsm"
    using that by (induction mds arbitrary: f) (auto simp: add_module_registry)
  then show ?thesis using registry_ok_empty by blast
qed

section \<open>Destroying the machine\<close>

lemma registry_entry:
  assumes "registry_ok m" and "(n, p) \<in> set m"
  obtains md where "p = Some md" "md_name md = n" "sm_find m n = Some (Some md)"
proof -
  from assms obtain md where md: "p = Some md" "md_name md = n" by (fastforce simp: registry_ok_def)
  with assms show ?thesis by (intro that [of md]) (simp_all add: registry_ok_def sm_find_iff)
qed

lemma delete_loop_registry:
  assumes "\<forall>(n, p) \<in> set m. p \<noteq> None"
  shows "delete_loop m freed = rev (map (\<lambda>e. md_addr (the (snd e))) m) @ freed"
  using assms by (induction m freed rule: delete_loop.induct) auto

text \<open>
  Destroying the machine deletes each registered module exactly once and leaves the registry
  empty. For modules that are separate objects, no object is deleted twice, and those deleted are
  the ones that \<open>add_module\<close> accepted: a module whose name was already taken is never deleted.
\<close>

lemma destroy_deletes_once:
  assumes "\<And>md md'. md \<in> set mds \<Longrightarrow> md' \<in> set mds \<Longrightarrow> md_addr md = md_addr md' \<Longrightarrow> md = md'"
  shows "case fsm_destroy (fold add_module mds fsm_empty) of (f, freed) \<Rightarrow>
     fsm_mod_map f = sm_empty \<and> distinct freed \<and>
     set freed = md_addr ` {md. map_of (map (\<lambda>md. (md_name md, md)) mds) (md_name md) = Some md}"
proof -
  define m where "m = fsm_mod_map (fold add_module mds fsm_empty)"
  define first where "first = map_of (map (\<lambda>md. (md_name md, md)) mds)"
  have reg: "registry_ok m" unfolding m_def by (rule add_modules_registry)
  have find: "sm_find m n = map_option Some (first n)" for n
    unfolding m_def first_def by (rule add_modules_find)
  have mem: "md \<in> set mds" if "first n = Some md" for n md
    using map_of_SomeD [OF that [unfolded first_def]] by auto
  have entry: "\<exists>md. p = Some md \<and> md_name md = n \<and> first n = Some md" if "(n, p) \<in> set m" for n p
    by (rule registry_entry [OF reg that]) (auto simp: find)
  have "distinct m" using reg sm_wf_distinct [of m] by (auto simp: registry_ok_def distinct_map)
  moreover have "inj_on (\<lambda>e. md_addr (the (snd e))) (set m)"
  proof (rule inj_onI)
    fix x y assume *: "x \<in> set m" "y \<in> set m" "md_addr (the (snd x)) = md_addr (the (snd y))"
    then obtain md md' where "snd x = Some md" "md_name md = fst x" "first (fst x) = Some md"
      "snd y = Some md'" "md_name md' = fst y" "first (fst y) = Some md'"
      using entry [of "fst x" "snd x"] entry [of "fst y" "snd y"] by auto
    with *(3) assms [of md md'] mem show "x = y" by (metis option.sel prod.expand)
  qed
  moreover have "set m = (\<lambda>md. (md_name md, Some md)) ` {md. first (md_name md) = Some md}"
  proof -
    have "(md_name md, Some md) \<in> set m" if "first (md_name md) = Some md" for md
      using that sm_find_in_set [of m "md_name md" "Some md"] by (simp add: find)
    with entry show ?thesis by fastforce
  qed
  moreover have "delete_loop m [] = rev (map (\<lambda>e. md_addr (the (snd e))) m)"
    using entry by (subst delete_loop_registry) fastforce+
  ultimately show ?thesis
    unfolding fsm_destroy_def first_def [symmetric] m_def [symmetric]
    by (simp add: distinct_map image_image)
qed

section \<open>Following a link\<close>

lemma get_next_module_route:
  "get_next_module md s f =
     (case route f (md_name md) s of None \<Rightarrow> (None, f) | Some t \<Rightarrow> fetch_module t f)"
  by (simp add: get_next_module_def route_def link_of_def split: option.split)

lemma fetch_module_registered [simp]:
  "sm_find (fsm_mod_map f) n = Some p \<Longrightarrow> fetch_module n f = (p, f)"
  by (simp add: fetch_module_def)

lemma fetch_module_unregistered:
  "sm_find (fsm_mod_map f) n = None \<Longrightarrow>
     fetch_module n f = (None, f\<lparr>fsm_mod_map := sm_put n None (fsm_mod_map f)\<rparr>)"
  by (simp add: fetch_module_def sm_index_absent)

section \<open>Machines as they are built and used\<close>

text \<open>
  The calls by which a program builds its machine, in any order, and the history of the machine while
  requests run: every look-up goes through \<open>operator[]\<close>, which may change the registry.
\<close>

datatype 'd fsm_call =
    Add_module "'d module"
  | Link_module "'d module" "'d module" ModState
  | Set_start "'d module"
  | Set_end "'d module"

fun fsm_do :: "'d fsm_call \<Rightarrow> 'd fsm \<Rightarrow> 'd fsm" where
  "fsm_do (Add_module md) = add_module md"
| "fsm_do (Link_module a b s) = link_module a b s"
| "fsm_do (Set_start md) = set_start_module md"
| "fsm_do (Set_end md) = set_end_module md"

definition fsm_built :: "'d fsm_call list \<Rightarrow> 'd fsm" where
  "fsm_built cs = fold fsm_do cs fsm_empty"

definition fsm_used :: "('d module \<times> ModState) list \<Rightarrow> 'd fsm \<Rightarrow> 'd fsm" where
  "fsm_used qs f = fold (\<lambda>(md, s) f. snd (get_next_module md s f)) qs f"

text \<open>What was asked for: the first link made for a name and a state, the first module of a name.\<close>

fun first_link :: "'d fsm_call list \<Rightarrow> string \<Rightarrow> ModState \<Rightarrow> string option" where
  "first_link [] n s = None"
| "first_link (Link_module a b t # cs) n s =
     (if md_name a = n \<and> t = s then Some (md_name b) else first_link cs n s)"
| "first_link (c # cs) n s = first_link cs n s"

fun first_module :: "'d fsm_call list \<Rightarrow> string \<Rightarrow> 'd module option" where
  "first_module [] n = None"
| "first_module (Add_module md # cs) n = (if md_name md = n then Some md else first_module cs n)"
| "first_module (c # cs) n = first_module cs n"

lemma fsm_built_links:
  "link_of (fold fsm_do cs f) n s = (case link_of f n s of Some t \<Rightarrow> Some t | None \<Rightarrow> first_link cs n s)"
proof (induction cs arbitrary: f)
  case (Cons c cs)
  then show ?case by (cases c) (auto simp: link_module_link_of split: option.split)
qed (simp split: option.split)

lemma fsm_built_modules:
  "sm_find (fsm_mod_map (fold fsm_do cs f)) n =
     (case sm_find (fsm_mod_map f) n of Some p \<Rightarrow> Some p | None \<Rightarrow> map_option Some (first_module cs n))"
proof (induction cs arbitrary: f)
  case (Cons c cs)
  then show ?case by (cases c) (auto simp: add_module_map sm.find_ins split: option.split)
qed (simp split: option.split)

text \<open>A look-up may add a null entry, which no later look-up can tell from a missing one.\<close>

lemma get_next_module_fst: "fst (get_next_module md s f) = Option.bind (route f (md_name md) s) (module_of f)"
proof (cases "route f (md_name md) s")
  case (Some t)
  then show ?thesis
    by (cases "sm_find (fsm_mod_map f) t")
      (simp_all add: get_next_module_route fetch_module_unregistered module_of_def)
qed (simp add: get_next_module_route)

lemma get_next_module_keeps:
  "link_of (snd (get_next_module md s f)) = link_of f" "module_of (snd (get_next_module md s f)) = module_of f"
  by (auto simp: get_next_module_route fetch_module_def link_of_def module_of_def sm_index_def sm_find_put fun_eq_iff
      split: option.split)

lemma fsm_used_keeps: "link_of (fsm_used qs f) = link_of f" "module_of (fsm_used qs f) = module_of f"
  unfolding fsm_used_def
  by (induction qs arbitrary: f) (simp_all add: get_next_module_keeps split: prod.split)

lemma fsm_used_same:
  assumes "\<And>n s t. link_of f n s = Some t \<Longrightarrow> sm_find (fsm_mod_map f) t \<noteq> None"
  shows "fsm_used qs f = f"
proof -
  have "snd (get_next_module md s f) = f" for md s
  proof (cases "route f (md_name md) s")
    case (Some t)
    then have "sm_find (fsm_mod_map f) t \<noteq> None" using assms by (auto simp: route_def split: option.splits)
    then obtain p where "sm_find (fsm_mod_map f) t = Some p" by blast
    with Some show ?thesis by (simp add: get_next_module_route)
  qed (simp add: get_next_module_route)
  then show ?thesis unfolding fsm_used_def by (induction qs) (simp_all split: prod.split)
qed

text \<open>
  C17: The interpreter follows the links as the program made them. Take a machine built by any sequence
  of \<open>add_module\<close>, \<open>link_module\<close>, \<open>set_start_module\<close> and \<open>set_end_module\<close> calls and then used for any
  number of look-ups. \<open>_get_next_module\<close> returns the first module registered under the name to which the
  first link for this module and state was made, later registrations and links under the same name or
  for the same pair being ignored; when no link was made for the state, it takes the first one for
  \<open>Mod_else\<close>; it returns null when there is none, or when the target was never registered. The earlier
  look-ups make no difference, although each may insert a null entry in the registry; and when every
  link leads to a name under which a module was registered they leave the machine as it was built.
\<close>

theorem next_module_as_built:
  "fst (get_next_module md s (fsm_used qs (fsm_built cs))) =
     Option.bind (case first_link cs (md_name md) s of Some t \<Rightarrow> Some t | None \<Rightarrow> first_link cs (md_name md) Mod_else)
       (first_module cs) \<and>
   ((\<forall>a b t. Link_module a b t \<in> set cs \<longrightarrow> first_module cs (md_name b) \<noteq> None) \<longrightarrow>
     fsm_used qs (fsm_built cs) = fsm_built cs)"
proof
  have links: "link_of (fsm_built cs) n t = first_link cs n t"
    and mods: "sm_find (fsm_mod_map (fsm_built cs)) n = map_option Some (first_module cs n)" for n t
    unfolding fsm_built_def fsm_built_links fsm_built_modules link_of_empty
    by (simp_all add: fsm_empty_def sm_find_empty)
  then have "module_of (fsm_built cs) n = first_module cs n" for n
    by (cases "first_module cs n") (simp_all add: module_of_def)
  then have "module_of (fsm_used qs (fsm_built cs)) = first_module cs"
    and "route (fsm_used qs (fsm_built cs)) n t =
      (case first_link cs n t of Some m \<Rightarrow> Some m | None \<Rightarrow> first_link cs n Mod_else)" for n t
    by (simp_all add: fsm_used_keeps route_def links fun_eq_iff split: option.split)
  then show "fst (get_next_module md s (fsm_used qs (fsm_built cs))) =
     Option.bind (case first_link cs (md_name md) s of Some t \<Rightarrow> Some t | None \<Rightarrow> first_link cs (md_name md) Mod_else)
       (first_module cs)"
    by (simp add: get_next_module_fst)
  have made: "\<exists>a b. Link_module a b t \<in> set cs \<and> md_name b = m" if "first_link cs n t = Some m" for n t m
    using that by (induction cs n t rule: first_link.induct) (auto split: if_splits)
  show "(\<forall>a b t. Link_module a b t \<in> set cs \<longrightarrow> first_module cs (md_name b) \<noteq> None) \<longrightarrow>
     fsm_used qs (fsm_built cs) = fsm_built cs"
  proof
    assume "\<forall>a b t. Link_module a b t \<in> set cs \<longrightarrow> first_module cs (md_name b) \<noteq> None"
    then have "first_module cs m \<noteq> None" if "first_link cs n t = Some m" for n t m
      using made [OF that] by auto
    then show "fsm_used qs (fsm_built cs) = fsm_built cs" by (intro fsm_used_same) (simp add: links mods)
  qed
qed

text \<open>
  C39: A link to a module that was never registered ruins the server: following it ends the
  request as if there were no link, but leaves a null in the registry, and from then on
  \<open>init\<close> of every later context dereferences that null.
\<close>

theorem unregistered_target_breaks_init:
  assumes "route (w_fsm w) (md_name md) s = Some t"
    and "sm_find (fsm_mod_map (w_fsm w)) t = None"
    and "next_module md s w = (p, w')"
    and "context_new conn w' = (c, w'')" and "w_fsm_data_factory w \<noteq> None"
  shows "p = None \<and> context_init c w'' = Inl Null_deref"
proof -
  let ?m = "fsm_mod_map (w_fsm w)"
  from assms(1-3) have p: "p = None" and w': "w' = w\<lparr>w_fsm := (w_fsm w)\<lparr>fsm_mod_map := sm_put t None ?m\<rparr>\<rparr>"
    by (auto simp: next_module_def get_next_module_route fetch_module_unregistered)
  have "sm_find (sm_put t None ?m) t = Some None" by (simp add: sm_find_put)
  then have "None \<in> snd ` set (sm_put t None ?m)" using sm_find_in_set by force
  then have null: "init_loop g (sm_put t None ?m) m = Inl Null_deref" for g m by (rule init_loop_null)
  obtain d where "w_fsm_data_factory w = Some d" using assms(5) by blast
  with p w' null assms(4) show ?thesis
    by (auto simp: context_new_def context_init_def get_ctx_def Let_def put_ctx_def)
qed

end
