(* ===== verification/Request_Module.thy ===== *)
theory Request_Module
  imports Fsm
begin

text \<open>
  \<open>RequestModule\<close> (module/request_module.h and .cc): reads a request from the client's
  connection in three parts (version, head, body), each an asynchronous read, under a timer
  for the version and a second one for head and body. The arguments \<open>mrun\<close> and \<open>n\<close> of
  the handlers are what \<open>Fsm::resume\<close> needs: the virtual \<open>run\<close> and the stack.
\<close>

section \<open>Time-outs\<close>

text \<open>The default virtual methods; the two flags are \<open>int32_t\<close> and convert to \<open>uint32_t\<close>.\<close>

definition FLAGS_wait_ads_request_time_out :: u32 where
  "FLAGS_wait_ads_request_time_out = 600"

definition FLAGS_read_ads_body_time_out_ms :: u32 where
  "FLAGS_read_ads_body_time_out_ms = 10"

definition get_read_version_time_out_ms :: u32 where
  "get_read_version_time_out_ms = 1000 * FLAGS_wait_ads_request_time_out"

definition get_read_head_and_body_time_out_ms :: u32 where
  "get_read_head_and_body_time_out_ms = FLAGS_read_ads_body_time_out_ms"

section \<open>Methods\<close>

text \<open>The module's own timer, through \<open>dynamic_cast<ModuleData*>(get_module_data(name()))\<close>.\<close>

definition request_timer :: "'d module \<Rightarrow> ctx_id \<Rightarrow> 'd world \<Rightarrow> (timer_id \<times> 'd world) res" where
  "request_timer md c w =
     rbind (get_module_data c (md_name md) w) (\<lambda>(p, w).
     rbind (deref (as_request p)) (\<lambda>_. Inr (Module_timer c (md_name md) 0, w)))"

definition request_run ::
  "'d module \<Rightarrow> 'd request_hooks \<Rightarrow> ctx_id \<Rightarrow> ModState \<Rightarrow> 'd world \<Rightarrow> (ModState \<times> 'd world) res" where
  "request_run md h c last_mod_state w =
     rbind (get_ctx c w) (\<lambda>cx.
     rbind (app_get c (rq_get_version_len h) w) (\<lambda>version_len.
     rbind (request_timer md c w) (\<lambda>(timer, w).
       let ms = rq_get_read_version_time_out_ms h;
           w = start_op (Async_wait timer ms (On_read_time_out 1 md c)) w;
           w = start_op (Async_read (Conn_socket (cx_conn cx)) version_len
                           (On_read_version md c version_len)) w
       in Inr (Mod_async, w))))"

definition request_cancel_timer ::
  "asio_env \<Rightarrow> 'd module \<Rightarrow> ctx_id \<Rightarrow> 'd world \<Rightarrow> (bool \<times> 'd world) res" where
  "request_cancel_timer env md c w =
     rbind (request_timer md c w) (\<lambda>(timer, w).
       if ec_set (ev_timer_cancel env timer) then Inr (False, w) else Inr (True, w))"

text \<open>
  \<open>ec || !on_read_..._impl(...)\<close>: the application is asked only when there was no error.
\<close>

definition read_accepted ::
  "ctx_id \<Rightarrow> error_code \<Rightarrow> ('d \<Rightarrow> bool \<times> 'd) \<Rightarrow> 'd world \<Rightarrow> (bool \<times> 'd world) res" where
  "read_accepted c ec impl w = (if ec_set ec then Inr (False, w) else app_call c impl w)"

text \<open>The failure branch that the three read handlers share.\<close>

definition read_failed ::
  "asio_env \<Rightarrow> 'd module_run \<Rightarrow> nat \<Rightarrow> 'd module \<Rightarrow> ('d \<Rightarrow> 'd) \<Rightarrow> ctx_id \<Rightarrow> error_code \<Rightarrow>
   'd world \<Rightarrow> 'd world res" where
  "read_failed env mrun n md on_failed c ec w =
     (if ec = operation_aborted then
        rbind (context_exit c w) (\<lambda>w. resume mrun n md Mod_Timeout c w)
      else
        rbind (request_cancel_timer env md c w) (\<lambda>(ok, w).
          if \<not> ok then Inr w
          else
            rbind (app_do c on_failed w) (\<lambda>w.
            rbind (context_exit c w) (\<lambda>w. resume mrun n md Mod_Failed c w))))"

definition on_read_version ::
  "asio_env \<Rightarrow> 'd module_run \<Rightarrow> nat \<Rightarrow> 'd module \<Rightarrow> 'd request_hooks \<Rightarrow> ctx_id \<Rightarrow> bytes \<Rightarrow> u32 \<Rightarrow>
   error_code \<Rightarrow> 'd world \<Rightarrow> 'd world res" where
  "on_read_version env mrun n md h c version len ec w =
     rbind (read_accepted c ec (rq_on_read_version_impl h version len) w) (\<lambda>(ok, w).
       if \<not> ok then read_failed env mrun n md (rq_on_read_version_failed h) c ec w
       else
         rbind (request_cancel_timer env md c w) (\<lambda>(cancelled, w).
           if \<not> cancelled then Inr w
           else
             rbind (app_get c (rq_get_head_len h) w) (\<lambda>head_len.
             rbind (get_ctx c w) (\<lambda>cx.
             rbind (request_timer md c w) (\<lambda>(timer, w).
               let ms = rq_get_read_head_and_body_time_out_ms h;
                   w = start_op (Async_wait timer ms (On_read_time_out 2 md c)) w;
                   w = start_op (Async_read (Conn_socket (cx_conn cx)) head_len
                                   (On_read_head md c head_len)) w
               in Inr w)))))"

text \<open>
  \<open>on_read_head\<close> keeps the timer of head and body running and takes whatever
  \<open>get_body_len\<close> returns as the length of the next read.
\<close>

definition on_read_head ::
  "asio_env \<Rightarrow> 'd module_run \<Rightarrow> nat \<Rightarrow> 'd module \<Rightarrow> 'd request_hooks \<Rightarrow> ctx_id \<Rightarrow> bytes \<Rightarrow> u32 \<Rightarrow>
   error_code \<Rightarrow> 'd world \<Rightarrow> 'd world res" where
  "on_read_head env mrun n md h c head len ec w =
     rbind (read_accepted c ec (rq_on_read_head_impl h head len) w) (\<lambda>(ok, w).
       if \<not> ok then read_failed env mrun n md (rq_on_read_head_failed h) c ec w
       else
         rbind (app_get c (rq_get_body_len h) w) (\<lambda>body_len.
         rbind (get_ctx c w) (\<lambda>cx.
           Inr (start_op (Async_read (Conn_socket (cx_conn cx)) body_len
                            (On_read_body md c body_len)) w))))"

definition on_read_body ::
  "asio_env \<Rightarrow> 'd module_run \<Rightarrow> nat \<Rightarrow> 'd module \<Rightarrow> 'd request_hooks \<Rightarrow> ctx_id \<Rightarrow> bytes \<Rightarrow> u32 \<Rightarrow>
   error_code \<Rightarrow> 'd world \<Rightarrow> 'd world res" where
  "on_read_body env mrun n md h c body len ec w =
     rbind (read_accepted c ec (rq_on_read_body_impl h body len) w) (\<lambda>(ok, w).
       if \<not> ok then read_failed env mrun n md (rq_on_read_body_failed h) c ec w
       else
         rbind (request_cancel_timer env md c w) (\<lambda>(cancelled, w).
           if \<not> cancelled then Inr w
           else
             rbind (app_get c (rq_get_succeed_state h) w) (\<lambda>state.
               resume mrun n md state c w)))"

text \<open>
  The timer's handler cancels the connection's pending reads, which then complete with
  \<open>operation_aborted\<close>. \<open>socket::cancel()\<close> without an error argument throws when it fails.
\<close>

definition on_read_time_out ::
  "asio_env \<Rightarrow> 'd request_hooks \<Rightarrow> u32 \<Rightarrow> ctx_id \<Rightarrow> error_code \<Rightarrow> 'd world \<Rightarrow> 'd world res" where
  "on_read_time_out env h flag c ec w =
     (if ec_set ec then Inr w
      else
        rbind (if flag = 1 then app_do c (rq_on_read_version_time_out h) w
               else app_do c (rq_on_read_head_and_body_time_out h) w) (\<lambda>w.
          cancel_conn env c w))"

end
