(* ===== verification/Response_Module.thy ===== *)
theory Response_Module
  imports Fsm
begin

text \<open>
  \<open>ResponseModule\<close> (module/response_module.h and .cc) and \<open>SimpleModule\<close>
  (module/simple_module.cc): writing the response to the client's connection under a timer,
  and the module that only computes.
\<close>

section \<open>\<open>SimpleModule\<close>\<close>

definition simple_run ::
  "('d \<Rightarrow> ModState \<times> 'd) \<Rightarrow> ctx_id \<Rightarrow> ModState \<Rightarrow> 'd world \<Rightarrow> (ModState \<times> 'd world) res" where
  "simple_run run_impl c last_mod_state w = app_call c run_impl w"

section \<open>\<open>ResponseModule\<close>\<close>

text \<open>The default of the virtual \<open>get_write_resp_time_out_ms\<close>.\<close>

definition get_write_resp_time_out_ms :: u32 where
  "get_write_resp_time_out_ms = 30"

definition response_timer :: "'d module \<Rightarrow> ctx_id \<Rightarrow> 'd world \<Rightarrow> (timer_id \<times> 'd world) res" where
  "response_timer md c w =
     rbind (get_module_data c (md_name md) w) (\<lambda>(p, w).
     rbind (deref (as_response p)) (\<lambda>_. Inr (Module_timer c (md_name md) 0, w)))"

definition response_run ::
  "'d module \<Rightarrow> 'd response_hooks \<Rightarrow> ctx_id \<Rightarrow> ModState \<Rightarrow> 'd world \<Rightarrow> (ModState \<times> 'd world) res" where
  "response_run md h c last_mod_state w =
     rbind (get_ctx c w) (\<lambda>cx.
     rbind (app_call c (rs_get_resp h) w) (\<lambda>(resp, w).
       case resp of
         None \<Rightarrow> Inr (Mod_Failed, w)
       | Some buf \<Rightarrow>
           rbind (response_timer md c w) (\<lambda>(timer, w).
             let ms = rs_get_write_resp_time_out_ms h;
                 w = start_op (Async_wait timer ms (On_write_time_out md c)) w;
                 w = start_op (Async_write (Conn_socket (cx_conn cx)) buf (On_write_resp md c)) w
             in Inr (Mod_async, w))))"

definition response_cancel_timer ::
  "asio_env \<Rightarrow> 'd module \<Rightarrow> ctx_id \<Rightarrow> 'd world \<Rightarrow> (bool \<times> 'd world) res" where
  "response_cancel_timer env md c w =
     rbind (response_timer md c w) (\<lambda>(timer, w).
       if ec_set (ev_timer_cancel env timer) then Inr (False, w) else Inr (True, w))"

definition on_write_resp ::
  "asio_env \<Rightarrow> 'd module_run \<Rightarrow> nat \<Rightarrow> 'd module \<Rightarrow> 'd response_hooks \<Rightarrow> ctx_id \<Rightarrow> error_code \<Rightarrow>
   'd world \<Rightarrow> 'd world res" where
  "on_write_resp env mrun n md h c error w =
     (if \<not> ec_set error then
        rbind (response_cancel_timer env md c w) (\<lambda>(ok, w).
          if \<not> ok then Inr w
          else
            rbind (app_do c (rs_on_write_resp_succeed h) w) (\<lambda>w.
              resume mrun n md Mod_Succeed c w))
      else if error = operation_aborted then
        rbind (context_exit c w) (\<lambda>w. resume mrun n md Mod_Timeout c w)
      else
        rbind (response_cancel_timer env md c w) (\<lambda>(ok, w).
          if \<not> ok then Inr w
          else
            rbind (app_do c (rs_on_write_resp_failed h) w) (\<lambda>w.
            rbind (context_exit c w) (\<lambda>w. resume mrun n md Mod_Failed c w))))"

definition on_write_time_out ::
  "asio_env \<Rightarrow> 'd response_hooks \<Rightarrow> ctx_id \<Rightarrow> error_code \<Rightarrow> 'd world \<Rightarrow> 'd world res" where
  "on_write_time_out env h c ec w =
     (if ec_set ec then Inr w
      else
        rbind (app_do c (rs_on_write_resp_time_out h) w) (\<lambda>w.
          cancel_conn env c w))"

end
