(* ===== verification/Fork_Join_Module.thy ===== *)
theory Fork_Join_Module
  imports Fsm
begin

text \<open>
  \<open>ForkModule\<close> and \<open>JoinModule\<close> (module/fork_module.h/.cc, module/join_module.h/.cc):
  a fork resumes the machine once per branch, with the states \<open>Mod_Fork0 + i\<close>; a join
  counts its arrivals and resumes once, when the last one is in.
\<close>

section \<open>\<open>ForkModule\<close>\<close>

text \<open>
  The loop of \<open>run\<close>: branch \<open>i\<close> uses entry \<open>i\<close> of the timer array, which has as many
  entries as the constructor was told.
\<close>

fun fork_loop :: "'d module \<Rightarrow> ctx_id \<Rightarrow> nat list \<Rightarrow> 'd world \<Rightarrow> 'd world res" where
  "fork_loop md c [] w = Inr w"
| "fork_loop md c (i # is) w =
     rbind (get_module_data c (md_name md) w) (\<lambda>(p, w).
     rbind (deref (as_fork p)) (\<lambda>fork_num.
       if i \<ge> unat fork_num then Inl Out_of_bounds
       else
         fork_loop md c is
           (start_op (Async_wait (Module_timer c (md_name md) i) 0
                        (On_forked md c (Mod_Fork0 + word_of_nat i))) w)))"

definition fork_run ::
  "'d module \<Rightarrow> ('d \<Rightarrow> u16) \<Rightarrow> ctx_id \<Rightarrow> ModState \<Rightarrow> 'd world \<Rightarrow> (ModState \<times> 'd world) res" where
  "fork_run md get_active_fork_num c last_mod_state w =
     rbind (app_get c get_active_fork_num w) (\<lambda>k.
     rbind (fork_loop md c [0 ..< unat k] w) (\<lambda>w.
       Inr (Mod_async, w)))"

definition on_forked ::
  "'d module_run \<Rightarrow> nat \<Rightarrow> 'd module \<Rightarrow> ctx_id \<Rightarrow> ModState \<Rightarrow> error_code \<Rightarrow> 'd world \<Rightarrow> 'd world res" where
  "on_forked mrun n md c fork_index ec w = resume mrun n md fork_index c w"

section \<open>\<open>JoinModule\<close>\<close>

definition failed_join :: "join_data \<Rightarrow> join_data" where
  "failed_join d = d\<lparr>jd_failed_join := True\<rparr>"

definition module_joined :: "join_data \<Rightarrow> u16 \<times> join_data" where
  "module_joined d =
     (let k = jd_module_joined_num d + 1 in (k, d\<lparr>jd_module_joined_num := k\<rparr>))"

text \<open>What \<open>run\<close> does to the module's data between \<open>lock\<close> and \<open>unlock\<close>.\<close>

definition join_arrive :: "ModState \<Rightarrow> join_data \<Rightarrow> u16 \<times> join_data" where
  "join_arrive last_mod_state d =
     (let d1 = (if last_mod_state \<noteq> Mod_Succeed then failed_join d else d) in module_joined d1)"

definition join_run ::
  "'d module \<Rightarrow> ('d \<Rightarrow> u16) \<Rightarrow> ctx_id \<Rightarrow> ModState \<Rightarrow> 'd world \<Rightarrow> (ModState \<times> 'd world) res" where
  "join_run md get_active_join_num c last_mod_state w =
     rbind (get_module_data c (md_name md) w) (\<lambda>(p, w).
     rbind (deref (as_join p)) (\<lambda>d.
       let (joined, d') = join_arrive last_mod_state d in
     rbind (put_module_data c (md_name md) (Join_data d') w) (\<lambda>w.
     rbind (app_get c get_active_join_num w) (\<lambda>k.
       if joined = k then
         (let state = (if jd_failed_join d' then Mod_Failed else Mod_Succeed)
          in Inr (Mod_async,
                  start_op (Async_wait (Module_timer c (md_name md) 0) 0 (On_joined md c state)) w))
       else Inr (Mod_async, w)))))"

definition on_joined ::
  "'d module_run \<Rightarrow> nat \<Rightarrow> 'd module \<Rightarrow> ctx_id \<Rightarrow> ModState \<Rightarrow> error_code \<Rightarrow> 'd world \<Rightarrow> 'd world res" where
  "on_joined mrun n md c state ec w = resume mrun n md state c w"

section \<open>What they do\<close>

text \<open>The operation that starts branch \<open>i\<close>.\<close>

definition fork_op :: "'d module \<Rightarrow> ctx_id \<Rightarrow> nat \<Rightarrow> 'd async_op" where
  "fork_op md c i =
     Async_wait (Module_timer c (md_name md) i) 0 (On_forked md c (Mod_Fork0 + word_of_nat i))"

lemma fork_loop_spec:
  assumes "mdata w c (md_name md) = Some (Some (Fork_data k))"
  shows "fork_loop md c is w =
    (if \<forall>i \<in> set is. i < unat k
     then Inr (w\<lparr>w_pending := w_pending w @ map (fork_op md c) is\<rparr>) else Inl Out_of_bounds)"
  using assms
proof (induction "is" arbitrary: w)
  case (Cons i "is")
  note get = get_module_data_present [OF Cons.prems]
  show ?case
  proof (cases "i < unat k")
    case True
    have "fork_loop md c (i # is) w = fork_loop md c is (start_op (fork_op md c i) w)"
      using True by (simp add: get fork_op_def)
    with Cons.IH [of "start_op (fork_op md c i) w"] Cons.prems True show ?thesis
      by (simp add: start_op_def)
  qed (simp add: get)
qed simp

text \<open>The named states are those of the first sixteen branches.\<close>

lemma fork_state_names:
  "[Mod_Fork0, Mod_Fork1, Mod_Fork2, Mod_Fork3, Mod_Fork4, Mod_Fork5, Mod_Fork6, Mod_Fork7,
      Mod_Fork8, Mod_Fork9, Mod_Fork10, Mod_Fork11, Mod_Fork12, Mod_Fork13, Mod_Fork14,
      Mod_Fork15] = map (\<lambda>i. Mod_Fork0 + word_of_nat i) [0 ..< 16]"
  by (simp add: Mod_Fork0_def Mod_Fork1_def Mod_Fork2_def Mod_Fork3_def Mod_Fork4_def Mod_Fork5_def
      Mod_Fork6_def Mod_Fork7_def Mod_Fork8_def Mod_Fork9_def Mod_Fork10_def Mod_Fork11_def
      Mod_Fork12_def Mod_Fork13_def Mod_Fork14_def Mod_Fork15_def upt_rec)

lemma fork_states_distinct:
  assumes "n \<le> 65536"
  shows "distinct (map (\<lambda>i. Mod_Fork0 + word_of_nat i :: ModState) [0 ..< n])"
proof -
  have "i = j" if "i < n" "j < n" "(word_of_nat i :: ModState) = word_of_nat j" for i j
  proof -
    have fits: "unat (word_of_nat m :: ModState) = m" if "m < n" for m
      using that assms by (simp add: unsigned_of_nat take_bit_nat_eq_self)
    from fits [OF that(1)] fits [OF that(2)] that(3) show ?thesis by metis
  qed
  then show ?thesis by (auto simp: distinct_map inj_on_def)
qed

text \<open>
  C34: \<open>ForkModule::run\<close> starts every branch exactly once: with \<open>k\<close> the active fork number of
  the context and at most as many as the module was constructed with, it starts \<open>k\<close> timers that
  fire at once, one per entry of the timer array, bound to the states \<open>Mod_Fork0\<close> to
  \<open>Mod_Fork0 + k - 1\<close>, which are pairwise different, changes nothing else and goes asynchronous
  (with none, nothing is left that would resume the request).
  With a larger number it indexes outside the timer array.
\<close>

theorem fork_run_spec:
  assumes "w_contexts w c = Some cx" and "cx_data cx = Some d"
    and "mdata w c (md_name md) = Some (Some (Fork_data k))"
  shows "fork_run md g c s w =
      (if g d \<le> k
       then Inr (Mod_async, w\<lparr>w_pending := w_pending w @ map (fork_op md c) [0 ..< unat (g d)]\<rparr>)
       else Inl Out_of_bounds) \<and>
    distinct (map (\<lambda>i. Mod_Fork0 + word_of_nat i :: ModState) [0 ..< unat (g d)])"
proof
  have "(\<forall>i \<in> set [0 ..< unat (g d)]. i < unat k) \<longleftrightarrow> g d \<le> k"
  proof (cases "unat (g d)")
    case (Suc m)
    then show ?thesis by (auto simp: word_le_nat_alt)
  qed (simp add: word_le_nat_alt)
  with assms show "fork_run md g c s w =
      (if g d \<le> k
       then Inr (Mod_async, w\<lparr>w_pending := w_pending w @ map (fork_op md c) [0 ..< unat (g d)]\<rparr>)
       else Inl Out_of_bounds)"
    by (simp add: fork_run_def app_get_def get_ctx_def fork_loop_spec)
  show "distinct (map (\<lambda>i. Mod_Fork0 + word_of_nat i :: ModState) [0 ..< unat (g d)])"
    by (rule fork_states_distinct) (use unsigned_less [of "g d", where 'a = nat] in simp)
qed

text \<open>
  C33: \<open>JoinModule::run\<close> for one arrival: it counts the arrival (modulo \<open>2 ^ 16\<close>), records a
  failure when the arriving state is not \<open>Mod_Succeed\<close>, and starts the continuation exactly when
  the new count is the active join number, with \<open>Mod_Failed\<close> if any arrival so far failed and
  \<open>Mod_Succeed\<close> otherwise. It always goes asynchronous, and no other data changes.
\<close>

theorem join_run_spec:
  assumes "w_contexts w c = Some cx" and "cx_data cx = Some a"
    and "mdata w c (md_name md) = Some (Some (Join_data d))"
  shows "\<exists>w'. join_run md g c s w = Inr (Mod_async, w') \<and>
    (let d' = \<lparr> jd_module_joined_num = jd_module_joined_num d + 1,
                jd_failed_join = (jd_failed_join d \<or> s \<noteq> Mod_Succeed) \<rparr> in
     (\<forall>c' n. mdata w' c' n =
        (if c' = c \<and> n = md_name md then Some (Some (Join_data d')) else mdata w c' n)) \<and>
     w_pending w' = w_pending w @
       (if jd_module_joined_num d' = g a
        then [Async_wait (Module_timer c (md_name md) 0) 0
                (On_joined md c (if jd_failed_join d' then Mod_Failed else Mod_Succeed))]
        else []))"
proof -
  define d' where "d' = \<lparr> jd_module_joined_num = jd_module_joined_num d + 1,
              jd_failed_join = (jd_failed_join d \<or> s \<noteq> Mod_Succeed) \<rparr>"
  have arr: "join_arrive s d = (jd_module_joined_num d', d')"
    by (cases d) (simp add: join_arrive_def module_joined_def failed_join_def Let_def d'_def)
  let ?cx = "cx\<lparr>cx_module_data_map := sm_put (md_name md) (Some (Join_data d')) (cx_module_data_map cx)\<rparr>"
  have put: "put_module_data c (md_name md) (Join_data d') w = Inr (put_ctx c ?cx w)"
    by (rule put_module_data_eq [OF assms(1)])
  have md: "mdata (put_ctx c ?cx w) c' n =
      (if c' = c \<and> n = md_name md then Some (Some (Join_data d')) else mdata w c' n)" for c' n
    using assms(1) by (auto simp: mdata_def sm_find_put)
  show ?thesis
    unfolding d'_def [symmetric] Let_def
    using put assms(2) md
    by (simp add: join_run_def get_module_data_present [OF assms(3)] arr app_get_def get_ctx_def)
qed

end
