(* ===== verification/Tcp_Module.thy ===== *)
theory Tcp_Module
  imports Fsm
begin

text \<open>
  \<open>TcpModule\<close> (module/tcp_module.h and .cc): one exchange with a back-end server over a
  connection from the pool or a new one: connect, write the request, read the head and the
  body of the response, each under a timer. Every handler holds the mutex of the module's data
  for its whole body, also while it resumes the machine.
\<close>

section \<open>Time-outs\<close>

definition FLAGS_wait_connect_time_out_ms :: u32 where
  "FLAGS_wait_connect_time_out_ms = 50"

definition FLAGS_wait_reply_time_out_ms :: u32 where
  "FLAGS_wait_reply_time_out_ms = 50"

definition get_connect_time_out_ms :: u32 where
  "get_connect_time_out_ms = FLAGS_wait_connect_time_out_ms"

definition get_time_out_ms :: u32 where
  "get_time_out_ms = FLAGS_wait_reply_time_out_ms"

section \<open>The module's data\<close>

text \<open>\<open>dynamic_cast<ModuleData*>(context->get_module_data(name()).get())\<close>, dereferenced.\<close>

definition tcp_get :: "'d module \<Rightarrow> ctx_id \<Rightarrow> 'd world \<Rightarrow> (tcp_data \<times> 'd world) res" where
  "tcp_get md c w =
     rbind (get_module_data c (md_name md) w) (\<lambda>(p, w).
     rbind (deref (as_tcp p)) (\<lambda>d. Inr (d, w)))"

definition tcp_modify :: "'d module \<Rightarrow> ctx_id \<Rightarrow> (tcp_data \<Rightarrow> tcp_data) \<Rightarrow> 'd world \<Rightarrow> 'd world res" where
  "tcp_modify md c f w =
     rbind (tcp_get md c w) (\<lambda>(d, w). put_module_data c (md_name md) (Tcp_data (f d)) w)"

definition tcp_timer :: "'d module \<Rightarrow> ctx_id \<Rightarrow> 'd world \<Rightarrow> (timer_id \<times> 'd world) res" where
  "tcp_timer md c w =
     rbind (tcp_get md c w) (\<lambda>(_, w). Inr (Module_timer c (md_name md) 0, w))"

text \<open>\<open>data->client_->...\<close>\<close>

definition tcp_the_client :: "'d module \<Rightarrow> ctx_id \<Rightarrow> 'd world \<Rightarrow> (client_id \<times> 'd world) res" where
  "tcp_the_client md c w =
     rbind (tcp_get md c w) (\<lambda>(d, w). rbind (deref (td_client d)) (\<lambda>i. Inr (i, w)))"

text \<open>
  \<open>ModuleData::Lock\<close>: the mutex is taken where the guard is constructed and given back when
  the method returns. A \<open>boost::mutex\<close> is not recursive.
\<close>

definition tcp_lock :: "'d module \<Rightarrow> ctx_id \<Rightarrow> 'd world \<Rightarrow> 'd world res" where
  "tcp_lock md c w =
     rbind (tcp_get md c w) (\<lambda>(d, w).
       if td_locked d then Inl Deadlock
       else tcp_modify md c (\<lambda>d. d\<lparr>td_locked := True\<rparr>) w)"

definition tcp_unlock :: "'d module \<Rightarrow> ctx_id \<Rightarrow> 'd world \<Rightarrow> 'd world res" where
  "tcp_unlock md c w = tcp_modify md c (\<lambda>d. d\<lparr>td_locked := False\<rparr>) w"

definition with_tcp_lock ::
  "'d module \<Rightarrow> ctx_id \<Rightarrow> ('d world \<Rightarrow> ('r \<times> 'd world) res) \<Rightarrow> 'd world \<Rightarrow> ('r \<times> 'd world) res" where
  "with_tcp_lock md c body w =
     rbind (tcp_lock md c w) (\<lambda>w.
     rbind (body w) (\<lambda>(r, w).
     rbind (tcp_unlock md c w) (\<lambda>w. Inr (r, w))))"

text \<open>The handlers return nothing.\<close>

definition in_tcp_lock ::
  "'d module \<Rightarrow> ctx_id \<Rightarrow> ('d world \<Rightarrow> 'd world res) \<Rightarrow> 'd world \<Rightarrow> 'd world res" where
  "in_tcp_lock md c body w =
     rbind (with_tcp_lock md c (\<lambda>w. rbind (body w) (\<lambda>w. Inr ((), w))) w) (\<lambda>(_, w). Inr w)"

section \<open>Starting an exchange\<close>

definition send_request ::
  "'d module \<Rightarrow> 'd tcp_hooks \<Rightarrow> ctx_id \<Rightarrow> 'd world \<Rightarrow> (ModState \<times> 'd world) res" where
  "send_request md h c w =
     rbind (app_call c (tm_get_request h) w) (\<lambda>(req, w).
     rbind (tcp_the_client md c w) (\<lambda>(i, w).
       let w = start_op (Async_write (Client_socket i) req (On_write_req md c req)) w in
     rbind (tcp_modify md c (\<lambda>d. d\<lparr>td_socket_event := Socket_Event_Opened\<rparr>) w) (\<lambda>w.
       Inr (Mod_async, w))))"

text \<open>Arming the reply timer, then sending.\<close>

definition send_with_timer ::
  "'d module \<Rightarrow> 'd tcp_hooks \<Rightarrow> ctx_id \<Rightarrow> 'd world \<Rightarrow> (ModState \<times> 'd world) res" where
  "send_with_timer md h c w =
     rbind (tcp_timer md c w) (\<lambda>(timer, w).
       send_request md h c
         (start_op (Async_wait timer (tm_get_time_out_ms h) (On_handle_time_out md c)) w))"

text \<open>\<open>new TcpClient(...)\<close>, whose socket constructor throws when no socket can be opened.\<close>

definition client_new :: "asio_env \<Rightarrow> int \<Rightarrow> 'd world \<Rightarrow> client_id \<times> 'd world" where
  "client_new env peer w =
     (let i = w_next_client w in
      (i, w\<lparr>w_clients := (w_clients w)(i := tcp_client_new env peer), w_next_client := Suc i\<rparr>))"

text \<open>
  The \<open>try\<close> block of \<open>run\<close>. Both handlers return \<open>Mod_Failed\<close>. The connect timer is
  already running when the client is constructed.
\<close>

definition tcp_connect ::
  "asio_env \<Rightarrow> 'd module \<Rightarrow> 'd tcp_hooks \<Rightarrow> ctx_id \<Rightarrow> int \<Rightarrow> string \<Rightarrow> u16 \<Rightarrow> 'd world \<Rightarrow>
   (ModState \<times> 'd world) res" where
  "tcp_connect env md h c peer ip port w =
     (if \<not> ev_address_parses env ip then Inr (Mod_Failed, w)
      else
        rbind (tcp_timer md c w) (\<lambda>(timer, w).
          let w = start_op (Async_wait timer (tm_get_connect_time_out_ms h)
                              (On_handle_connect_time_out md c ip port)) w in
          if \<not> ev_socket_opens env then Inr (Mod_Failed, w)
          else
            (let (i, w) = client_new env peer w in
             rbind (tcp_modify md c (\<lambda>d. d\<lparr>td_client := Some i\<rparr>) w) (\<lambda>w.
               let w = start_op (Async_connect (Client_socket i) ip port (On_connect md c ip port)) w in
             rbind (tcp_modify md c (\<lambda>d. d\<lparr>td_socket_event := Socket_Event_Opened\<rparr>) w) (\<lambda>w.
               Inr (Mod_async, w))))))"

text \<open>\<open>data->client_ = client_pool_.get_client(client_type_id)\<close>\<close>

definition tcp_take_client ::
  "asio_env \<Rightarrow> 'd module \<Rightarrow> nat \<Rightarrow> ctx_id \<Rightarrow> int \<Rightarrow> 'd world \<Rightarrow> (client_ptr \<times> 'd world) res" where
  "tcp_take_client env md pool c peer w =
     (let (client, p, hp) = get_client env peer (w_pools w pool) (w_clients w);
          w = w\<lparr>w_pools := (w_pools w)(pool := p), w_clients := hp\<rparr>
      in rbind (tcp_modify md c (\<lambda>d. d\<lparr>td_client := client\<rparr>) w) (\<lambda>w. Inr (client, w)))"

definition tcp_run ::
  "asio_env \<Rightarrow> 'd module \<Rightarrow> nat \<Rightarrow> 'd tcp_hooks \<Rightarrow> ctx_id \<Rightarrow> ModState \<Rightarrow> 'd world \<Rightarrow>
   (ModState \<times> 'd world) res" where
  "tcp_run env md pool h c last_mod_state w =
     rbind (app_get c (tm_get_client_type_id h) w) (\<lambda>type_id.
       let client_type_id = sint type_id in
       if -1 = client_type_id then Inr (Mod_Failed, w)
       else
         with_tcp_lock md c (\<lambda>w.
           rbind (tcp_take_client env md pool c client_type_id w) (\<lambda>(client, w).
             case client of
               None \<Rightarrow>
                 rbind (app_call c (tm_get_server_ip_port h) w) (\<lambda>(addr, w).
                   case addr of
                     None \<Rightarrow> Inr (Mod_Failed, w)
                   | Some (ip, port) \<Rightarrow> tcp_connect env md h c client_type_id ip port w)
             | Some _ \<Rightarrow> send_with_timer md h c w)) w)"

section \<open>Completion handlers\<close>

definition cancel_time_out_timer ::
  "asio_env \<Rightarrow> 'd module \<Rightarrow> ctx_id \<Rightarrow> 'd world \<Rightarrow> (bool \<times> 'd world) res" where
  "cancel_time_out_timer env md c w =
     rbind (tcp_timer md c w) (\<lambda>(timer, w).
       if ec_set (ev_timer_cancel env timer) then Inr (False, w) else Inr (True, w))"

text \<open>
  What the socket handlers share: they do nothing unless the socket event is still open, close
  it, and on an error either resume with \<open>Mod_Timeout\<close> (when the operation was aborted, which is
  what the time-out handlers bring about) or cancel the timer, tell the application and resume
  with \<open>Mod_Failed\<close>.
\<close>

definition tcp_event ::
  "'d module \<Rightarrow> ctx_id \<Rightarrow> ('d world \<Rightarrow> 'd world res) \<Rightarrow> 'd world \<Rightarrow> 'd world res" where
  "tcp_event md c body w =
     in_tcp_lock md c (\<lambda>w.
       rbind (tcp_get md c w) (\<lambda>(d, w).
         if td_socket_event d \<noteq> Socket_Event_Opened then Inr w
         else
           rbind (tcp_modify md c (\<lambda>d. d\<lparr>td_socket_event := Socket_Event_Closed\<rparr>) w) body)) w"

definition tcp_failed ::
  "asio_env \<Rightarrow> 'd module_run \<Rightarrow> nat \<Rightarrow> 'd module \<Rightarrow> ('d world \<Rightarrow> 'd world res) \<Rightarrow> ctx_id \<Rightarrow>
   error_code \<Rightarrow> 'd world \<Rightarrow> 'd world res" where
  "tcp_failed env mrun n md on_failed c error w =
     (if error = operation_aborted then resume mrun n md Mod_Timeout c w
      else
        rbind (cancel_time_out_timer env md c w) (\<lambda>(ok, w).
          if \<not> ok then Inr w
          else rbind (on_failed w) (\<lambda>w. resume mrun n md Mod_Failed c w)))"

definition on_connect ::
  "asio_env \<Rightarrow> 'd module_run \<Rightarrow> nat \<Rightarrow> 'd module \<Rightarrow> 'd tcp_hooks \<Rightarrow> ctx_id \<Rightarrow> string \<Rightarrow> u16 \<Rightarrow>
   error_code \<Rightarrow> 'd world \<Rightarrow> 'd world res" where
  "on_connect env mrun n md h c ip port error w =
     tcp_event md c (\<lambda>w.
       if ec_set error then
         tcp_failed env mrun n md (app_do c (tm_on_connect_failed h ip port)) c error w
       else
         rbind (cancel_time_out_timer env md c w) (\<lambda>(ok, w).
           if \<not> ok then Inr w
           else rbind (send_with_timer md h c w) (\<lambda>(_, w). Inr w))) w"

text \<open>
  \<open>data->client_->socket().cancel(err)\<close> in the time-out handlers, when there is a client. The error is
  only logged.
\<close>

definition tcp_cancel_client :: "'d module \<Rightarrow> ctx_id \<Rightarrow> 'd world \<Rightarrow> 'd world res" where
  "tcp_cancel_client md c w =
     rbind (tcp_get md c w) (\<lambda>(d, w).
       Inr (case td_client d of None \<Rightarrow> w | Some i \<Rightarrow> cancel_socket (Client_socket i) w))"

definition on_handle_connect_time_out ::
  "'d module \<Rightarrow> 'd tcp_hooks \<Rightarrow> ctx_id \<Rightarrow> string \<Rightarrow> u16 \<Rightarrow> error_code \<Rightarrow> 'd world \<Rightarrow> 'd world res" where
  "on_handle_connect_time_out md h c ip port ec w =
     in_tcp_lock md c (\<lambda>w.
       if ec_set ec then Inr w
       else rbind (tcp_cancel_client md c w) (\<lambda>w. app_do c (tm_on_connect_failed h ip port) w)) w"

definition on_write_req ::
  "asio_env \<Rightarrow> 'd module_run \<Rightarrow> nat \<Rightarrow> 'd module \<Rightarrow> 'd tcp_hooks \<Rightarrow> ctx_id \<Rightarrow> error_code \<Rightarrow>
   'd world \<Rightarrow> 'd world res" where
  "on_write_req env mrun n md h c error w =
     tcp_event md c (\<lambda>w.
       if ec_set error then tcp_failed env mrun n md (app_do c (tm_on_send_req_failed h)) c error w
       else
         (let head_len = tm_get_resp_head_len h in
          rbind (tcp_the_client md c w) (\<lambda>(i, w).
            tcp_modify md c (\<lambda>d. d\<lparr>td_socket_event := Socket_Event_Opened\<rparr>)
              (start_op (Async_read (Client_socket i) head_len (On_recv_resp_head md c head_len)) w)))) w"

text \<open>\<open>data->client_->close()\<close>\<close>

definition tcp_close_client :: "'d module \<Rightarrow> ctx_id \<Rightarrow> 'd world \<Rightarrow> 'd world res" where
  "tcp_close_client md c w =
     rbind (tcp_the_client md c w) (\<lambda>(i, w).
       Inr (w\<lparr>w_clients := (w_clients w)(i := close (w_clients w i))\<rparr>))"

definition on_recv_resp_head ::
  "asio_env \<Rightarrow> 'd module_run \<Rightarrow> nat \<Rightarrow> 'd module \<Rightarrow> 'd tcp_hooks \<Rightarrow> ctx_id \<Rightarrow> bytes \<Rightarrow> u32 \<Rightarrow>
   error_code \<Rightarrow> 'd world \<Rightarrow> 'd world res" where
  "on_recv_resp_head env mrun n md h c head len error w =
     tcp_event md c (\<lambda>w.
       rbind (if ec_set error then Inr (False, w) else app_call c (tm_on_read_head_impl h head len) w)
         (\<lambda>(ok, w).
         if \<not> ok then
           tcp_failed env mrun n md
             (\<lambda>w. rbind (tcp_close_client md c w) (\<lambda>w. app_do c (tm_on_read_head_failed h) w)) c error w
         else
           rbind (app_get c (tm_get_resp_body_len h) w) (\<lambda>body_len.
           rbind (tcp_the_client md c w) (\<lambda>(i, w).
             tcp_modify md c (\<lambda>d. d\<lparr>td_socket_event := Socket_Event_Opened\<rparr>)
               (start_op (Async_read (Client_socket i) body_len
                            (On_recv_resp_body md c body_len)) w))))) w"

text \<open>\<open>client_pool_.recollect(data->client_); data->client_.reset()\<close>\<close>

definition tcp_give_client ::
  "asio_env \<Rightarrow> 'd module \<Rightarrow> nat \<Rightarrow> ctx_id \<Rightarrow> 'd world \<Rightarrow> 'd world res" where
  "tcp_give_client env md pool c w =
     rbind (tcp_get md c w) (\<lambda>(d, w).
       let (p, hp) = recollect env (td_client d) (w_pools w pool) (w_clients w)
       in tcp_modify md c (\<lambda>d. d\<lparr>td_client := None\<rparr>)
            (w\<lparr>w_pools := (w_pools w)(pool := p), w_clients := hp\<rparr>))"

definition on_recv_resp_body ::
  "asio_env \<Rightarrow> 'd module_run \<Rightarrow> nat \<Rightarrow> 'd module \<Rightarrow> nat \<Rightarrow> 'd tcp_hooks \<Rightarrow> ctx_id \<Rightarrow> bytes \<Rightarrow> u32 \<Rightarrow>
   error_code \<Rightarrow> 'd world \<Rightarrow> 'd world res" where
  "on_recv_resp_body env mrun n md pool h c body len error w =
     tcp_event md c (\<lambda>w.
       if ec_set error then tcp_failed env mrun n md (app_do c (tm_on_read_body_failed h)) c error w
       else
         rbind (cancel_time_out_timer env md c w) (\<lambda>(ok, w).
           if \<not> ok then Inr w
           else
             rbind (tcp_give_client env md pool c w) (\<lambda>w.
             rbind (app_call c (tm_on_read_body_impl h body len) w) (\<lambda>(ret, w).
               resume mrun n md (if ret then Mod_Succeed else Mod_Failed) c w)))) w"

definition on_handle_time_out ::
  "'d module \<Rightarrow> 'd tcp_hooks \<Rightarrow> ctx_id \<Rightarrow> error_code \<Rightarrow> 'd world \<Rightarrow> 'd world res" where
  "on_handle_time_out md h c ec w =
     in_tcp_lock md c (\<lambda>w.
       if ec_set ec then Inr w
       else rbind (tcp_cancel_client md c w) (\<lambda>w. app_do c (tm_on_handle_time_out_impl h) w)) w"

text \<open>Cancelling the client is remembered, and nothing else happens.\<close>

lemma tcp_get_Inr: "tcp_get md c w = Inr (d, w') \<Longrightarrow> w' = w \<and> mdata w c (md_name md) = Some (Some (Tcp_data d))"
proof -
  assume "tcp_get md c w = Inr (d, w')"
  then obtain p where p: "get_module_data c (md_name md) w = Inr (p, w')" "as_tcp p = Some d"
    by (auto simp: tcp_get_def)
  then have "p = Some (Tcp_data d)" by (cases p rule: as_tcp.cases) auto
  with get_module_data_Inr [of c "md_name md" w "Tcp_data d" w'] p(1) show ?thesis by simp
qed

lemma tcp_cancel_client_Inr:
  assumes "tcp_cancel_client md c w = Inr w'"
  shows "w' = w \<or> (\<exists>so. w' = cancel_socket so w)"
  using assms by (auto simp: tcp_cancel_client_def dest!: tcp_get_Inr split: option.splits)

end
