(* ===== verification/Event_Loop.thy ===== *)
theory Event_Loop
  imports Request_Module Response_Module Fork_Join_Module Tcp_Module
begin

text \<open>
  The server as asio drives it: the virtual \<open>Module::run\<close>, the call of a completion handler,
  \<open>TcpServer::start_accept\<close> and \<open>on_accepted\<close> (framework/tcp_server.cc), and the step
  relation of \<open>io_service::run\<close>, in which any pending operation may complete next with any
  error code and any bytes.
\<close>

section \<open>Dispatch\<close>

definition module_run :: "asio_env \<Rightarrow> 'd module_run" where
  "module_run env md c last_mod_state w =
     (case md_class md of
        SimpleModule f \<Rightarrow> simple_run f c last_mod_state w
      | RequestModule h \<Rightarrow> request_run md h c last_mod_state w
      | ResponseModule h \<Rightarrow> response_run md h c last_mod_state w
      | TcpModule pool h \<Rightarrow> tcp_run env md pool h c last_mod_state w
      | ForkModule k f \<Rightarrow> fork_run md f c last_mod_state w
      | JoinModule k f \<Rightarrow> join_run md f c last_mod_state w)"

text \<open>
  A connection (framework/tcp_connection.h) is its socket, \<open>Conn_socket\<close> of its number; every
  connection belongs to the one \<open>io_service\<close> of the process.
\<close>

definition create_connection :: "'d world \<Rightarrow> conn_id \<times> 'd world" where
  "create_connection w = (w_next_conn w, w\<lparr>w_next_conn := Suc (w_next_conn w)\<rparr>)"

declare create_connection_def [simp]

definition start_accept :: "'d world \<Rightarrow> 'd world" where
  "start_accept w =
     (let (conn, w) = create_connection w in start_op (Async_accept conn (On_accepted conn)) w)"

text \<open>The error of the accept is not looked at.\<close>

definition on_accepted ::
  "'d module_run \<Rightarrow> nat \<Rightarrow> conn_id \<Rightarrow> error_code \<Rightarrow> 'd world \<Rightarrow> 'd world res" where
  "on_accepted mrun n conn error w =
     (let (c, w) = context_new conn w in
      rbind (context_init c w) (\<lambda>w.
      rbind (handle_request mrun n c w) (\<lambda>w. Inr (start_accept w))))"

text \<open>
  Calling a handler. \<open>buf\<close> is what a read left in its buffer. The object a method was bound to
  has the method's class; the other cases are calls on a wrong object.
\<close>

fun dispatch ::
  "asio_env \<Rightarrow> nat \<Rightarrow> 'd handler \<Rightarrow> error_code \<Rightarrow> bytes \<Rightarrow> 'd world \<Rightarrow> 'd world res" where
  "dispatch env n (On_read_version md c len) ec buf w =
     (case md_class md of
        RequestModule h \<Rightarrow> on_read_version env (module_run env) n md h c buf len ec w
      | _ \<Rightarrow> Inl Null_deref)"
| "dispatch env n (On_read_head md c len) ec buf w =
     (case md_class md of
        RequestModule h \<Rightarrow> on_read_head env (module_run env) n md h c buf len ec w
      | _ \<Rightarrow> Inl Null_deref)"
| "dispatch env n (On_read_body md c len) ec buf w =
     (case md_class md of
        RequestModule h \<Rightarrow> on_read_body env (module_run env) n md h c buf len ec w
      | _ \<Rightarrow> Inl Null_deref)"
| "dispatch env n (On_read_time_out flag md c) ec buf w =
     (case md_class md of
        RequestModule h \<Rightarrow> on_read_time_out env h flag c ec w
      | _ \<Rightarrow> Inl Null_deref)"
| "dispatch env n (On_write_resp md c) ec buf w =
     (case md_class md of
        ResponseModule h \<Rightarrow> on_write_resp env (module_run env) n md h c ec w
      | _ \<Rightarrow> Inl Null_deref)"
| "dispatch env n (On_write_time_out md c) ec buf w =
     (case md_class md of
        ResponseModule h \<Rightarrow> on_write_time_out env h c ec w
      | _ \<Rightarrow> Inl Null_deref)"
| "dispatch env n (On_connect md c ip port) ec buf w =
     (case md_class md of
        TcpModule pool h \<Rightarrow> on_connect env (module_run env) n md h c ip port ec w
      | _ \<Rightarrow> Inl Null_deref)"
| "dispatch env n (On_handle_connect_time_out md c ip port) ec buf w =
     (case md_class md of
        TcpModule pool h \<Rightarrow> on_handle_connect_time_out md h c ip port ec w
      | _ \<Rightarrow> Inl Null_deref)"
| "dispatch env n (On_write_req md c req) ec buf w =
     (case md_class md of
        TcpModule pool h \<Rightarrow> on_write_req env (module_run env) n md h c ec w
      | _ \<Rightarrow> Inl Null_deref)"
| "dispatch env n (On_recv_resp_head md c len) ec buf w =
     (case md_class md of
        TcpModule pool h \<Rightarrow> on_recv_resp_head env (module_run env) n md h c buf len ec w
      | _ \<Rightarrow> Inl Null_deref)"
| "dispatch env n (On_recv_resp_body md c len) ec buf w =
     (case md_class md of
        TcpModule pool h \<Rightarrow> on_recv_resp_body env (module_run env) n md pool h c buf len ec w
      | _ \<Rightarrow> Inl Null_deref)"
| "dispatch env n (On_handle_time_out md c) ec buf w =
     (case md_class md of
        TcpModule pool h \<Rightarrow> on_handle_time_out md h c ec w
      | _ \<Rightarrow> Inl Null_deref)"
| "dispatch env n (On_forked md c state) ec buf w =
     on_forked (module_run env) n md c state ec w"
| "dispatch env n (On_joined md c state) ec buf w =
     on_joined (module_run env) n md c state ec w"
| "dispatch env n (On_accepted conn) ec buf w =
     on_accepted (module_run env) n conn ec w"

section \<open>The event loop\<close>

text \<open>Completing the pending operation at a position: it is taken off and its handler is called.\<close>

definition remove_op :: "nat \<Rightarrow> 'd world \<Rightarrow> 'd world" where
  "remove_op i w = w\<lparr>w_pending := take i (w_pending w) @ drop (Suc i) (w_pending w)\<rparr>"

definition complete ::
  "asio_env \<Rightarrow> nat \<Rightarrow> nat \<Rightarrow> error_code \<Rightarrow> bytes \<Rightarrow> 'd world \<Rightarrow> 'd world res" where
  "complete env n i ec buf w =
     dispatch env n (op_handler (w_pending w ! i)) ec buf (remove_op i w)"

text \<open>A pool's timer fires: \<open>check_clients\<close> on the pool with the world's clients.\<close>

definition sweep_pool :: "asio_env \<Rightarrow> int list \<Rightarrow> nat \<Rightarrow> 'd world \<Rightarrow> 'd world res" where
  "sweep_pool env ks p w =
     rbind (check_clients env ks (w_pools w p) (w_clients w)) (\<lambda>(p', hp).
       Inr (w\<lparr>w_pools := (w_pools w)(p := p'), w_clients := hp\<rparr>))"

text \<open>
  One turn of the loop, with \<open>n\<close> stack frames for each handler, in an environment \<open>E\<close>
  allows. The keys of a pool are visited in any order that covers them.
\<close>

abbreviation any_env :: "asio_env \<Rightarrow> bool" where
  "any_env \<equiv> \<lambda>env. True"

inductive loop_step :: "(asio_env \<Rightarrow> bool) \<Rightarrow> nat \<Rightarrow> 'd world \<Rightarrow> 'd world \<Rightarrow> bool" for E n where
  step_complete:
    "i < length (w_pending w) \<Longrightarrow> E env \<Longrightarrow> complete env n i ec buf w = Inr w' \<Longrightarrow> loop_step E n w w'"
| step_sweep:
    "iterates ks (w_pools w p) \<Longrightarrow> E env \<Longrightarrow> sweep_pool env ks p w = Inr w' \<Longrightarrow> loop_step E n w w'"

inductive_cases loop_stepE: "loop_step E n w w'"

end
