(* ===== verification/Run_Contract.thy ===== *)
theory Run_Contract
  imports Fsm
begin

text \<open>
  What the interpreter and the modules promise each other. \<open>winv\<close> is the invariant of the
  server's state; the locale \<open>module_runner\<close> says what \<open>Fsm\<close> relies on when it calls the
  virtual \<open>Module::run\<close>, and proves from it that \<open>_run\<close>, \<open>_end_request\<close>,
  \<open>handle_request\<close> and \<open>resume\<close> return, within a stack that the longest path through
  the machine bounds, and keep the invariant.
\<close>

section \<open>Well-formed machines\<close>

definition registered :: "'d fsm \<Rightarrow> 'd module \<Rightarrow> bool" where
  "registered f md \<longleftrightarrow> sm_find (fsm_mod_map f) (md_name md) = Some (Some md)"

text \<open>
  The registry has no nulls, every link leads to a registered module of smaller rank (so there
  is no cycle of links), the end module is set, the start module is a registered
  \<open>RequestModule\<close>, and a fork never asks for more branches than it was constructed with.
\<close>

definition links_ok :: "(string \<Rightarrow> nat) \<Rightarrow> 'd fsm \<Rightarrow> bool" where
  "links_ok rank f \<longleftrightarrow>
     (\<forall>n s t. link_of f n s = Some t \<longrightarrow> sm_find (fsm_mod_map f) t \<noteq> None \<and> rank t < rank n)"

definition start_ok :: "'d fsm \<Rightarrow> bool" where
  "start_ok f \<longleftrightarrow>
     (\<exists>md h. fsm_start_mod f = Some md \<and> registered f md \<and> md_class md = RequestModule h)"

definition forks_ok :: "'d fsm \<Rightarrow> bool" where
  "forks_ok f \<longleftrightarrow>
     (\<forall>md k g. registered f md \<and> md_class md = ForkModule k g \<longrightarrow> (\<forall>d. g d \<le> k))"

definition fsm_wf :: "(string \<Rightarrow> nat) \<Rightarrow> 'd fsm \<Rightarrow> bool" where
  "fsm_wf rank f \<longleftrightarrow>
     registry_ok (fsm_mod_map f) \<and> links_ok rank f \<and> fsm_end_mod f \<noteq> None \<and> start_ok f \<and> forks_ok f"

lemma registered_entry:
  assumes "registry_ok (fsm_mod_map f)" and "sm_find (fsm_mod_map f) n \<noteq> None"
  obtains md where "sm_find (fsm_mod_map f) n = Some (Some md)" "registered f md" "md_name md = n"
proof -
  from assms(2) obtain p where p: "sm_find (fsm_mod_map f) n = Some p" by blast
  with assms(1) obtain md where "p = Some md" "md_name md = n"
    using sm_find_in_set [OF p] by (fastforce simp: registry_ok_def)
  with p show ?thesis by (intro that [of md]) (simp_all add: registered_def)
qed

text \<open>Following a link of a well-formed machine.\<close>

lemma next_module_wf:
  assumes "fsm_wf rank (w_fsm w)"
  shows "next_module md s w = (None, w) \<or>
    (\<exists>md'. next_module md s w = (Some md', w) \<and> registered (w_fsm w) md' \<and>
           rank (md_name md') < rank (md_name md))"
proof (cases "route (w_fsm w) (md_name md) s")
  case None
  then show ?thesis by (simp add: next_module_def get_next_module_route)
next
  case (Some t)
  then obtain s' where "link_of (w_fsm w) (md_name md) s' = Some t"
    by (auto simp: route_def split: option.splits)
  with assms have t: "sm_find (fsm_mod_map (w_fsm w)) t \<noteq> None" "rank t < rank (md_name md)"
    by (auto simp: fsm_wf_def links_ok_def)
  from assms have "registry_ok (fsm_mod_map (w_fsm w))" by (simp add: fsm_wf_def)
  then obtain md' where "sm_find (fsm_mod_map (w_fsm w)) t = Some (Some md')"
    "registered (w_fsm w) md'" "md_name md' = t"
    using registered_entry [OF _ t(1)] by blast
  with t(2) Some show ?thesis
    by (simp add: next_module_def get_next_module_route)
qed

section \<open>The invariant of the server's state\<close>

type_synonym lockset = "(ctx_id \<times> string) set"

text \<open>A module finds data of its own class in every context.\<close>

definition data_ok :: "'d module \<Rightarrow> module_data option option \<Rightarrow> bool" where
  "data_ok md p =
     (case md_class md of
        SimpleModule f \<Rightarrow> True
      | RequestModule h \<Rightarrow> p = Some (Some Request_data)
      | ResponseModule h \<Rightarrow> p = Some (Some Response_data)
      | TcpModule i h \<Rightarrow> (\<exists>d. p = Some (Some (Tcp_data d)))
      | ForkModule k f \<Rightarrow> p = Some (Some (Fork_data k))
      | JoinModule k f \<Rightarrow> (\<exists>d. p = Some (Some (Join_data d))))"

text \<open>The mutexes of the module data that are held are exactly those of \<open>L\<close>.\<close>

definition locks_ok :: "lockset \<Rightarrow> ctx_id \<Rightarrow> (string, module_data option) smap \<Rightarrow> bool" where
  "locks_ok L c m \<longleftrightarrow>
     (\<forall>n d. sm_find m n = Some (Some (Tcp_data d)) \<longrightarrow> td_locked d = ((c, n) \<in> L))"

definition ctx_ok :: "'d fsm \<Rightarrow> lockset \<Rightarrow> ctx_id \<Rightarrow> 'd fsm_context \<Rightarrow> bool" where
  "ctx_ok f L c cx \<longleftrightarrow>
     cx_data cx \<noteq> None \<and>
     (\<forall>md. registered f md \<longrightarrow> data_ok md (sm_find (cx_module_data_map cx) (md_name md))) \<and>
     locks_ok L c (cx_module_data_map cx)"

text \<open>A pending handler belongs to a registered module of its class and to a live context.\<close>

definition bound_to :: "('d module_class \<Rightarrow> bool) \<Rightarrow> 'd fsm \<Rightarrow> ctx_id set \<Rightarrow> 'd module \<Rightarrow> ctx_id \<Rightarrow> bool" where
  "bound_to P f C md c \<longleftrightarrow> registered f md \<and> c \<in> C \<and> P (md_class md)"

fun is_request :: "'d module_class \<Rightarrow> bool" where
  "is_request (RequestModule h) = True" | "is_request _ = False"

fun is_response :: "'d module_class \<Rightarrow> bool" where
  "is_response (ResponseModule h) = True" | "is_response _ = False"

fun is_tcp :: "'d module_class \<Rightarrow> bool" where
  "is_tcp (TcpModule p h) = True" | "is_tcp _ = False"

fun is_fork :: "'d module_class \<Rightarrow> bool" where
  "is_fork (ForkModule k g) = True" | "is_fork _ = False"

fun is_join :: "'d module_class \<Rightarrow> bool" where
  "is_join (JoinModule k g) = True" | "is_join _ = False"

fun handler_ok :: "'d fsm \<Rightarrow> ctx_id set \<Rightarrow> 'd handler \<Rightarrow> bool" where
  "handler_ok f C (On_read_version md c len) = bound_to is_request f C md c"
| "handler_ok f C (On_read_head md c len) = bound_to is_request f C md c"
| "handler_ok f C (On_read_body md c len) = bound_to is_request f C md c"
| "handler_ok f C (On_read_time_out flag md c) = bound_to is_request f C md c"
| "handler_ok f C (On_write_resp md c) = bound_to is_response f C md c"
| "handler_ok f C (On_write_time_out md c) = bound_to is_response f C md c"
| "handler_ok f C (On_connect md c ip port) = bound_to is_tcp f C md c"
| "handler_ok f C (On_handle_connect_time_out md c ip port) = bound_to is_tcp f C md c"
| "handler_ok f C (On_write_req md c req) = bound_to is_tcp f C md c"
| "handler_ok f C (On_recv_resp_head md c len) = bound_to is_tcp f C md c"
| "handler_ok f C (On_recv_resp_body md c len) = bound_to is_tcp f C md c"
| "handler_ok f C (On_handle_time_out md c) = bound_to is_tcp f C md c"
| "handler_ok f C (On_forked md c s) = bound_to is_fork f C md c"
| "handler_ok f C (On_joined md c s) = bound_to is_join f C md c"
| "handler_ok f C (On_accepted conn) = True"

lemma handler_ok_mono: "handler_ok f C h \<Longrightarrow> C \<subseteq> D \<Longrightarrow> handler_ok f D h"
  by (cases h) (auto simp: bound_to_def)

definition winv :: "(string \<Rightarrow> nat) \<Rightarrow> lockset \<Rightarrow> 'd world \<Rightarrow> bool" where
  "winv rank L w \<longleftrightarrow>
     fsm_wf rank (w_fsm w) \<and> w_fsm_data_factory w \<noteq> None \<and>
     (\<forall>c cx. w_contexts w c = Some cx \<longrightarrow> ctx_ok (w_fsm w) L c cx \<and> c < w_next_ctx w) \<and>
     (\<forall>a \<in> set (w_pending w). handler_ok (w_fsm w) (dom (w_contexts w)) (op_handler a)) \<and>
     (\<forall>p k. None \<notin> set (pool_deque (w_pools w p) k)) \<and> fst ` L \<subseteq> dom (w_contexts w)"

text \<open>The invariant at a point where code runs for context \<open>c\<close>.\<close>

definition running :: "(string \<Rightarrow> nat) \<Rightarrow> lockset \<Rightarrow> ctx_id \<Rightarrow> 'd world \<Rightarrow> bool" where
  "running rank L c w \<longleftrightarrow> winv rank L w \<and> c \<in> dom (w_contexts w)"

lemma runningE:
  assumes "running rank L c w"
  obtains cx d where "w_contexts w c = Some cx" "cx_data cx = Some d" "ctx_ok (w_fsm w) L c cx"
    "winv rank L w"
proof -
  from assms obtain cx where cx: "w_contexts w c = Some cx" and inv: "winv rank L w"
    by (auto simp: running_def)
  then have ok: "ctx_ok (w_fsm w) L c cx" by (simp add: winv_def)
  then obtain d where "cx_data cx = Some d" by (auto simp: ctx_ok_def)
  from that [OF cx this ok inv] show thesis .
qed

lemma running_wf: "running rank L c w \<Longrightarrow> fsm_wf rank (w_fsm w)"
  by (simp add: running_def winv_def)

lemma running_data:
  "running rank L c w \<Longrightarrow> registered (w_fsm w) md \<Longrightarrow> data_ok md (mdata w c (md_name md))"
  by (auto simp: running_def winv_def ctx_ok_def mdata_def dom_def)

lemma running_locked:
  "running rank L c w \<Longrightarrow> mdata w c n = Some (Some (Tcp_data d)) \<Longrightarrow> td_locked d = ((c, n) \<in> L)"
  by (auto simp: running_def winv_def ctx_ok_def locks_ok_def mdata_def dom_def)

section \<open>What keeps the invariant\<close>

lemma winv_put_ctx:
  assumes "winv rank L w" and "w_contexts w c = Some cx0" and "ctx_ok (w_fsm w) L c cx"
  shows "winv rank L (put_ctx c cx w)"
  using assms by (auto simp: winv_def insert_absorb domI)

lemma running_put_ctx:
  "running rank L c w \<Longrightarrow> ctx_ok (w_fsm w) L c cx \<Longrightarrow> running rank L c (put_ctx c cx w)"
  by (auto simp: running_def intro: winv_put_ctx)

lemma running_start_op:
  "running rank L c w \<Longrightarrow> handler_ok (w_fsm w) (dom (w_contexts w)) (op_handler a) \<Longrightarrow>
     running rank L c (start_op a w)"
  by (simp add: running_def winv_def)

text \<open>The machine and the application never change, and contexts are only added.\<close>

abbreviation same_app :: "'d world \<Rightarrow> 'd world \<Rightarrow> bool" where
  "same_app w w' \<equiv> w_fsm w' = w_fsm w \<and> w_fsm_data_factory w' = w_fsm_data_factory w \<and>
     w_fsm_data_reset w' = w_fsm_data_reset w"

definition grows :: "'d world \<Rightarrow> 'd world \<Rightarrow> bool" where
  "grows w w' \<longleftrightarrow> same_app w w' \<and> dom (w_contexts w) \<subseteq> dom (w_contexts w')"

lemma grows_refl [simp]: "grows w w"
  by (simp add: grows_def)

lemma grows_trans: "grows u v \<Longrightarrow> grows v w \<Longrightarrow> grows u w"
  by (auto simp: grows_def)

lemma grows_put_ctx [simp]: "grows w (put_ctx c cx w)"
  by (auto simp: grows_def)

lemma grows_start_op [simp]:
  "grows w (start_op a w') = grows w w'" "grows (start_op a w) w' = grows w w'"
  by (simp_all add: grows_def)

lemma cancel_socket_running [simp]:
  "running rank L c (cancel_socket so w) = running rank L c w" "grows w (cancel_socket so w') = grows w w'"
  by (simp_all add: running_def winv_def grows_def)

lemma grows_fsm: "grows w w' \<Longrightarrow> w_fsm w' = w_fsm w"
  by (simp add: grows_def)

lemma app_call_running:
  assumes "running rank L c w"
  shows "returns (app_call c g w)
    (\<lambda>(r, w'). running rank L c w' \<and> mdata w' = mdata w \<and> grows w w')"
proof -
  from assms obtain cx d where cx: "w_contexts w c = Some cx" "cx_data cx = Some d"
    "ctx_ok (w_fsm w) L c cx" by (rule runningE)
  then have "ctx_ok (w_fsm w) L c (cx\<lparr>cx_data := Some d'\<rparr>)" for d' by (simp add: ctx_ok_def)
  with cx assms show ?thesis
    by (auto simp: app_call_def get_ctx_def fun_eq_iff mdata_def intro: running_put_ctx split: prod.split)
qed

lemma app_do_running:
  assumes "running rank L c w"
  shows "returns (app_do c g w) (\<lambda>w'. running rank L c w' \<and> mdata w' = mdata w \<and> grows w w')"
  unfolding app_do_def
  by (rule returns_bind [OF app_call_running [OF assms]]) auto

lemma app_get_running: "running rank L c w \<Longrightarrow> returns (app_get c g w) (\<lambda>r. \<exists>d. r = g d)"
  by (erule runningE) (auto simp: app_get_def get_ctx_def)

lemma get_ctx_running: "running rank L c w \<Longrightarrow> returns (get_ctx c w) (\<lambda>cx. w_contexts w c = Some cx)"
  by (erule runningE) (simp add: get_ctx_def)

lemma context_exit_running:
  assumes "running rank L c w"
  shows "returns (context_exit c w) (\<lambda>w'. running rank L c w' \<and> mdata w' = mdata w \<and> grows w w')"
proof -
  from assms obtain cx d where cx: "w_contexts w c = Some cx" "ctx_ok (w_fsm w) L c cx"
    by (rule runningE)
  then have "ctx_ok (w_fsm w) L c (cx\<lparr>cx_exit := True\<rparr>)" by (simp add: ctx_ok_def)
  with cx assms show ?thesis
    by (auto simp: context_exit_def get_ctx_def fun_eq_iff mdata_def intro: running_put_ctx)
qed

text \<open>Replacing a module's data by data of the same class; locking and unlocking.\<close>

lemma put_module_data_running:
  assumes run: "running rank L c w"
    and same: "\<And>md. registered (w_fsm w) md \<Longrightarrow> md_name md = n \<Longrightarrow> data_ok md (Some (Some d))"
    and lock: "\<And>t. d = Tcp_data t \<Longrightarrow> td_locked t = ((c, n) \<in> L')"
    and L': "L' - {(c, n)} = L - {(c, n)}"
  shows "returns (put_module_data c n d w)
    (\<lambda>w'. running rank L' c w' \<and> grows w w' \<and>
          (\<forall>c' n'. mdata w' c' n' = (if c' = c \<and> n' = n then Some (Some d) else mdata w c' n')))"
proof -
  from run obtain cx where cx: "w_contexts w c = Some cx" "ctx_ok (w_fsm w) L c cx" "winv rank L w"
    by (rule runningE)
  let ?cx = "cx\<lparr>cx_module_data_map := sm_put n (Some d) (cx_module_data_map cx)\<rparr>"
  have other: "(c', n') \<in> L' \<longleftrightarrow> (c', n') \<in> L" if "c' \<noteq> c \<or> n' \<noteq> n" for c' n'
    using L' that by auto
  have "ctx_ok (w_fsm w) L' c ?cx"
    using cx(2) same lock other by (auto simp: ctx_ok_def locks_ok_def sm_find_put)
  moreover have "ctx_ok (w_fsm w) L' c' cx'" if "w_contexts w c' = Some cx'" "c' \<noteq> c" for c' cx'
    using cx(3) that other by (auto simp: winv_def ctx_ok_def locks_ok_def)
  moreover have "fst ` L' \<subseteq> dom (w_contexts w)"
  proof
    fix c' assume "c' \<in> fst ` L'"
    then obtain n' where n': "(c', n') \<in> L'" by auto
    show "c' \<in> dom (w_contexts w)"
    proof (cases "c' = c")
      case False
      with n' other have "(c', n') \<in> L" by blast
      then have "c' \<in> fst ` L" by force
      with cx(3) show ?thesis by (auto simp: winv_def)
    qed (use cx(1) in auto)
  qed
  ultimately have "winv rank L' (put_ctx c ?cx w)"
    using cx(1,3) by (auto simp: winv_def insert_absorb domI)
  then show ?thesis
    using cx(1) by (auto simp: put_module_data_eq running_def mdata_def sm_find_put)
qed

section \<open>Starting a request\<close>

lemma begins_ctx_ok:
  assumes "begins conn w cx" and "w_fsm_data_factory w \<noteq> None" and "\<And>n. (c, n) \<notin> L"
  shows "ctx_ok (w_fsm w) L c cx"
proof -
  have "data_ok md (sm_find (cx_module_data_map cx) (md_name md))" if "registered (w_fsm w) md" for md
    using assms(1) that
    by (simp add: begins_def registered_def data_ok_def fresh_data_def split: module_class.split)
  moreover have "locks_ok L c (cx_module_data_map cx)"
    using assms(1,3)
    by (auto simp: begins_def locks_ok_def fresh_data_def split: option.splits module_class.splits)
  ultimately show ?thesis
    using assms(1,2) by (auto simp: ctx_ok_def begins_def)
qed

lemma new_context_running:
  assumes inv: "winv rank L w" and new: "context_new conn w = (c, w1)"
  shows "\<exists>w2 w3. context_init c w1 = Inr w2 \<and> context_reset c w2 = Inr w3 \<and>
    running rank L c w3 \<and> grows w w3 \<and> (\<forall>n. (c, n) \<notin> L)"
proof -
  from inv have reg: "registry_ok (fsm_mod_map (w_fsm w))" and fac: "w_fsm_data_factory w \<noteq> None"
    and old: "\<And>c cx. w_contexts w c = Some cx \<Longrightarrow> ctx_ok (w_fsm w) L c cx \<and> c < w_next_ctx w"
    and L: "fst ` L \<subseteq> dom (w_contexts w)"
    by (simp_all add: winv_def fsm_wf_def)
  obtain w2 cx where w2: "context_init c w1 = Inr w2"
    "context_reset c w2 =
       Inr (w\<lparr>w_contexts := (w_contexts w)(c \<mapsto> cx), w_next_ctx := Suc (w_next_ctx w),
              w_rand_pos := Suc (w_rand_pos w)\<rparr>)"
    "c = w_next_ctx w" "begins conn w cx"
    using context_start [OF reg fac new] by blast
  have free: "(c, n) \<notin> L" for n
    using L old w2(3) by (force simp: dom_def)
  let ?w = "w\<lparr>w_contexts := (w_contexts w)(c \<mapsto> cx), w_next_ctx := Suc (w_next_ctx w),
              w_rand_pos := Suc (w_rand_pos w)\<rparr>"
  have "ctx_ok (w_fsm w) L c cx" by (rule begins_ctx_ok [OF w2(4) fac free])
  moreover have "handler_ok (w_fsm w) (insert c (dom (w_contexts w))) (op_handler a)"
    if "a \<in> set (w_pending w)" for a
    using inv that by (auto simp: winv_def intro: handler_ok_mono)
  ultimately have "winv rank L ?w"
    using inv L w2(3) old by (auto simp: winv_def less_Suc_eq)
  then show ?thesis
    using w2 free by (auto simp: running_def grows_def)
qed

section \<open>The contract of \<open>Module::run\<close>\<close>

declare fsm_run.simps [simp del] end_request.simps [simp del] handle_request.simps [simp del]

text \<open>
  A module that runs for a context, while no caller holds the mutex of its data there, returns
  and keeps the invariant; a \<open>RequestModule\<close> always goes asynchronous.
\<close>

locale module_runner =
  fixes mrun :: "'d module_run" and rank :: "string \<Rightarrow> nat"
  assumes mrun_returns:
    "running rank L c w \<Longrightarrow> registered (w_fsm w) md \<Longrightarrow> (c, md_name md) \<notin> L \<Longrightarrow>
       returns (mrun md c s w)
         (\<lambda>(state, w'). running rank L c w' \<and> grows w w' \<and>
            (is_request (md_class md) \<longrightarrow> state = Mod_async))"
begin

lemma start_returns:
  assumes "running rank L c w" "registered (w_fsm w) md" "is_request (md_class md)"
    "(c, md_name md) \<notin> L" "1 \<le> n"
  shows "returns (fsm_run mrun n md c s w) (\<lambda>w'. running rank L c w' \<and> grows w w')"
proof -
  obtain k where n: "n = Suc k" using assms(5) by (cases n) auto
  show ?thesis
    unfolding n fsm_run.simps
    by (rule returns_bind [OF mrun_returns [OF assms(1,2,4)]]) (use assms(3) in auto)
qed

lemma new_request_returns:
  assumes "winv rank L w" and "context_new conn w = (c, w1)" and "2 \<le> n"
  shows "returns (rbind (context_init c w1) (handle_request mrun n c))
    (\<lambda>w'. winv rank L w' \<and> grows w w')"
proof -
  obtain k where n: "n = Suc k" "1 \<le> k" using assms(3) by (cases n) auto
  obtain w2 w3 where w3: "context_init c w1 = Inr w2" "context_reset c w2 = Inr w3"
    "running rank L c w3" "grows w w3" "\<And>n. (c, n) \<notin> L"
    using new_context_running [OF assms(1,2)] by blast
  obtain md h where md: "fsm_start_mod (w_fsm w3) = Some md" "registered (w_fsm w3) md"
    "md_class md = RequestModule h"
    using running_wf [OF w3(3)] by (auto simp: fsm_wf_def start_ok_def)
  from start_returns [OF w3(3) md(2) _ w3(5) n(2)] md(3)
  have "returns (fsm_run mrun k md c Mod_start w3) (\<lambda>w'. running rank L c w' \<and> grows w3 w')"
    by simp
  then have "returns (fsm_run mrun k md c Mod_start w3) (\<lambda>w'. winv rank L w' \<and> grows w w')"
    by (rule returns_mono) (auto simp: running_def intro: grows_trans [OF w3(4)])
  with w3(1,2) md(1) show ?thesis by (simp add: n(1) handle_request.simps)
qed

lemma running_grows:
  "running rank L c w \<Longrightarrow> winv rank L w' \<Longrightarrow> grows w w' \<Longrightarrow> running rank L c w'"
  by (auto simp: running_def grows_def)

lemma end_request_returns:
  assumes run: "running rank L c w" and "3 \<le> n"
  shows "returns (end_request mrun n c w) (\<lambda>w'. running rank L c w' \<and> grows w w')"
proof -
  obtain k where n: "n = Suc k" "2 \<le> k" using assms(2) by (cases n) auto
  from run obtain cx where cx: "w_contexts w c = Some cx" and inv: "winv rank L w"
    by (rule runningE)
  obtain c' w1 where new: "context_new (cx_conn cx) w = (c', w1)" by fastforce
  have "returns (rbind (context_init c' w1) (handle_request mrun k c'))
      (\<lambda>w'. running rank L c w' \<and> grows w w')"
    by (rule returns_mono [OF new_request_returns [OF inv new n(2)]])
      (auto intro: running_grows [OF run])
  with cx new run show ?thesis
    by (simp add: n(1) end_request.simps context_is_exit_def get_ctx_def)
qed

lemma exit_request_returns:
  assumes "running rank L c w" and "3 \<le> n"
  shows "returns (rbind (context_exit c w) (end_request mrun n c))
    (\<lambda>w'. running rank L c w' \<and> grows w w')"
  by (rule returns_bind [OF context_exit_running [OF assms(1)]])
    (blast intro: returns_mono [OF end_request_returns [OF _ assms(2)]] grows_trans)

text \<open>What \<open>_run\<close> and \<open>resume\<close> do with the state a module ended in.\<close>

lemma route_returns:
  assumes run: "running rank L c w" and n: "3 \<le> n"
    and next_run: "\<And>md'. registered (w_fsm w) md' \<Longrightarrow> rank (md_name md') < rank (md_name md) \<Longrightarrow>
      returns (fsm_run mrun n md' c s w) (\<lambda>w'. running rank L c w' \<and> grows w w')"
  shows "returns (resume mrun n md s c w) (\<lambda>w'. running rank L c w' \<and> grows w w')"
proof -
  obtain e where e: "fsm_end_mod (w_fsm w) = Some e"
    using running_wf [OF run] by (auto simp: fsm_wf_def)
  from next_module_wf [OF running_wf [OF run], of md s] next_run show ?thesis
    using end_request_returns [OF run n] exit_request_returns [OF run n] e
    by (auto simp: resume_def is_end_module_def)
qed

text \<open>
  \<open>_run\<close> returns when the stack has room for the longest path from the module and four more
  frames; the mutexes its callers hold are those of modules of higher rank.
\<close>

lemma fsm_run_returns:
  assumes "running rank L c w" "registered (w_fsm w) md"
    and "\<And>n. (c, n) \<in> L \<Longrightarrow> rank (md_name md) < rank n" "rank (md_name md) + 4 \<le> n"
  shows "returns (fsm_run mrun n md c s w) (\<lambda>w'. running rank L c w' \<and> grows w w')"
  using assms
proof (induction "rank (md_name md)" arbitrary: n md s w rule: less_induct)
  case less
  obtain k where n: "n = Suc k" and k: "3 \<le> k" "rank (md_name md) \<le> k - 3"
    using less.prems(4) by (cases n) auto
  have free: "(c, md_name md) \<notin> L" using less.prems(3) by blast
  have next_run: "returns (fsm_run mrun k md' c st w') (\<lambda>w'. running rank L c w' \<and> grows w1 w')"
    if "running rank L c w'" "registered (w_fsm w') md'" "rank (md_name md') < rank (md_name md)" "w1 = w'"
    for md' st w' w1
    unfolding that(4)
  proof (rule less.hyps [OF that(3,1,2)])
    show "rank (md_name md') < rank n" if "(c, n) \<in> L" for n
      using less.prems(3) [OF that] \<open>rank (md_name md') < rank (md_name md)\<close> by simp
    show "rank (md_name md') + 4 \<le> k" using k that(3) by simp
  qed
  show ?case
    unfolding n fsm_run_resume
  proof (rule returns_bind [OF mrun_returns [OF less.prems(1,2) free]], clarsimp)
    fix st w' assume run: "running rank L c w'" and gr: "grows w w'"
    have "returns (resume mrun k md st c w') (\<lambda>w''. running rank L c w'' \<and> grows w' w'')"
      by (rule route_returns [OF run k(1)]) (rule next_run [OF run _ _ refl])
    then show "returns (resume mrun k md st c w') (\<lambda>w''. running rank L c w'' \<and> grows w w'')"
      by (rule returns_mono) (auto intro: grows_trans [OF gr])
  qed
qed

lemma resume_returns:
  assumes run: "running rank L c w" and "\<And>n. (c, n) \<in> L \<Longrightarrow> rank (md_name md) \<le> rank n"
    and "rank (md_name md) + 4 \<le> n"
  shows "returns (resume mrun n md s c w) (\<lambda>w'. running rank L c w' \<and> grows w w')"
proof (rule route_returns [OF run])
  fix md' assume md': "registered (w_fsm w) md'" "rank (md_name md') < rank (md_name md)"
  show "returns (fsm_run mrun n md' c s w) (\<lambda>w'. running rank L c w' \<and> grows w w')"
    by (rule fsm_run_returns [OF run md'(1)]) (use assms(2,3) md'(2) in fastforce)+
qed (use assms(3) in simp)

end

end
