(* ===== verification/Module_Contract.thy ===== *)
theory Module_Contract
  imports Event_Loop Run_Contract
begin

text \<open>
  Every module class of the framework keeps the contract of \<open>Run_Contract\<close>: the proofs for
  \<open>SimpleModule\<close>, \<open>RequestModule\<close>, \<open>ResponseModule\<close>, \<open>ForkModule\<close>,
  \<open>JoinModule\<close> and \<open>TcpModule\<close>, and the interpretation of the locale
  \<open>module_runner\<close> on \<open>module_run\<close>.
\<close>

section \<open>Shared shapes\<close>

text \<open>A computation returns, keeps the invariant at \<open>c\<close>, and its extra result satisfies \<open>Q\<close>.\<close>

abbreviation keeps ::
  "(string \<Rightarrow> nat) \<Rightarrow> lockset \<Rightarrow> ctx_id \<Rightarrow> 'd world \<Rightarrow> 'd world res \<Rightarrow> bool" where
  "keeps rank L c w r \<equiv> returns r (\<lambda>w'. running rank L c w' \<and> grows w w')"

abbreviation gives ::
  "(string \<Rightarrow> nat) \<Rightarrow> lockset \<Rightarrow> ctx_id \<Rightarrow> 'd world \<Rightarrow> ('r \<Rightarrow> bool) \<Rightarrow> ('r \<times> 'd world) res \<Rightarrow> bool" where
  "gives rank L c w Q r \<equiv> returns r (\<lambda>(x, w'). running rank L c w' \<and> grows w w' \<and> Q x)"

lemma keeps_bind:
  "keeps rank L c w r \<Longrightarrow>
   (\<And>w'. running rank L c w' \<Longrightarrow> grows w w' \<Longrightarrow> keeps rank L c w' (f w')) \<Longrightarrow>
   keeps rank L c w (rbind r f)"
  by (erule returns_bind) (blast intro: returns_mono grows_trans)

lemma gives_bind_keeps:
  assumes "gives rank L c w Q r"
    and "\<And>x w'. running rank L c w' \<Longrightarrow> grows w w' \<Longrightarrow> Q x \<Longrightarrow> keeps rank L c w' (f (x, w'))"
  shows "keeps rank L c w (rbind r f)"
  by (rule returns_bind [OF assms(1)], clarsimp)
    (blast intro: returns_mono [OF assms(2)] grows_trans)

lemma gives_bind:
  assumes "gives rank L c w Q r"
    and "\<And>x w'. running rank L c w' \<Longrightarrow> grows w w' \<Longrightarrow> Q x \<Longrightarrow> gives rank L c w' R (f (x, w'))"
  shows "gives rank L c w R (rbind r f)"
proof (rule returns_bind [OF assms(1)])
  fix y assume "case y of (x, w') \<Rightarrow> running rank L c w' \<and> grows w w' \<and> Q x"
  then obtain x w' where y: "y = (x, w')" "running rank L c w'" "grows w w'" "Q x" by auto
  from assms(2) [OF y(2,3,4)] show "gives rank L c w R (f y)"
    unfolding y(1) by (rule returns_mono) (auto intro: grows_trans [OF y(3)])
qed

lemma running_bound:
  "running rank L c w \<Longrightarrow> registered (w_fsm w) md \<Longrightarrow> P (md_class md) \<Longrightarrow>
     bound_to P (w_fsm w) (dom (w_contexts w)) md c"
  by (simp add: bound_to_def running_def)

lemma registered_unique:
  "registered f md \<Longrightarrow> registered f md' \<Longrightarrow> md_name md' = md_name md \<Longrightarrow> md' = md"
  by (simp add: registered_def)

text \<open>The application's virtual methods.\<close>

lemma app_call_gives: "running rank L c w \<Longrightarrow> gives rank L c w (\<lambda>_. True) (app_call c g w)"
  by (rule returns_mono [OF app_call_running]) auto

lemma app_do_keeps: "running rank L c w \<Longrightarrow> keeps rank L c w (app_do c g w)"
  by (rule returns_mono [OF app_do_running]) auto

lemma context_exit_keeps: "running rank L c w \<Longrightarrow> keeps rank L c w (context_exit c w)"
  by (rule returns_mono [OF context_exit_running]) auto

section \<open>\<open>RequestModule\<close> and \<open>ResponseModule\<close>\<close>

lemma request_timer_running:
  assumes "running rank L c w" "registered (w_fsm w) md" "md_class md = RequestModule h"
  shows "request_timer md c w = Inr (Module_timer c (md_name md) 0, w)"
  using running_data [OF assms(1,2)] assms(3)
  by (simp add: request_timer_def data_ok_def get_module_data_present)

lemma response_timer_running:
  assumes "running rank L c w" "registered (w_fsm w) md" "md_class md = ResponseModule h"
  shows "response_timer md c w = Inr (Module_timer c (md_name md) 0, w)"
  using running_data [OF assms(1,2)] assms(3)
  by (simp add: response_timer_def data_ok_def get_module_data_present)

lemma request_run_gives:
  assumes run: "running rank L c w" and reg: "registered (w_fsm w) md" and cl: "md_class md = RequestModule h"
  shows "gives rank L c w (\<lambda>state. state = Mod_async) (request_run md h c s w)"
proof -
  obtain cx d where "w_contexts w c = Some cx" "cx_data cx = Some d" using run by (rule runningE)
  then show ?thesis
    using run reg cl request_timer_running [OF run reg cl]
    by (auto simp: request_run_def get_ctx_def app_get_def Let_def
        intro!: running_start_op running_bound intro: grows_trans)
qed

lemma response_run_gives:
  assumes run: "running rank L c w" and reg: "registered (w_fsm w) md" and cl: "md_class md = ResponseModule h"
  shows "gives rank L c w (\<lambda>_. True) (response_run md h c s w)"
proof -
  obtain cx d where cx: "w_contexts w c = Some cx" using run by (rule runningE)
  show ?thesis
    unfolding response_run_def get_ctx_def cx deref_simps rbind_Inr
  proof (rule gives_bind [OF app_call_gives [OF run]])
    fix resp w' assume w': "running rank L c w'" and gr: "grows w w'"
    have reg': "registered (w_fsm w') md" using reg grows_fsm [OF gr] by simp
    show "gives rank L c w' (\<lambda>_. True) (case (resp, w') of (resp, w) \<Rightarrow>
       (case resp of
         None \<Rightarrow> Inr (Mod_Failed, w)
       | Some buf \<Rightarrow>
           rbind (response_timer md c w) (\<lambda>(timer, w).
             let ms = rs_get_write_resp_time_out_ms h;
                 w = start_op (Async_wait timer ms (On_write_time_out md c)) w;
                 w = start_op (Async_write (Conn_socket (cx_conn cx)) buf (On_write_resp md c)) w
             in Inr (Mod_async, w))))"
      using w' reg' cl response_timer_running [OF w' reg' cl]
      by (cases resp) (auto simp: Let_def intro!: running_start_op running_bound)
  qed
qed

section \<open>\<open>ForkModule\<close> and \<open>JoinModule\<close>\<close>

lemma fork_loop_keeps:
  assumes "running rank L c w" "registered (w_fsm w) md" "md_class md = ForkModule k g"
    and "\<forall>i \<in> set is. i < unat k"
  shows "keeps rank L c w (fork_loop md c is w)"
  using assms
proof (induction "is" arbitrary: w)
  case (Cons i "is")
  have "mdata w c (md_name md) = Some (Some (Fork_data k))"
    using running_data [OF Cons.prems(1,2)] Cons.prems(3) by (simp add: data_ok_def)
  note get = get_module_data_present [OF this]
  let ?w = "start_op (Async_wait (Module_timer c (md_name md) i) 0
                        (On_forked md c (Mod_Fork0 + word_of_nat i))) w"
  have "running rank L c ?w"
    using Cons.prems by (auto intro!: running_start_op running_bound)
  from Cons.IH [OF this] Cons.prems have "keeps rank L c ?w (fork_loop md c is ?w)" by simp
  then have "keeps rank L c w (fork_loop md c is ?w)"
    by (rule returns_mono) auto
  with get Cons.prems(4) show ?case by simp
qed simp

lemma fork_run_gives:
  assumes run: "running rank L c w" and reg: "registered (w_fsm w) md" and cl: "md_class md = ForkModule k g"
  shows "gives rank L c w (\<lambda>state. state = Mod_async) (fork_run md g c s w)"
proof -
  obtain cx d where cx: "w_contexts w c = Some cx" "cx_data cx = Some d" using run by (rule runningE)
  have "g d \<le> k" using running_wf [OF run] reg cl by (auto simp: fsm_wf_def forks_ok_def)
  then have "\<forall>i \<in> set [0 ..< unat (g d)]. i < unat k" by (auto simp: word_le_nat_alt)
  from returnsD [OF fork_loop_keeps [OF run reg cl this]] cx show ?thesis
    by (auto simp: fork_run_def app_get_def get_ctx_def)
qed

lemma join_run_gives:
  assumes run: "running rank L c w" and reg: "registered (w_fsm w) md" and cl: "md_class md = JoinModule k g"
  shows "gives rank L c w (\<lambda>state. state = Mod_async) (join_run md g c s w)"
proof -
  obtain d where d: "mdata w c (md_name md) = Some (Some (Join_data d))"
    using running_data [OF run reg] cl by (auto simp: data_ok_def)
  obtain j d' where arr: "join_arrive s d = (j, d')" by fastforce
  have "data_ok md' (Some (Some (Join_data d')))" if "registered (w_fsm w) md'" "md_name md' = md_name md" for md'
    using registered_unique [OF reg that] cl by (simp add: data_ok_def)
  then obtain w1 where w1: "put_module_data c (md_name md) (Join_data d') w = Inr w1"
    "running rank L c w1" "grows w w1"
    using returnsD [OF put_module_data_running [OF run, where d = "Join_data d'" and n = "md_name md" and L' = L]]
    by auto
  obtain cx a where cx: "w_contexts w1 c = Some cx" "cx_data cx = Some a" using w1(2) by (rule runningE)
  have "registered (w_fsm w1) md" using reg grows_fsm [OF w1(3)] by simp
  with w1 cl cx show ?thesis
    by (auto simp: join_run_def get_module_data_present [OF d] arr app_get_def get_ctx_def Let_def
        intro!: running_start_op running_bound intro: grows_trans)
qed

section \<open>\<open>TcpModule\<close>: data and lock\<close>

text \<open>The module's data in a context, as its methods see it.\<close>

abbreviation tcp_at :: "'d world \<Rightarrow> ctx_id \<Rightarrow> 'd module \<Rightarrow> tcp_data \<Rightarrow> bool" where
  "tcp_at w c md d \<equiv> mdata w c (md_name md) = Some (Some (Tcp_data d))"

lemma tcp_at_exists:
  assumes "running rank L c w" "registered (w_fsm w) md" "is_tcp (md_class md)"
  shows "\<exists>d. tcp_at w c md d"
  using running_data [OF assms(1,2)] assms(3) by (cases "md_class md") (auto simp: data_ok_def)

lemma tcp_get_at: "tcp_at w c md d \<Longrightarrow> tcp_get md c w = Inr (d, w)"
  by (simp add: tcp_get_def get_module_data_present)

lemma tcp_cancel_client_at:
  "tcp_at w c md d \<Longrightarrow> tcp_cancel_client md c w =
     Inr (case td_client d of None \<Rightarrow> w | Some i \<Rightarrow> cancel_socket (Client_socket i) w)"
  by (simp add: tcp_cancel_client_def tcp_get_at)

lemma tcp_timer_at: "tcp_at w c md d \<Longrightarrow> tcp_timer md c w = Inr (Module_timer c (md_name md) 0, w)"
  by (simp add: tcp_timer_def tcp_get_at)

lemma tcp_the_client_at:
  "tcp_at w c md d \<Longrightarrow> td_client d = Some i \<Longrightarrow> tcp_the_client md c w = Inr (i, w)"
  by (simp add: tcp_the_client_def tcp_get_at)

lemma tcp_modify_gen:
  assumes run: "running rank L c w" and reg: "registered (w_fsm w) md" and cl: "is_tcp (md_class md)"
    and d: "tcp_at w c md d" and lock: "td_locked (f d) = ((c, md_name md) \<in> L')"
    and L': "L' - {(c, md_name md)} = L - {(c, md_name md)}"
  shows "returns (tcp_modify md c f w)
    (\<lambda>w'. running rank L' c w' \<and> grows w w' \<and> tcp_at w' c md (f d))"
proof -
  have "data_ok md' (Some (Some (Tcp_data (f d))))" if "registered (w_fsm w) md'" "md_name md' = md_name md" for md'
    using registered_unique [OF reg that] cl by (cases "md_class md") (simp_all add: data_ok_def)
  from put_module_data_running [OF run this _ L'] lock show ?thesis
    unfolding tcp_modify_def tcp_get_at [OF d] by simp (erule returns_mono; simp)
qed

lemma tcp_modify_at:
  assumes "running rank L c w" "registered (w_fsm w) md" "is_tcp (md_class md)"
    and d: "tcp_at w c md d" and "td_locked (f d) = td_locked d"
  shows "returns (tcp_modify md c f w)
    (\<lambda>w'. running rank L c w' \<and> grows w w' \<and> tcp_at w' c md (f d))"
  by (rule tcp_modify_gen [OF assms(1-4)]) (use assms(5) running_locked [OF assms(1) d] in simp_all)

text \<open>
  The critical section: when no caller holds the mutex, locking succeeds, the body runs with
  the mutex among the held ones, and it is released at the end.
\<close>

lemma with_tcp_lock_cases:
  assumes run: "running rank L c w" and reg: "registered (w_fsm w) md" and cl: "is_tcp (md_class md)"
    and free: "(c, md_name md) \<notin> L" and d: "tcp_at w c md d"
    and body: "\<And>w'. running rank (insert (c, md_name md) L) c w' \<Longrightarrow> grows w w' \<Longrightarrow>
       tcp_at w' c md (d\<lparr>td_locked := True\<rparr>) \<Longrightarrow>
       N \<and> body w' = Inl e \<or> gives rank (insert (c, md_name md) L) c w' Q (body w')"
  shows "N \<and> with_tcp_lock md c body w = Inl e \<or> gives rank L c w Q (with_tcp_lock md c body w)"
proof -
  let ?L = "insert (c, md_name md) L"
  have "\<not> td_locked d" using running_locked [OF run d] free by simp
  then obtain w1 where w1: "tcp_lock md c w = Inr w1" "running rank ?L c w1" "grows w w1"
    "tcp_at w1 c md (d\<lparr>td_locked := True\<rparr>)"
    using returnsD [OF tcp_modify_gen [OF run reg cl d, of "\<lambda>d. d\<lparr>td_locked := True\<rparr>" ?L]]
    by (auto simp: tcp_lock_def tcp_get_at [OF d])
  from body [OF w1(2,3,4)] show ?thesis
  proof
    assume "N \<and> body w1 = Inl e"
    then show ?thesis by (simp add: with_tcp_lock_def w1(1))
  next
    assume "gives rank ?L c w1 Q (body w1)"
    from returnsD [OF this] obtain x w2 where
      w2: "body w1 = Inr (x, w2)" "running rank ?L c w2" "grows w1 w2" "Q x" by auto
    have gr: "grows w w2" by (rule grows_trans [OF w1(3) w2(3)])
    have reg2: "registered (w_fsm w2) md" using reg grows_fsm [OF gr] by simp
    obtain d2 where d2: "tcp_at w2 c md d2" using tcp_at_exists [OF w2(2) reg2 cl] by blast
    from returnsD [OF tcp_modify_gen [OF w2(2) reg2 cl d2, of "\<lambda>d. d\<lparr>td_locked := False\<rparr>" L]] free
    obtain w3 where "tcp_unlock md c w2 = Inr w3" "running rank L c w3" "grows w2 w3"
      by (auto simp: tcp_unlock_def)
    with w1(1) w2(1,4) gr show ?thesis
      by (auto simp: with_tcp_lock_def intro: grows_trans)
  qed
qed

lemmas with_tcp_lock_gives = with_tcp_lock_cases [where N = False, simplified]

lemma in_tcp_lock_cases:
  assumes "running rank L c w" "registered (w_fsm w) md" "is_tcp (md_class md)"
    and "(c, md_name md) \<notin> L" and "tcp_at w c md d"
    and body: "\<And>w'. running rank (insert (c, md_name md) L) c w' \<Longrightarrow> grows w w' \<Longrightarrow>
       tcp_at w' c md (d\<lparr>td_locked := True\<rparr>) \<Longrightarrow>
       N \<and> body w' = Inl e \<or> keeps rank (insert (c, md_name md) L) c w' (body w')"
  shows "N \<and> in_tcp_lock md c body w = Inl e \<or> keeps rank L c w (in_tcp_lock md c body w)"
proof -
  have "N \<and> with_tcp_lock md c (\<lambda>w. rbind (body w) (\<lambda>w. Inr ((), w))) w = Inl e \<or>
    gives rank L c w (\<lambda>_. True) (with_tcp_lock md c (\<lambda>w. rbind (body w) (\<lambda>w. Inr ((), w))) w)"
  proof (rule with_tcp_lock_cases [OF assms(1-5)])
    fix w' assume "running rank (insert (c, md_name md) L) c w'" "grows w w'"
      "tcp_at w' c md (d\<lparr>td_locked := True\<rparr>)"
    from body [OF this] show
      "N \<and> rbind (body w') (\<lambda>w. Inr ((), w)) = Inl e \<or>
       gives rank (insert (c, md_name md) L) c w' (\<lambda>_. True) (rbind (body w') (\<lambda>w. Inr ((), w)))"
      by (auto dest!: returnsD)
  qed
  then show ?thesis by (auto simp: in_tcp_lock_def dest!: returnsD)
qed

lemmas in_tcp_lock_keeps = in_tcp_lock_cases [where N = False, simplified]

section \<open>\<open>TcpModule::run\<close>\<close>

lemma running_pools:
  "running rank L c w \<Longrightarrow> (\<And>k. None \<notin> set (pool_deque p k)) \<Longrightarrow>
     running rank L c (w\<lparr>w_pools := (w_pools w)(i := p), w_clients := hp\<rparr>)"
  by (simp add: running_def winv_def)

lemma grows_world [simp]:
  "grows u (w\<lparr>w_pools := ps\<rparr>) = grows u w" "grows u (w\<lparr>w_clients := hp\<rparr>) = grows u w"
  "grows u (w\<lparr>w_next_client := k\<rparr>) = grows u w"
  "grows (w\<lparr>w_pools := ps\<rparr>) u = grows w u" "grows (w\<lparr>w_clients := hp\<rparr>) u = grows w u"
  "grows (w\<lparr>w_next_client := k\<rparr>) u = grows w u"
  by (simp_all add: grows_def)

lemma running_clients:
  "running rank L c w \<Longrightarrow> running rank L c (w\<lparr>w_clients := hp, w_next_client := k\<rparr>)"
  "running rank L c w \<Longrightarrow> running rank L c (w\<lparr>w_clients := hp\<rparr>)"
  by (simp_all add: running_def winv_def)

lemma send_request_gives:
  assumes run: "running rank L c w" and reg: "registered (w_fsm w) md" and cl: "is_tcp (md_class md)"
    and d: "tcp_at w c md d" and i: "td_client d = Some i"
  shows "gives rank L c w (\<lambda>_. True) (send_request md h c w)"
proof -
  obtain req w1 where w1: "app_call c (tm_get_request h) w = Inr (req, w1)" "running rank L c w1"
    "mdata w1 = mdata w" "grows w w1"
    using returnsD [OF app_call_running [OF run, where g = "tm_get_request h"]] by auto
  let ?w = "start_op (Async_write (Client_socket i) req (On_write_req md c req)) w1"
  have reg1: "registered (w_fsm w1) md" using reg grows_fsm [OF w1(4)] by simp
  have d1: "tcp_at w1 c md d" using d w1(3) by simp
  have "running rank L c ?w"
    using w1(2) reg1 cl by (auto intro!: running_start_op running_bound)
  from returnsD [OF tcp_modify_at [OF this _ cl, of d "\<lambda>d. d\<lparr>td_socket_event := Socket_Event_Opened\<rparr>"]]
  show ?thesis
    using w1(1,4) reg1 d1 tcp_the_client_at [OF d1 i]
    by (auto simp: send_request_def intro: grows_trans)
qed

lemma send_with_timer_gives:
  assumes run: "running rank L c w" and reg: "registered (w_fsm w) md" and cl: "is_tcp (md_class md)"
    and d: "tcp_at w c md d" and i: "td_client d = Some i"
  shows "gives rank L c w (\<lambda>_. True) (send_with_timer md h c w)"
proof -
  let ?w = "start_op (Async_wait (Module_timer c (md_name md) 0) (tm_get_time_out_ms h)
              (On_handle_time_out md c)) w"
  have "running rank L c ?w"
    using run reg cl by (auto intro!: running_start_op running_bound)
  from send_request_gives [OF this _ cl _ i, of h] show ?thesis
    using reg d by (simp add: send_with_timer_def tcp_timer_at [OF d])
qed

lemma tcp_connect_gives:
  assumes run: "running rank L c w" and reg: "registered (w_fsm w) md" and cl: "is_tcp (md_class md)"
    and d: "tcp_at w c md d"
  shows "gives rank L c w (\<lambda>_. True) (tcp_connect env md h c peer ip port w)"
proof -
  let ?w1 = "start_op (Async_wait (Module_timer c (md_name md) 0) (tm_get_connect_time_out_ms h)
                (On_handle_connect_time_out md c ip port)) w"
  have w1: "running rank L c ?w1"
    using run reg cl by (auto intro!: running_start_op running_bound)
  obtain i w2 where w2: "client_new env peer ?w1 = (i, w2)" "running rank L c w2"
    "grows w w2" "tcp_at w2 c md d"
    using running_clients(1) [OF w1] d grows_trans [of w ?w1]
    by (simp add: client_new_def Let_def)
  then have reg2: "registered (w_fsm w2) md" using reg grows_fsm by metis
  obtain w3 where w3: "tcp_modify md c (\<lambda>d. d\<lparr>td_client := Some i\<rparr>) w2 = Inr w3"
    "running rank L c w3" "grows w2 w3" "tcp_at w3 c md (d\<lparr>td_client := Some i\<rparr>)"
    using returnsD [OF tcp_modify_at [OF w2(2) reg2 cl w2(4), of "\<lambda>d. d\<lparr>td_client := Some i\<rparr>"]] by auto
  have reg3: "registered (w_fsm w3) md" using reg2 grows_fsm [OF w3(3)] by simp
  let ?w4 = "start_op (Async_connect (Client_socket i) ip port (On_connect md c ip port)) w3"
  have w4: "running rank L c ?w4"
    using w3(2) reg3 cl by (auto intro!: running_start_op running_bound)
  obtain w5 where "tcp_modify md c (\<lambda>d. d\<lparr>td_socket_event := Socket_Event_Opened\<rparr>) ?w4 = Inr w5"
    "running rank L c w5" "grows w3 w5"
    using returnsD [OF tcp_modify_at [OF w4 _ cl, of _ "\<lambda>d. d\<lparr>td_socket_event := Socket_Event_Opened\<rparr>"]]
      reg3 w3(4) by auto
  with run w1 w2 w3 show ?thesis
    by (auto simp: tcp_connect_def tcp_timer_at [OF d] Let_def intro: grows_trans)
qed

lemma tcp_take_client_running:
  assumes run: "running rank L c w" and reg: "registered (w_fsm w) md" and cl: "is_tcp (md_class md)"
    and d: "tcp_at w c md d"
  shows "\<exists>client w'. tcp_take_client env md pool c peer w = Inr (client, w') \<and>
    running rank L c w' \<and> grows w w' \<and> tcp_at w' c md (d\<lparr>td_client := client\<rparr>)"
proof -
  obtain client p hp where get: "get_client env peer (w_pools w pool) (w_clients w) = (client, p, hp)"
    by (rule prod_cases3)
  have "None \<notin> set (pool_deque p k)" for k
  proof -
    obtain pre where "pool_deque (w_pools w pool) k = pre @ pool_deque p k"
      using get_client_deque_suffix [OF get] by blast
    moreover have "None \<notin> set (pool_deque (w_pools w pool) k)"
      using run by (simp add: running_def winv_def)
    ultimately show ?thesis by simp
  qed
  from running_pools [OF run this, where i = pool and hp = hp]
  have w1: "running rank L c (w\<lparr>w_pools := (w_pools w)(pool := p), w_clients := hp\<rparr>)" .
  from returnsD [OF tcp_modify_at [OF w1 _ cl, of d "\<lambda>d. d\<lparr>td_client := client\<rparr>"]] show ?thesis
    using reg d by (auto simp: tcp_take_client_def get)
qed

lemma tcp_run_gives:
  assumes run: "running rank L c w" and reg: "registered (w_fsm w) md" and cl: "is_tcp (md_class md)"
    and free: "(c, md_name md) \<notin> L"
  shows "gives rank L c w (\<lambda>_. True) (tcp_run env md pool h c s w)"
proof -
  obtain cx a where cx: "w_contexts w c = Some cx" "cx_data cx = Some a" using run by (rule runningE)
  obtain d where d: "tcp_at w c md d" using tcp_at_exists [OF run reg cl] by blast
  let ?peer = "sint (tm_get_client_type_id h a)"
  let ?body = "\<lambda>w. rbind (tcp_take_client env md pool c ?peer w) (\<lambda>(client, w).
      case client of
        None \<Rightarrow> rbind (app_call c (tm_get_server_ip_port h) w) (\<lambda>(addr, w).
          case addr of
            None \<Rightarrow> Inr (Mod_Failed, w)
          | Some (ip, port) \<Rightarrow> tcp_connect env md h c ?peer ip port w)
      | Some _ \<Rightarrow> send_with_timer md h c w)"
  have "gives rank L c w (\<lambda>_. True) (with_tcp_lock md c ?body w)"
  proof (rule with_tcp_lock_gives [OF run reg cl free d])
    fix w' assume w': "running rank (insert (c, md_name md) L) c w'" "grows w w'"
      and d': "tcp_at w' c md (d\<lparr>td_locked := True\<rparr>)"
    let ?L = "insert (c, md_name md) L"
    have reg': "registered (w_fsm w') md" using reg grows_fsm [OF w'(2)] by simp
    obtain client w1 d1 where w1: "tcp_take_client env md pool c ?peer w' = Inr (client, w1)"
      "running rank ?L c w1" "grows w' w1" "tcp_at w1 c md d1" "td_client d1 = client"
      using tcp_take_client_running [OF w'(1) reg' cl d', of env pool ?peer] by force
    have reg1: "registered (w_fsm w1) md" using reg' grows_fsm [OF w1(3)] by simp
    have "gives rank ?L c w1 (\<lambda>_. True) (case client of
        None \<Rightarrow> rbind (app_call c (tm_get_server_ip_port h) w1) (\<lambda>(addr, w).
          case addr of
            None \<Rightarrow> Inr (Mod_Failed, w)
          | Some (ip, port) \<Rightarrow> tcp_connect env md h c ?peer ip port w)
      | Some _ \<Rightarrow> send_with_timer md h c w1)"
    proof (cases client)
      case (Some i)
      with send_with_timer_gives [OF w1(2) reg1 cl w1(4), of i h] w1(5) show ?thesis by simp
    next
      case None
      obtain addr w2 where w2: "app_call c (tm_get_server_ip_port h) w1 = Inr (addr, w2)"
        "running rank ?L c w2" "mdata w2 = mdata w1" "grows w1 w2"
        using returnsD [OF app_call_running [OF w1(2), where g = "tm_get_server_ip_port h"]] by auto
      have "registered (w_fsm w2) md" "tcp_at w2 c md d1" using reg1 w1(4) w2(3) grows_fsm [OF w2(4)] by simp_all
      note conn = tcp_connect_gives [OF w2(2) this(1) cl this(2), where env = env and h = h and peer = ?peer]
      have "gives rank ?L c w1 (\<lambda>_. True) (tcp_connect env md h c ?peer ip port w2)" for ip port
        by (rule returns_mono [OF conn]) (auto intro: grows_trans [OF w2(4)])
      with None w2 show ?thesis by (cases addr) auto
    qed
    then show "gives rank ?L c w' (\<lambda>_. True) (?body w')"
      unfolding w1(1) rbind_Inr prod.case
      by (rule returns_mono) (auto intro: grows_trans [OF w1(3)])
  qed
  with cx run show ?thesis
    by (simp add: tcp_run_def app_get_def get_ctx_def Let_def)
qed

section \<open>The contract holds\<close>

lemma simple_run_gives:
  "running rank L c w \<Longrightarrow> gives rank L c w (\<lambda>_. True) (simple_run f c s w)"
  unfolding simple_run_def by (rule app_call_gives)

lemma module_run_gives:
  assumes "running rank L c w" "registered (w_fsm w) md" "(c, md_name md) \<notin> L"
  shows "gives rank L c w (\<lambda>state. is_request (md_class md) \<longrightarrow> state = Mod_async)
    (module_run env md c s w)"
proof (cases "md_class md")
  case (SimpleModule f)
  then show ?thesis using simple_run_gives [OF assms(1), of f s] by (simp add: module_run_def)
next
  case (RequestModule h)
  then show ?thesis using request_run_gives [OF assms(1,2)] by (simp add: module_run_def)
next
  case (ResponseModule h)
  then show ?thesis using response_run_gives [OF assms(1,2)] by (simp add: module_run_def)
next
  case (TcpModule p h)
  then show ?thesis using tcp_run_gives [OF assms(1,2) _ assms(3), of env p h s] by (simp add: module_run_def)
next
  case (ForkModule k g)
  then show ?thesis
    using returns_mono [OF fork_run_gives [OF assms(1,2), of k g s]] by (auto simp: module_run_def)
next
  case (JoinModule k g)
  then show ?thesis
    using returns_mono [OF join_run_gives [OF assms(1,2), of k g s]] by (auto simp: module_run_def)
qed

interpretation server: module_runner "module_run env" rank for env rank
  by unfold_locales (rule module_run_gives)

end
