(* ===== verification/Server_Safety.thy ===== *)
theory Server_Safety
  imports Module_Contract
begin

text \<open>
  The event loop keeps the invariant: every completion handler that asio can call returns and
  leaves the server in a state in which the next one can run. Handlers start with no mutex
  held.
\<close>

section \<open>Handlers of \<open>RequestModule\<close> and \<open>ResponseModule\<close>\<close>

text \<open>Enough stack for every module of the machine.\<close>

definition stack_ok :: "(string \<Rightarrow> nat) \<Rightarrow> nat \<Rightarrow> 'd fsm \<Rightarrow> bool" where
  "stack_ok rank n f \<longleftrightarrow> 3 \<le> n \<and> (\<forall>md. registered f md \<longrightarrow> rank (md_name md) + 4 \<le> n)"

lemma keeps_grows: "keeps rank L c w' r \<Longrightarrow> grows w w' \<Longrightarrow> keeps rank L c w r"
  by (erule returns_mono) (blast intro: grows_trans)

lemma resume_keeps:
  assumes "running rank L c w" "registered (w_fsm w) md" "stack_ok rank n (w_fsm w)"
    and "L \<subseteq> {(c, md_name md)}"
  shows "keeps rank L c w (resume (module_run env) n md s c w)"
  by (rule server.resume_returns [OF assms(1)]) (use assms in \<open>auto simp: stack_ok_def\<close>)

lemma exit_resume_keeps:
  assumes "running rank L c w" "registered (w_fsm w) md" "stack_ok rank n (w_fsm w)"
    and "L \<subseteq> {(c, md_name md)}"
  shows "keeps rank L c w (rbind (context_exit c w) (\<lambda>w. resume (module_run env) n md s c w))"
proof (rule keeps_bind [OF context_exit_keeps [OF assms(1)]])
  fix w' assume run': "running rank L c w'" and gr: "grows w w'"
  show "keeps rank L c w' (resume (module_run env) n md s c w')"
    by (rule resume_keeps [OF run']) (use assms grows_fsm [OF gr] in simp_all)
qed

lemma app_exit_resume_keeps:
  assumes "running rank L c w" "registered (w_fsm w) md" "stack_ok rank n (w_fsm w)"
    and "L \<subseteq> {(c, md_name md)}"
  shows "keeps rank L c w (rbind (app_do c g w) (\<lambda>w.
    rbind (context_exit c w) (\<lambda>w. resume (module_run env) n md s c w)))"
proof (rule keeps_bind [OF app_do_keeps [OF assms(1)]])
  fix w' assume run': "running rank L c w'" and gr: "grows w w'"
  show "keeps rank L c w' (rbind (context_exit c w') (\<lambda>w. resume (module_run env) n md s c w))"
    by (rule exit_resume_keeps [OF run']) (use assms grows_fsm [OF gr] in simp_all)
qed

lemma app_resume_keeps:
  assumes "running rank L c w" "registered (w_fsm w) md" "stack_ok rank n (w_fsm w)"
    and "L \<subseteq> {(c, md_name md)}"
  shows "keeps rank L c w (rbind (app_do c g w) (\<lambda>w. resume (module_run env) n md s c w))"
proof (rule keeps_bind [OF app_do_keeps [OF assms(1)]])
  fix w' assume run': "running rank L c w'" and gr: "grows w w'"
  show "keeps rank L c w' (resume (module_run env) n md s c w')"
    by (rule resume_keeps [OF run']) (use assms grows_fsm [OF gr] in simp_all)
qed

lemma request_cancel_timer_running:
  assumes "running rank L c w" "registered (w_fsm w) md" "md_class md = RequestModule h"
  shows "request_cancel_timer env md c w =
    Inr (\<not> ec_set (ev_timer_cancel env (Module_timer c (md_name md) 0)), w)"
  by (simp add: request_cancel_timer_def request_timer_running [OF assms])

lemma response_cancel_timer_running:
  assumes "running rank L c w" "registered (w_fsm w) md" "md_class md = ResponseModule h"
  shows "response_cancel_timer env md c w =
    Inr (\<not> ec_set (ev_timer_cancel env (Module_timer c (md_name md) 0)), w)"
  by (simp add: response_cancel_timer_def response_timer_running [OF assms])

lemma read_accepted_gives:
  "running rank L c w \<Longrightarrow> gives rank L c w (\<lambda>_. True) (read_accepted c ec impl w)"
  using app_call_gives [of rank L c w impl] by (simp add: read_accepted_def)

lemma read_failed_keeps:
  assumes run: "running rank {} c w" and reg: "registered (w_fsm w) md"
    and cl: "md_class md = RequestModule h" and st: "stack_ok rank n (w_fsm w)"
  shows "keeps rank {} c w (read_failed env (module_run env) n md g c ec w)"
  using exit_resume_keeps [OF run reg st] app_exit_resume_keeps [OF run reg st] run
  by (simp add: read_failed_def request_cancel_timer_running [OF run reg cl])

lemma on_read_version_keeps:
  assumes run: "running rank {} c w" and reg: "registered (w_fsm w) md"
    and cl: "md_class md = RequestModule h" and st: "stack_ok rank n (w_fsm w)"
  shows "keeps rank {} c w (on_read_version env (module_run env) n md h c buf len ec w)"
  unfolding on_read_version_def
proof (rule gives_bind_keeps [OF read_accepted_gives [OF run]])
  fix ok w' assume w': "running rank {} c w'" and gr: "grows w w'"
  from reg st grows_fsm [OF gr] have reg': "registered (w_fsm w') md" and st': "stack_ok rank n (w_fsm w')"
    by simp_all
  obtain cx d where cx: "w_contexts w' c = Some cx" "cx_data cx = Some d" using w' by (rule runningE)
  show "keeps rank {} c w' (case (ok, w') of (ok, w) \<Rightarrow>
      if \<not> ok then read_failed env (module_run env) n md (rq_on_read_version_failed h) c ec w
       else
         rbind (request_cancel_timer env md c w) (\<lambda>(cancelled, w).
           if \<not> cancelled then Inr w
           else
             rbind (app_get c (rq_get_head_len h) w) (\<lambda>head_len.
             rbind (get_ctx c w) (\<lambda>cx.
             rbind (request_timer md c w) (\<lambda>(timer, w).
               let ms = rq_get_read_head_and_body_time_out_ms h;
                   w = start_op (Async_wait timer ms (On_read_time_out 2 md c)) w;
                   w = start_op (Async_read (Conn_socket (cx_conn cx)) head_len
                                   (On_read_head md c head_len)) w
               in Inr w)))))"
    using read_failed_keeps [OF w' reg' cl st'] w' reg' cl cx
    by (auto simp: request_cancel_timer_running [OF w' reg' cl] request_timer_running [OF w' reg' cl]
        app_get_def get_ctx_def Let_def intro!: running_start_op running_bound)
qed

lemma on_read_head_keeps:
  assumes run: "running rank {} c w" and reg: "registered (w_fsm w) md"
    and cl: "md_class md = RequestModule h" and st: "stack_ok rank n (w_fsm w)"
  shows "keeps rank {} c w (on_read_head env (module_run env) n md h c buf len ec w)"
  unfolding on_read_head_def
proof (rule gives_bind_keeps [OF read_accepted_gives [OF run]])
  fix ok w' assume w': "running rank {} c w'" and gr: "grows w w'"
  from reg st grows_fsm [OF gr] have reg': "registered (w_fsm w') md" and st': "stack_ok rank n (w_fsm w')"
    by simp_all
  obtain cx d where cx: "w_contexts w' c = Some cx" "cx_data cx = Some d" using w' by (rule runningE)
  show "keeps rank {} c w' (case (ok, w') of (ok, w) \<Rightarrow>
      if \<not> ok then read_failed env (module_run env) n md (rq_on_read_head_failed h) c ec w
       else
         rbind (app_get c (rq_get_body_len h) w) (\<lambda>body_len.
         rbind (get_ctx c w) (\<lambda>cx.
           Inr (start_op (Async_read (Conn_socket (cx_conn cx)) body_len
                            (On_read_body md c body_len)) w))))"
    using read_failed_keeps [OF w' reg' cl st'] w' reg' cl cx
    by (auto simp: app_get_def get_ctx_def intro!: running_start_op running_bound)
qed

lemma on_read_body_keeps:
  assumes run: "running rank {} c w" and reg: "registered (w_fsm w) md"
    and cl: "md_class md = RequestModule h" and st: "stack_ok rank n (w_fsm w)"
  shows "keeps rank {} c w (on_read_body env (module_run env) n md h c buf len ec w)"
  unfolding on_read_body_def
proof (rule gives_bind_keeps [OF read_accepted_gives [OF run]])
  fix ok w' assume w': "running rank {} c w'" and gr: "grows w w'"
  from reg st grows_fsm [OF gr] have reg': "registered (w_fsm w') md" and st': "stack_ok rank n (w_fsm w')"
    by simp_all
  obtain cx d where cx: "w_contexts w' c = Some cx" "cx_data cx = Some d" using w' by (rule runningE)
  show "keeps rank {} c w' (case (ok, w') of (ok, w) \<Rightarrow>
      if \<not> ok then read_failed env (module_run env) n md (rq_on_read_body_failed h) c ec w
       else
         rbind (request_cancel_timer env md c w) (\<lambda>(cancelled, w).
           if \<not> cancelled then Inr w
           else
             rbind (app_get c (rq_get_succeed_state h) w) (\<lambda>state.
               resume (module_run env) n md state c w)))"
    using read_failed_keeps [OF w' reg' cl st'] resume_keeps [OF w' reg' st'] w' cx
    by (auto simp: request_cancel_timer_running [OF w' reg' cl] app_get_def get_ctx_def)
qed

text \<open>
  The time-out handlers of a connection end in \<open>socket().cancel()\<close>, whose failure is an exception that
  nobody catches. They return exactly when it does not fail.
\<close>

abbreviation conn_cancel_fails :: "asio_env \<Rightarrow> ctx_id \<Rightarrow> 'd world \<Rightarrow> bool" where
  "conn_cancel_fails env c w \<equiv>
     (\<exists>cx. w_contexts w c = Some cx \<and> ec_set (ev_socket_cancel env (Conn_socket (cx_conn cx))))"

lemma cancel_conn_cases:
  assumes "running rank {} c w"
  shows "if conn_cancel_fails env c w
    then rbind (app_do c g w) (cancel_conn env c) = Inl Uncaught_exception
    else keeps rank {} c w (rbind (app_do c g w) (cancel_conn env c))"
proof -
  obtain cx d where cx: "w_contexts w c = Some cx" "cx_data cx = Some d" using assms by (rule runningE)
  obtain w' where w': "app_do c g w = Inr w'" "running rank {} c w'" "grows w w'"
    using returnsD [OF app_do_keeps [OF assms, of g]] by blast
  then have "w' = put_ctx c (cx\<lparr>cx_data := Some (g d)\<rparr>) w" by (simp add: app_do_eq [OF cx])
  with w' cx show ?thesis by (simp add: cancel_conn_def get_ctx_def returns_def)
qed

lemma on_read_time_out_cases:
  assumes "running rank {} c w"
  shows "if \<not> ec_set ec \<and> conn_cancel_fails env c w
    then on_read_time_out env h flag c ec w = Inl Uncaught_exception
    else keeps rank {} c w (on_read_time_out env h flag c ec w)"
  using cancel_conn_cases [OF assms, of env] assms by (auto simp: on_read_time_out_def)

lemma on_write_time_out_cases:
  assumes "running rank {} c w"
  shows "if \<not> ec_set ec \<and> conn_cancel_fails env c w
    then on_write_time_out env h c ec w = Inl Uncaught_exception
    else keeps rank {} c w (on_write_time_out env h c ec w)"
  using cancel_conn_cases [OF assms, of env] assms by (auto simp: on_write_time_out_def)

lemma on_write_resp_keeps:
  assumes run: "running rank {} c w" and reg: "registered (w_fsm w) md"
    and cl: "md_class md = ResponseModule h" and st: "stack_ok rank n (w_fsm w)"
  shows "keeps rank {} c w (on_write_resp env (module_run env) n md h c ec w)"
  using exit_resume_keeps [OF run reg st] app_exit_resume_keeps [OF run reg st]
    app_resume_keeps [OF run reg st] run
  by (simp add: on_write_resp_def response_cancel_timer_running [OF run reg cl])

section \<open>Handlers of \<open>TcpModule\<close>\<close>

text \<open>What every handler of the module starts from.\<close>

definition tcp_handler :: "(string \<Rightarrow> nat) \<Rightarrow> nat \<Rightarrow> 'd module \<Rightarrow> ctx_id \<Rightarrow> 'd world \<Rightarrow> bool" where
  "tcp_handler rank n md c w \<longleftrightarrow>
     running rank {} c w \<and> registered (w_fsm w) md \<and> is_tcp (md_class md) \<and> stack_ok rank n (w_fsm w)"

text \<open>The same inside the critical section.\<close>

definition tcp_inside :: "(string \<Rightarrow> nat) \<Rightarrow> nat \<Rightarrow> 'd module \<Rightarrow> ctx_id \<Rightarrow> 'd world \<Rightarrow> bool" where
  "tcp_inside rank n md c w \<longleftrightarrow>
     running rank {(c, md_name md)} c w \<and> registered (w_fsm w) md \<and> is_tcp (md_class md) \<and>
     stack_ok rank n (w_fsm w)"

lemma tcp_inside_grows:
  "tcp_inside rank n md c w \<Longrightarrow> running rank {(c, md_name md)} c w' \<Longrightarrow> grows w w' \<Longrightarrow>
     tcp_inside rank n md c w'"
  by (simp add: tcp_inside_def grows_fsm)

lemma tcp_inside_resume:
  "tcp_inside rank n md c w \<Longrightarrow>
     keeps rank {(c, md_name md)} c w (resume (module_run env) n md s c w)"
  by (rule resume_keeps) (simp_all add: tcp_inside_def)

lemma tcp_inside_at: "tcp_inside rank n md c w \<Longrightarrow> \<exists>d. tcp_at w c md d"
  unfolding tcp_inside_def using tcp_at_exists by blast

lemma tcp_event_cases:
  assumes h: "tcp_handler rank n md c w" and d: "tcp_at w c md d"
    and body: "\<And>w'. tcp_inside rank n md c w' \<Longrightarrow>
      tcp_at w' c md (d\<lparr>td_locked := True, td_socket_event := Socket_Event_Closed\<rparr>) \<Longrightarrow>
      td_socket_event d = Socket_Event_Opened \<Longrightarrow>
      N \<and> body w' = Inl e \<or> keeps rank {(c, md_name md)} c w' (body w')"
  shows "N \<and> tcp_event md c body w = Inl e \<or> keeps rank {} c w (tcp_event md c body w)"
  unfolding tcp_event_def
proof (rule in_tcp_lock_cases [OF _ _ _ _ d])
  fix w' assume w': "running rank {(c, md_name md)} c w'" and gr: "grows w w'"
    and d': "tcp_at w' c md (d\<lparr>td_locked := True\<rparr>)"
  have ins: "tcp_inside rank n md c w'"
    using h w' grows_fsm [OF gr] by (simp add: tcp_handler_def tcp_inside_def)
  have reg': "registered (w_fsm w') md" and cl: "is_tcp (md_class md)"
    using ins by (simp_all add: tcp_inside_def)
  obtain w'' where w'': "tcp_modify md c (\<lambda>d. d\<lparr>td_socket_event := Socket_Event_Closed\<rparr>) w' = Inr w''"
    "running rank {(c, md_name md)} c w''" "grows w' w''"
    "tcp_at w'' c md (d\<lparr>td_locked := True, td_socket_event := Socket_Event_Closed\<rparr>)"
    using returnsD [OF tcp_modify_at [OF w' reg' cl d',
        of "\<lambda>d. d\<lparr>td_socket_event := Socket_Event_Closed\<rparr>"]] by auto
  have "N \<and> body w'' = Inl e \<or> keeps rank {(c, md_name md)} c w' (body w'')"
    if "td_socket_event d = Socket_Event_Opened"
    using body [OF tcp_inside_grows [OF ins w''(2,3)] w''(4) that]
    by (blast intro: keeps_grows w''(3))
  with w' w''(1) show "N \<and> rbind (tcp_get md c w') (\<lambda>(d, w).
      if td_socket_event d \<noteq> Socket_Event_Opened then Inr w
      else rbind (tcp_modify md c (\<lambda>d. d\<lparr>td_socket_event := Socket_Event_Closed\<rparr>) w) body) = Inl e \<or>
    keeps rank {(c, md_name md)} c w' (rbind (tcp_get md c w') (\<lambda>(d, w).
      if td_socket_event d \<noteq> Socket_Event_Opened then Inr w
      else rbind (tcp_modify md c (\<lambda>d. d\<lparr>td_socket_event := Socket_Event_Closed\<rparr>) w) body))"
    by (simp add: tcp_get_at [OF d'])
qed (use h in \<open>simp_all add: tcp_handler_def\<close>)

lemmas tcp_event_keeps = tcp_event_cases [where N = False, simplified]

lemma cancel_time_out_timer_at:
  "tcp_at w c md d \<Longrightarrow> cancel_time_out_timer env md c w =
     Inr (\<not> ec_set (ev_timer_cancel env (Module_timer c (md_name md) 0)), w)"
  by (simp add: cancel_time_out_timer_def tcp_timer_at)

lemma tcp_failed_keeps:
  assumes ins: "tcp_inside rank n md c w"
    and failed: "keeps rank {(c, md_name md)} c w (on_failed w)"
  shows "keeps rank {(c, md_name md)} c w (tcp_failed env (module_run env) n md on_failed c ec w)"
proof -
  obtain d where d: "tcp_at w c md d" using tcp_inside_at [OF ins] by blast
  have "keeps rank {(c, md_name md)} c w (rbind (on_failed w) (\<lambda>w. resume (module_run env) n md Mod_Failed c w))"
    by (rule keeps_bind [OF failed]) (blast intro: tcp_inside_resume tcp_inside_grows [OF ins])
  then show ?thesis
    using tcp_inside_resume [OF ins] ins
    by (simp add: tcp_failed_def cancel_time_out_timer_at [OF d] tcp_inside_def)
qed

lemma tcp_failed_cases:
  assumes ins: "tcp_inside rank n md c w"
    and "N \<and> on_failed w = Inl e \<or> keeps rank {(c, md_name md)} c w (on_failed w)"
  shows "N \<and> tcp_failed env (module_run env) n md on_failed c ec w = Inl e \<or>
    keeps rank {(c, md_name md)} c w (tcp_failed env (module_run env) n md on_failed c ec w)"
  using assms(2)
proof
  obtain d where d: "tcp_at w c md d" using tcp_inside_at [OF ins] by blast
  assume "N \<and> on_failed w = Inl e"
  then show ?thesis
    using tcp_inside_resume [OF ins] ins
    by (simp add: tcp_failed_def cancel_time_out_timer_at [OF d] tcp_inside_def)
qed (blast intro: tcp_failed_keeps [OF ins])

lemma tcp_failed_app_keeps:
  "tcp_inside rank n md c w \<Longrightarrow>
   keeps rank {(c, md_name md)} c w (tcp_failed env (module_run env) n md (app_do c g) c ec w)"
  by (rule tcp_failed_keeps) (auto simp: tcp_inside_def intro: app_do_keeps)

text \<open>
  The one thing a handler cannot do without: while its socket operation is open, the module
  still has its client. A module that ran again for the same context and found no server has
  lost it.
\<close>

definition orphaned :: "'d module \<Rightarrow> ctx_id \<Rightarrow> 'd world \<Rightarrow> bool" where
  "orphaned md c w \<longleftrightarrow>
     (\<exists>d. tcp_at w c md d \<and> td_socket_event d = Socket_Event_Opened \<and> td_client d = None)"

lemma orphaned_iff:
  "tcp_at w c md d \<Longrightarrow> td_socket_event d = Socket_Event_Opened \<Longrightarrow>
     orphaned md c w \<longleftrightarrow> td_client d = None"
  by (auto simp: orphaned_def)

lemma send_with_timer_null:
  assumes run: "running rank L c w" and reg: "registered (w_fsm w) md" and cl: "is_tcp (md_class md)"
    and d: "tcp_at w c md d" and "td_client d = None"
  shows "send_with_timer md h c w = Inl Null_deref"
proof -
  let ?w = "start_op (Async_wait (Module_timer c (md_name md) 0) (tm_get_time_out_ms h)
              (On_handle_time_out md c)) w"
  have "running rank L c ?w" using run reg cl by (auto intro!: running_start_op running_bound)
  from returnsD [OF app_call_running [OF this, where g = "tm_get_request h"]]
  obtain req w1 where "app_call c (tm_get_request h) ?w = Inr (req, w1)" "tcp_at w1 c md d"
    using d by auto
  then show ?thesis
    using assms(5) by (simp add: send_with_timer_def tcp_timer_at [OF d] send_request_def
        tcp_the_client_def tcp_get_at)
qed

lemma on_connect_cases:
  assumes h: "tcp_handler rank n md c w"
  shows "orphaned md c w \<and> on_connect env (module_run env) n md h c ip port ec w = Inl Null_deref \<or>
    keeps rank {} c w (on_connect env (module_run env) n md h c ip port ec w)"
proof -
  obtain d where d: "tcp_at w c md d" using h tcp_at_exists unfolding tcp_handler_def by blast
  show ?thesis
    unfolding on_connect_def
  proof (rule tcp_event_cases [OF h d])
    fix w' assume ins: "tcp_inside rank n md c w'" and op: "td_socket_event d = Socket_Event_Opened"
      and d': "tcp_at w' c md (d\<lparr>td_locked := True, td_socket_event := Socket_Event_Closed\<rparr>)"
    let ?L = "{(c, md_name md)}"
    let ?send = "rbind (send_with_timer md h c w') (\<lambda>(_, w). Inr w)"
    from ins have run: "running rank ?L c w'" and reg: "registered (w_fsm w') md"
      and cl: "is_tcp (md_class md)" by (simp_all add: tcp_inside_def)
    have "orphaned md c w \<and> ?send = Inl Null_deref \<or> keeps rank ?L c w' ?send"
    proof (cases "td_client d")
      case None
      with send_with_timer_null [OF run reg cl d'] orphaned_iff [OF d op] show ?thesis by simp
    next
      case (Some i)
      then have "gives rank ?L c w' (\<lambda>_. True) (send_with_timer md h c w')"
        by (intro send_with_timer_gives [OF run reg cl d', where i = i]) simp
      from returnsD [OF this] show ?thesis by auto
    qed
    with run tcp_failed_app_keeps [OF ins]
    show "orphaned md c w \<and> (if ec_set ec
        then tcp_failed env (module_run env) n md (app_do c (tm_on_connect_failed h ip port)) c ec w'
        else rbind (cancel_time_out_timer env md c w') (\<lambda>(ok, w). if \<not> ok then Inr w
          else rbind (send_with_timer md h c w) (\<lambda>(_, w). Inr w))) = Inl Null_deref \<or>
      keeps rank ?L c w' (if ec_set ec
        then tcp_failed env (module_run env) n md (app_do c (tm_on_connect_failed h ip port)) c ec w'
        else rbind (cancel_time_out_timer env md c w') (\<lambda>(ok, w). if \<not> ok then Inr w
          else rbind (send_with_timer md h c w) (\<lambda>(_, w). Inr w)))"
      by (simp add: cancel_time_out_timer_at [OF d'])
  qed
qed

text \<open>Starting the next read on the client's socket.\<close>

lemma open_read_cases:
  fixes len
  assumes ins: "tcp_inside rank n md c w" and d: "tcp_at w c md d"
    and hdl: "handler_ok (w_fsm w) (dom (w_contexts w)) hdl"
  defines "r \<equiv> rbind (tcp_the_client md c w) (\<lambda>(i, w).
      tcp_modify md c (\<lambda>d. d\<lparr>td_socket_event := Socket_Event_Opened\<rparr>)
        (start_op (Async_read (Client_socket i) len hdl) w))"
  shows "td_client d = None \<and> r = Inl Null_deref \<or> keeps rank {(c, md_name md)} c w r"
proof (cases "td_client d")
  case None
  then show ?thesis by (simp add: r_def tcp_the_client_def tcp_get_at [OF d])
next
  case (Some i)
  from ins have run: "running rank {(c, md_name md)} c w" and reg: "registered (w_fsm w) md"
    and cl: "is_tcp (md_class md)" by (simp_all add: tcp_inside_def)
  let ?w = "start_op (Async_read (Client_socket i) len hdl) w"
  have w: "running rank {(c, md_name md)} c ?w" by (rule running_start_op [OF run]) (simp add: hdl)
  have "keeps rank {(c, md_name md)} c w (tcp_modify md c (\<lambda>d. d\<lparr>td_socket_event := Socket_Event_Opened\<rparr>) ?w)"
    by (rule returns_mono [OF tcp_modify_at [OF w _ cl, of d]]) (use reg d in auto)
  then show ?thesis by (simp add: r_def tcp_the_client_at [OF d Some])
qed

lemma on_write_req_cases:
  assumes h: "tcp_handler rank n md c w"
  shows "orphaned md c w \<and> on_write_req env (module_run env) n md h c ec w = Inl Null_deref \<or>
    keeps rank {} c w (on_write_req env (module_run env) n md h c ec w)"
proof -
  obtain d where d: "tcp_at w c md d" using h tcp_at_exists unfolding tcp_handler_def by blast
  show ?thesis
    unfolding on_write_req_def Let_def
  proof (rule tcp_event_cases [OF h d])
    fix w' assume ins: "tcp_inside rank n md c w'" and op: "td_socket_event d = Socket_Event_Opened"
      and d': "tcp_at w' c md (d\<lparr>td_locked := True, td_socket_event := Socket_Event_Closed\<rparr>)"
    let ?len = "tm_get_resp_head_len h"
    have hok: "handler_ok (w_fsm w') (dom (w_contexts w')) (On_recv_resp_head md c ?len)"
      using ins by (auto simp: tcp_inside_def intro: running_bound)
    show "orphaned md c w \<and> (if ec_set ec
        then tcp_failed env (module_run env) n md (app_do c (tm_on_send_req_failed h)) c ec w'
        else rbind (tcp_the_client md c w') (\<lambda>(i, w).
            tcp_modify md c (\<lambda>d. d\<lparr>td_socket_event := Socket_Event_Opened\<rparr>)
              (start_op (Async_read (Client_socket i) ?len (On_recv_resp_head md c ?len)) w))) = Inl Null_deref \<or>
      keeps rank {(c, md_name md)} c w' (if ec_set ec
        then tcp_failed env (module_run env) n md (app_do c (tm_on_send_req_failed h)) c ec w'
        else rbind (tcp_the_client md c w') (\<lambda>(i, w).
            tcp_modify md c (\<lambda>d. d\<lparr>td_socket_event := Socket_Event_Opened\<rparr>)
              (start_op (Async_read (Client_socket i) ?len (On_recv_resp_head md c ?len)) w)))"
      using open_read_cases [OF ins d' hok, of ?len] tcp_failed_app_keeps [OF ins] orphaned_iff [OF d op]
      by simp
  qed
qed

lemma close_client_cases:
  fixes g
  assumes ins: "tcp_inside rank n md c w" and d: "tcp_at w c md d"
  defines "f \<equiv> \<lambda>w. rbind (tcp_close_client md c w) (\<lambda>w. app_do c g w)"
  shows "td_client d = None \<and> f w = Inl Null_deref \<or> keeps rank {(c, md_name md)} c w (f w)"
proof (cases "td_client d")
  case None
  then show ?thesis by (simp add: f_def tcp_close_client_def tcp_the_client_def tcp_get_at [OF d])
next
  case (Some i)
  have run: "running rank {(c, md_name md)} c w" using ins by (simp add: tcp_inside_def)
  have "keeps rank {(c, md_name md)} c w (f w)"
    unfolding f_def
  proof (rule keeps_bind)
    show "keeps rank {(c, md_name md)} c w (tcp_close_client md c w)"
      using run by (simp add: tcp_close_client_def tcp_the_client_at [OF d Some] running_clients)
  qed (rule app_do_keeps)
  then show ?thesis ..
qed

text \<open>What \<open>on_recv_resp_head\<close> does once the application has judged the head.\<close>

lemma after_head_cases:
  fixes ok env h ec
  assumes ins: "tcp_inside rank n md c w" and d: "tcp_at w c md d"
  defines "r \<equiv> if \<not> ok then
           tcp_failed env (module_run env) n md
             (\<lambda>w. rbind (tcp_close_client md c w) (\<lambda>w. app_do c (tm_on_read_head_failed h) w)) c ec w
         else
           rbind (app_get c (tm_get_resp_body_len h) w) (\<lambda>body_len.
           rbind (tcp_the_client md c w) (\<lambda>(i, w).
             tcp_modify md c (\<lambda>d. d\<lparr>td_socket_event := Socket_Event_Opened\<rparr>)
               (start_op (Async_read (Client_socket i) body_len
                            (On_recv_resp_body md c body_len)) w)))"
  shows "td_client d = None \<and> r = Inl Null_deref \<or> keeps rank {(c, md_name md)} c w r"
proof (cases ok)
  case True
  obtain cx a where cx: "w_contexts w c = Some cx" "cx_data cx = Some a"
    using ins unfolding tcp_inside_def by (blast elim: runningE)
  have "handler_ok (w_fsm w) (dom (w_contexts w)) (On_recv_resp_body md c k)" for k
    using ins by (auto simp: tcp_inside_def intro: running_bound)
  from open_read_cases [OF ins d this] cx True show ?thesis
    by (simp add: r_def app_get_def get_ctx_def)
next
  case False
  then have r: "r = tcp_failed env (module_run env) n md
      (\<lambda>w. rbind (tcp_close_client md c w) (\<lambda>w. app_do c (tm_on_read_head_failed h) w)) c ec w"
    by (simp add: r_def)
  show ?thesis
    unfolding r by (rule tcp_failed_cases [OF ins]) (rule close_client_cases [OF ins d])
qed

lemma on_recv_resp_head_cases:
  assumes h: "tcp_handler rank n md c w"
  shows "orphaned md c w \<and> on_recv_resp_head env (module_run env) n md h c buf len ec w = Inl Null_deref \<or>
    keeps rank {} c w (on_recv_resp_head env (module_run env) n md h c buf len ec w)"
proof -
  obtain d where d: "tcp_at w c md d" using h tcp_at_exists unfolding tcp_handler_def by blast
  show ?thesis
    unfolding on_recv_resp_head_def
  proof (rule tcp_event_cases [OF h d])
    fix w' assume ins: "tcp_inside rank n md c w'" and op: "td_socket_event d = Socket_Event_Opened"
      and d': "tcp_at w' c md (d\<lparr>td_locked := True, td_socket_event := Socket_Event_Closed\<rparr>)"
    let ?judge = "if ec_set ec then Inr (False, w') else app_call c (tm_on_read_head_impl h buf len) w'"
    have run: "running rank {(c, md_name md)} c w'" using ins by (simp add: tcp_inside_def)
    have "returns ?judge (\<lambda>(ok, w''). running rank {(c, md_name md)} c w'' \<and> mdata w'' = mdata w' \<and> grows w' w'')"
      using run app_call_running [OF run, where g = "tm_on_read_head_impl h buf len"] by simp
    then obtain ok w'' where w'': "?judge = Inr (ok, w'')" "running rank {(c, md_name md)} c w''"
      "mdata w'' = mdata w'" "grows w' w''" by (auto dest!: returnsD)
    have ins2: "tcp_inside rank n md c w''" by (rule tcp_inside_grows [OF ins w''(2,4)])
    have d2: "tcp_at w'' c md (d\<lparr>td_locked := True, td_socket_event := Socket_Event_Closed\<rparr>)"
      using d' w''(3) by simp
    show "orphaned md c w \<and> rbind ?judge (\<lambda>(ok, w). if \<not> ok then
           tcp_failed env (module_run env) n md
             (\<lambda>w. rbind (tcp_close_client md c w) (\<lambda>w. app_do c (tm_on_read_head_failed h) w)) c ec w
         else
           rbind (app_get c (tm_get_resp_body_len h) w) (\<lambda>body_len.
           rbind (tcp_the_client md c w) (\<lambda>(i, w).
             tcp_modify md c (\<lambda>d. d\<lparr>td_socket_event := Socket_Event_Opened\<rparr>)
               (start_op (Async_read (Client_socket i) body_len
                            (On_recv_resp_body md c body_len)) w)))) = Inl Null_deref \<or>
      keeps rank {(c, md_name md)} c w' (rbind ?judge (\<lambda>(ok, w). if \<not> ok then
           tcp_failed env (module_run env) n md
             (\<lambda>w. rbind (tcp_close_client md c w) (\<lambda>w. app_do c (tm_on_read_head_failed h) w)) c ec w
         else
           rbind (app_get c (tm_get_resp_body_len h) w) (\<lambda>body_len.
           rbind (tcp_the_client md c w) (\<lambda>(i, w).
             tcp_modify md c (\<lambda>d. d\<lparr>td_socket_event := Socket_Event_Opened\<rparr>)
               (start_op (Async_read (Client_socket i) body_len
                            (On_recv_resp_body md c body_len)) w)))))"
      using after_head_cases [OF ins2 d2, of ok env h ec] orphaned_iff [OF d op]
      unfolding w''(1) rbind_Inr prod.case by (auto intro: keeps_grows [OF _ w''(4)])
  qed
qed

lemma tcp_give_client_keeps:
  assumes ins: "tcp_inside rank n md c w"
  shows "keeps rank {(c, md_name md)} c w (tcp_give_client env md pool c w)"
proof -
  let ?L = "{(c, md_name md)}"
  obtain d where d: "tcp_at w c md d" using tcp_inside_at [OF ins] by blast
  obtain p hp where rec: "recollect env (td_client d) (w_pools w pool) (w_clients w) = (p, hp)" by fastforce
  from ins have run: "running rank ?L c w" and reg: "registered (w_fsm w) md"
    and cl: "is_tcp (md_class md)" by (simp_all add: tcp_inside_def)
  have no: "None \<notin> set (pool_deque (w_pools w pool) k)" for k
    using run by (simp add: running_def winv_def)
  have "None \<notin> set (pool_deque p k)" for k
    using rec no [of k] by (cases "td_client d") (auto simp: recollect_deque recollect_def)
  from running_pools [OF run this, where i = pool and hp = hp]
  have w1: "running rank ?L c (w\<lparr>w_pools := (w_pools w)(pool := p), w_clients := hp\<rparr>)" .
  from returns_mono [OF tcp_modify_at [OF w1 _ cl, of d "\<lambda>d. d\<lparr>td_client := None\<rparr>"]] reg d rec
  show ?thesis by (simp add: tcp_give_client_def tcp_get_at [OF d])
qed

lemma on_recv_resp_body_keeps:
  assumes h: "tcp_handler rank n md c w"
  shows "keeps rank {} c w (on_recv_resp_body env (module_run env) n md pool h c buf len ec w)"
proof -
  obtain d where d: "tcp_at w c md d" using h tcp_at_exists unfolding tcp_handler_def by blast
  show ?thesis
    unfolding on_recv_resp_body_def
  proof (rule tcp_event_keeps [OF h d])
    fix w' assume ins: "tcp_inside rank n md c w'"
      and d': "tcp_at w' c md (d\<lparr>td_locked := True, td_socket_event := Socket_Event_Closed\<rparr>)"
    let ?L = "{(c, md_name md)}"
    have run: "running rank ?L c w'" using ins by (simp add: tcp_inside_def)
    have "keeps rank ?L c w' (rbind (tcp_give_client env md pool c w') (\<lambda>w.
             rbind (app_call c (tm_on_read_body_impl h buf len) w) (\<lambda>(ret, w).
               resume (module_run env) n md (if ret then Mod_Succeed else Mod_Failed) c w)))"
    proof (rule keeps_bind [OF tcp_give_client_keeps [OF ins]])
      fix w1 assume w1: "running rank ?L c w1" "grows w' w1"
      show "keeps rank ?L c w1 (rbind (app_call c (tm_on_read_body_impl h buf len) w1) (\<lambda>(ret, w).
               resume (module_run env) n md (if ret then Mod_Succeed else Mod_Failed) c w))"
        by (rule gives_bind_keeps [OF app_call_gives [OF w1(1)]], unfold prod.case, rule tcp_inside_resume)
          (blast intro: tcp_inside_grows [OF ins] grows_trans [OF w1(2)])
    qed
    with run show "keeps rank ?L c w' (if ec_set ec
        then tcp_failed env (module_run env) n md (app_do c (tm_on_read_body_failed h)) c ec w'
        else rbind (cancel_time_out_timer env md c w') (\<lambda>(ok, w). if \<not> ok then Inr w
          else rbind (tcp_give_client env md pool c w) (\<lambda>w.
             rbind (app_call c (tm_on_read_body_impl h buf len) w) (\<lambda>(ret, w).
               resume (module_run env) n md (if ret then Mod_Succeed else Mod_Failed) c w))))"
      using tcp_failed_app_keeps [OF ins] by (simp add: cancel_time_out_timer_at [OF d'])
  qed
qed

lemma tcp_cancel_client_keeps:
  assumes "running rank L c w" and "tcp_at w c md d"
  shows "keeps rank L c w (tcp_cancel_client md c w)"
  using assms by (simp add: tcp_cancel_client_at returns_def split: option.split)

lemma tcp_time_out_keeps:
  assumes h: "tcp_handler rank n md c w"
  shows "keeps rank {} c w (in_tcp_lock md c (\<lambda>w.
    if ec_set ec then Inr w else rbind (tcp_cancel_client md c w) (\<lambda>w. app_do c g w)) w)"
proof -
  obtain d where d: "tcp_at w c md d" using h tcp_at_exists unfolding tcp_handler_def by blast
  show ?thesis
  proof (rule in_tcp_lock_keeps [OF _ _ _ _ d])
    fix w' assume w': "running rank {(c, md_name md)} c w'" "tcp_at w' c md (d\<lparr>td_locked := True\<rparr>)"
    show "keeps rank {(c, md_name md)} c w'
      (if ec_set ec then Inr w' else rbind (tcp_cancel_client md c w') (\<lambda>w. app_do c g w))"
      using keeps_bind [OF tcp_cancel_client_keeps [OF w'] app_do_keeps, of "\<lambda>_. g"] w'(1) by simp
  qed (use h in \<open>simp_all add: tcp_handler_def\<close>)
qed

section \<open>Every completion\<close>

text \<open>The handlers of a \<open>TcpModule\<close> that use the module's client.\<close>

fun orphans :: "'d handler \<Rightarrow> 'd world \<Rightarrow> bool" where
  "orphans (On_connect md c ip port) w = orphaned md c w"
| "orphans (On_write_req md c req) w = orphaned md c w"
| "orphans (On_recv_resp_head md c len) w = orphaned md c w"
| "orphans _ w = False"

text \<open>
  The completions in which an exception escapes: a timer that guards the connection has expired and
  the socket cannot be cancelled.
\<close>

fun cancel_throws :: "asio_env \<Rightarrow> error_code \<Rightarrow> 'd handler \<Rightarrow> 'd world \<Rightarrow> bool" where
  "cancel_throws env ec (On_read_time_out flag md c) w = (\<not> ec_set ec \<and> conn_cancel_fails env c w)"
| "cancel_throws env ec (On_write_time_out md c) w = (\<not> ec_set ec \<and> conn_cancel_fails env c w)"
| "cancel_throws env ec _ w = False"

lemma quiet_no_throw [simp]: "\<not> cancel_throws quiet_env ec hdl w"
  by (cases hdl) (simp_all add: quiet_env_def)

lemma request_classE: "is_request k \<Longrightarrow> (\<And>h. k = RequestModule h \<Longrightarrow> P) \<Longrightarrow> P"
  by (cases k) auto

lemma response_classE: "is_response k \<Longrightarrow> (\<And>h. k = ResponseModule h \<Longrightarrow> P) \<Longrightarrow> P"
  by (cases k) auto

lemma tcp_classE: "is_tcp k \<Longrightarrow> (\<And>p h. k = TcpModule p h \<Longrightarrow> P) \<Longrightarrow> P"
  by (cases k) auto

lemma bound_running:
  "winv rank {} w \<Longrightarrow> bound_to P (w_fsm w) (dom (w_contexts w)) md c \<Longrightarrow>
     running rank {} c w \<and> registered (w_fsm w) md \<and> P (md_class md)"
  by (simp add: bound_to_def running_def)

lemma keeps_winv:
  "keeps rank {} c w r \<Longrightarrow> returns r (\<lambda>w'. winv rank {} w' \<and> same_app w w')"
  by (erule returns_mono) (auto simp: running_def grows_def)

lemma start_accept_winv: "winv rank L w \<Longrightarrow> winv rank L (start_accept w)"
  by (simp add: start_accept_def Let_def start_op_def winv_def)

lemma on_accepted_returns:
  assumes inv: "winv rank {} w" and "stack_ok rank n (w_fsm w)"
  shows "returns (on_accepted (module_run env) n conn ec w) (\<lambda>w'. winv rank {} w' \<and> same_app w w')"
proof -
  obtain c w1 where new: "context_new conn w = (c, w1)" by fastforce
  from assms(2) have n: "2 \<le> n" by (simp add: stack_ok_def)
  from returnsD [OF server.new_request_returns [OF inv new n, of env]]
  obtain w2 w3 where "context_init c w1 = Inr w2" "handle_request (module_run env) n c w2 = Inr w3"
    "winv rank {} w3" "grows w w3" by auto
  with new show ?thesis
    by (auto simp: on_accepted_def start_accept_winv) (simp_all add: start_accept_def Let_def start_op_def grows_def)
qed

lemma dispatch_cases:
  assumes inv: "winv rank {} w" and st: "stack_ok rank n (w_fsm w)"
    and hok: "handler_ok (w_fsm w) (dom (w_contexts w)) hdl"
  shows "if cancel_throws env ec hdl w then dispatch env n hdl ec buf w = Inl Uncaught_exception
    else orphans hdl w \<and> dispatch env n hdl ec buf w = Inl Null_deref \<or>
      returns (dispatch env n hdl ec buf w) (\<lambda>w'. winv rank {} w' \<and> same_app w w')"
proof -
  have req: "\<exists>h. md_class md = RequestModule h \<and> running rank {} c w \<and> registered (w_fsm w) md"
    if "bound_to is_request (w_fsm w) (dom (w_contexts w)) md c" for md c
    using bound_running [OF inv that] by (auto elim: request_classE)
  have resp: "\<exists>h. md_class md = ResponseModule h \<and> running rank {} c w \<and> registered (w_fsm w) md"
    if "bound_to is_response (w_fsm w) (dom (w_contexts w)) md c" for md c
    using bound_running [OF inv that] by (auto elim: response_classE)
  have tcp: "\<exists>p h. md_class md = TcpModule p h \<and> tcp_handler rank n md c w"
    if "bound_to is_tcp (w_fsm w) (dom (w_contexts w)) md c" for md c
    using bound_running [OF inv that] st by (auto simp: tcp_handler_def elim: tcp_classE)
  have res: "returns (resume (module_run env) n md s c w) (\<lambda>w'. winv rank {} w' \<and> same_app w w')"
    if "bound_to P (w_fsm w) (dom (w_contexts w)) md c" for P md c s
    using bound_running [OF inv that] by (intro keeps_winv [where c = c]) (auto intro: resume_keeps st)
  show ?thesis
  proof (cases hdl)
    case (On_read_version md c len)
    with req [of md c] hok st show ?thesis by (auto intro!: keeps_winv [OF on_read_version_keeps])
  next
    case (On_read_head md c len)
    with req [of md c] hok st show ?thesis by (auto intro!: keeps_winv [OF on_read_head_keeps])
  next
    case (On_read_body md c len)
    with req [of md c] hok st show ?thesis by (auto intro!: keeps_winv [OF on_read_body_keeps])
  next
    case (On_read_time_out flag md c)
    with req [of md c] hok obtain h where "md_class md = RequestModule h" "running rank {} c w" by auto
    with On_read_time_out on_read_time_out_cases [of rank c w ec env h flag] show ?thesis
      by (auto intro: keeps_winv split: if_splits)
  next
    case (On_write_resp md c)
    with resp [of md c] hok st show ?thesis by (auto intro!: keeps_winv [OF on_write_resp_keeps])
  next
    case (On_write_time_out md c)
    with resp [of md c] hok obtain h where "md_class md = ResponseModule h" "running rank {} c w" by auto
    with On_write_time_out on_write_time_out_cases [of rank c w ec env h] show ?thesis
      by (auto intro: keeps_winv split: if_splits)
  next
    case (On_connect md c ip port)
    with tcp [of md c] hok obtain p h where "md_class md = TcpModule p h" "tcp_handler rank n md c w" by auto
    with On_connect on_connect_cases [of rank n md c w env h] show ?thesis
      by simp (blast intro: keeps_winv)
  next
    case (On_handle_connect_time_out md c ip port)
    with tcp [of md c] hok show ?thesis
      by (auto simp: on_handle_connect_time_out_def intro!: keeps_winv [OF tcp_time_out_keeps])
  next
    case (On_write_req md c req)
    with tcp [of md c] hok obtain p h where "md_class md = TcpModule p h" "tcp_handler rank n md c w" by auto
    with On_write_req on_write_req_cases [of rank n md c w env h] show ?thesis
      by simp (blast intro: keeps_winv)
  next
    case (On_recv_resp_head md c len)
    with tcp [of md c] hok obtain p h where "md_class md = TcpModule p h" "tcp_handler rank n md c w" by auto
    with On_recv_resp_head on_recv_resp_head_cases [of rank n md c w env h] show ?thesis
      by simp (blast intro: keeps_winv)
  next
    case (On_recv_resp_body md c len)
    with tcp [of md c] hok show ?thesis by (auto intro!: keeps_winv [OF on_recv_resp_body_keeps])
  next
    case (On_handle_time_out md c)
    with tcp [of md c] hok show ?thesis
      by (auto simp: on_handle_time_out_def intro!: keeps_winv [OF tcp_time_out_keeps])
  next
    case (On_forked md c s)
    with res hok show ?thesis by (auto simp: on_forked_def)
  next
    case (On_joined md c s)
    with res hok show ?thesis by (auto simp: on_joined_def)
  next
    case (On_accepted conn)
    with on_accepted_returns [OF inv st] show ?thesis by simp
  qed
qed

lemma remove_op_winv: "winv rank {} w \<Longrightarrow> winv rank {} (remove_op i w)"
  by (auto simp: winv_def remove_op_def dest: in_set_takeD in_set_dropD)

lemma orphans_remove_op [simp]: "orphans hdl (remove_op i w) = orphans hdl w"
  by (cases hdl) (simp_all add: orphaned_def remove_op_def mdata_def)

lemma cancel_throws_remove_op [simp]: "cancel_throws env ec hdl (remove_op i w) = cancel_throws env ec hdl w"
  by (cases hdl) (simp_all add: remove_op_def)

lemma complete_cases:
  assumes inv: "winv rank {} w" and st: "stack_ok rank n (w_fsm w)" and i: "i < length (w_pending w)"
  shows "if cancel_throws env ec (op_handler (w_pending w ! i)) w
    then complete env n i ec buf w = Inl Uncaught_exception
    else orphans (op_handler (w_pending w ! i)) w \<and> complete env n i ec buf w = Inl Null_deref \<or>
      returns (complete env n i ec buf w) (\<lambda>w'. winv rank {} w' \<and> same_app w w')"
proof -
  have fsm: "w_fsm (remove_op i w) = w_fsm w" "w_contexts (remove_op i w) = w_contexts w"
    "w_fsm_data_factory (remove_op i w) = w_fsm_data_factory w"
    "w_fsm_data_reset (remove_op i w) = w_fsm_data_reset w"
    by (simp_all add: remove_op_def)
  have "handler_ok (w_fsm w) (dom (w_contexts w)) (op_handler (w_pending w ! i))"
    using inv i by (simp add: winv_def)
  then show ?thesis
    unfolding complete_def
    using dispatch_cases [OF remove_op_winv [OF inv, of i], unfolded fsm, OF st, of "op_handler (w_pending w ! i)" env ec buf]
    by (simp split: if_splits)
qed

section \<open>The event loop as a machine\<close>

lemma winv_sweep:
  assumes inv: "winv rank L w" and it: "iterates ks (w_pools w p)"
  shows "\<exists>w'. sweep_pool env ks p w = Inr w' \<and> winv rank L w' \<and> same_app w w'"
proof -
  have no: "None \<notin> set (pool_deque (w_pools w p) k)" for k using inv by (simp add: winv_def)
  obtain p' hp where p': "check_clients env ks (w_pools w p) (w_clients w) = Inr (p', hp)"
    "\<And>k. None \<notin> set (pool_deque p' k)"
    by (rule check_clients_filter [OF no it, of env "w_clients w"]) (use no in auto)
  with inv show ?thesis by (simp add: sweep_pool_def winv_def)
qed

text \<open>
  The server when \<open>io_service::run\<close> begins: a well-formed machine, the factory registered, no
  request yet, empty pools, and only accepts pending. The stack has room for the machine.
\<close>

definition server_start :: "(string \<Rightarrow> nat) \<Rightarrow> nat \<Rightarrow> 'd world \<Rightarrow> bool" where
  "server_start rank n w \<longleftrightarrow>
     fsm_wf rank (w_fsm w) \<and> stack_ok rank n (w_fsm w) \<and> w_fsm_data_factory w \<noteq> None \<and>
     w_contexts w = Map.empty \<and> (\<forall>a \<in> set (w_pending w). \<exists>conn. op_handler a = On_accepted conn) \<and>
     (\<forall>p. pool_clients (w_pools w p) = {} \<and> pool_inv (w_pools w p) (w_clients w))"

definition server_inv :: "(string \<Rightarrow> nat) \<Rightarrow> nat \<Rightarrow> 'd world \<Rightarrow> bool" where
  "server_inv rank n w \<longleftrightarrow> winv rank {} w \<and> stack_ok rank n (w_fsm w)"

lemma server_start_inv: "server_start rank n w \<Longrightarrow> server_inv rank n w"
  by (auto simp: server_start_def server_inv_def winv_def pool_inv_def)

lemma server_step_inv:
  assumes inv: "server_inv rank n w" and step: "loop_step any_env n w w'"
  shows "server_inv rank n w'"
  using step
proof cases
  case (step_complete i env ec buf)
  then show ?thesis
    using complete_cases [of rank w n i env ec buf] inv by (auto simp: server_inv_def split: if_splits)
next
  case (step_sweep ks p env)
  then show ?thesis
    using winv_sweep [of rank "{}" w ks p env] inv by (auto simp: server_inv_def)
qed

interpretation server_machine: invariant "server_start rank n" "loop_step any_env n" "server_inv rank n" for rank n
  by unfold_locales (erule server_start_inv, erule (1) server_step_inv)

text \<open>
  C1: The server does not crash, with two exceptions that are pinned down. Let the machine be well-formed:
  each link leads to a registered module of lower rank (so there are no cycles), the start module is a
  \<open>RequestModule\<close>, the end module is set, no fork asks for more branches than it was constructed with; and
  let a data factory be registered. Then in every state the event loop can reach in any environment,
  whichever pending operation completes next and with whatever error code and bytes: an exception
  escapes exactly when the expired timer guards the client connection (a read or a write time-out)
  and \<open>socket().cancel()\<close> on that connection fails, which throws; and otherwise the handler returns,
  unless a \<open>TcpModule\<close> has lost its client because it was run a second time for the same request while
  its socket operation was open, when a handler may dereference a null client. In no case is there a
  null or wrong-class module data, an index outside a fork's timer array, a mutex locked twice, an
  uninitialised pointer, or more stack than the rank of the machine allows.
\<close>

theorem server_does_not_crash:
  assumes "reach (server_start rank n) (loop_step any_env n) w" and "i < length (w_pending w)"
  shows "if cancel_throws env ec (op_handler (w_pending w ! i)) w
    then complete env n i ec buf w = Inl Uncaught_exception
    else (\<exists>w'. complete env n i ec buf w = Inr w') \<or>
      (orphans (op_handler (w_pending w ! i)) w \<and> complete env n i ec buf w = Inl Null_deref)"
  using complete_cases [OF _ _ assms(2), of rank n env ec buf] server_machine.inv_reach [OF assms(1)]
  by (auto simp: server_inv_def dest: returnsD split: if_splits)

text \<open>
  Sweeping a connection pool never fails in a reachable state, whatever the order in which
  the pool's peers are visited: no pool ever holds a null client.
\<close>

lemma sweep_does_not_crash:
  assumes "reach (server_start rank n) (loop_step any_env n) w" and "iterates ks (w_pools w p)"
  shows "\<exists>w'. sweep_pool env ks p w = Inr w'"
  using winv_sweep [OF _ assms(2), of rank "{}" env] server_machine.inv_reach [OF assms(1)]
  by (auto simp: server_inv_def)

text \<open>
  C23: Between two handlers no mutex is held: every \<open>TcpModule::ModuleData::Lock\<close> that a handler
  takes is released when it returns, on every path, so no handler ever waits for one that has
  ended. In every context every registered module also finds data of its own class, and every
  pending operation belongs to a registered module and an existing context.
\<close>

theorem quiescent_server_state:
  assumes "reach (server_start rank n) (loop_step any_env n) w"
  shows "(\<forall>c m d. mdata w c m = Some (Some (Tcp_data d)) \<longrightarrow> \<not> td_locked d) \<and>
     (\<forall>c md. w_contexts w c \<noteq> None \<and> registered (w_fsm w) md \<longrightarrow> data_ok md (mdata w c (md_name md))) \<and>
     (\<forall>a \<in> set (w_pending w). handler_ok (w_fsm w) (dom (w_contexts w)) (op_handler a))"
proof -
  have inv: "winv rank {} w" using server_machine.inv_reach [OF assms] by (simp add: server_inv_def)
  have "\<not> td_locked d" if md: "mdata w c m = Some (Some (Tcp_data d))" for c m d
  proof -
    have "running rank {} c w" using inv mdata_ctxD [OF md] by (auto simp: running_def)
    from running_locked [OF this md] show ?thesis by simp
  qed
  moreover have "data_ok md (mdata w c (md_name md))"
    if "w_contexts w c \<noteq> None" "registered (w_fsm w) md" for c md
    by (rule running_data [OF _ that(2)]) (use inv that(1) in \<open>auto simp: running_def\<close>)
  ultimately show ?thesis using inv by (auto simp: winv_def)
qed


end
