(* ===== verification/Server_Behaviour.thy ===== *)
theory Server_Behaviour
  imports Server_Safety
begin

text \<open>
  How requests follow each other on a connection, and what time-outs do: the end of a request
  starts the next one on the same connection unless the context is marked for exit, and the
  time-out handlers only cancel, they never move the machine.
\<close>

section \<open>Keeping a connection alive\<close>

text \<open>The two operations a request begins with: the version's timer and its read.\<close>

definition first_ops :: "'d module \<Rightarrow> 'd request_hooks \<Rightarrow> ctx_id \<Rightarrow> conn_id \<Rightarrow> u32 \<Rightarrow> 'd async_op list" where
  "first_ops md h c conn len =
     [Async_wait (Module_timer c (md_name md) 0) (rq_get_read_version_time_out_ms h) (On_read_time_out 1 md c),
      Async_read (Conn_socket conn) len (On_read_version md c len)]"

lemma request_run_first_ops:
  assumes "w_contexts w c = Some cx" and "cx_data cx = Some d"
    and "mdata w c (md_name md) = Some (Some Request_data)"
  shows "request_run md h c s w =
    Inr (Mod_async, w\<lparr>w_pending := w_pending w @ first_ops md h c (cx_conn cx) (rq_get_version_len h d)\<rparr>)"
  using assms
  by (simp add: request_run_def get_ctx_def app_get_def request_timer_def get_module_data_present
      first_ops_def start_op_def)

text \<open>A new context for a connection, run up to its first reads.\<close>

lemma new_request:
  assumes wf: "fsm_wf rank (w_fsm w)" and fac: "w_fsm_data_factory w \<noteq> None"
    and new: "context_new conn w = (c, w1)" and n: "2 \<le> n"
  shows "\<exists>w' cx md h d. rbind (context_init c w1) (handle_request (module_run env) n c) = Inr w' \<and>
    c = w_next_ctx w \<and> w_contexts w' = (w_contexts w)(c \<mapsto> cx) \<and> begins conn w cx \<and> cx_data cx = Some d \<and>
    fsm_start_mod (w_fsm w) = Some md \<and> md_class md = RequestModule h \<and>
    w_pending w' = w_pending w @ first_ops md h c conn (rq_get_version_len h d)"
proof -
  from wf have reg: "registry_ok (fsm_mod_map (w_fsm w))" by (simp add: fsm_wf_def)
  from wf obtain md h where md: "fsm_start_mod (w_fsm w) = Some md" "registered (w_fsm w) md"
    "md_class md = RequestModule h" by (auto simp: fsm_wf_def start_ok_def)
  from context_start [OF reg fac new] obtain w2 w3 cx where
    w2: "context_init c w1 = Inr w2" "context_reset c w2 = Inr w3" and
    w3: "w3 = w\<lparr>w_contexts := (w_contexts w)(c \<mapsto> cx), w_next_ctx := Suc (w_next_ctx w),
                w_rand_pos := Suc (w_rand_pos w)\<rparr>" and
    cx: "c = w_next_ctx w" "begins conn w cx" by blast
  from cx(2) fac obtain d where d: "cx_data cx = Some d" "cx_conn cx = conn"
    by (auto simp: begins_def)
  have data: "mdata w3 c (md_name md) = Some (Some Request_data)"
    using cx(2) md(2,3) by (simp add: w3 mdata_def begins_def registered_def fresh_data_def)
  have n': "n = Suc (Suc (n - 2))" using n by simp
  define k where "k = n - 2"
  note n' = n' [folded k_def]
  define w' where "w' = w3\<lparr>w_pending := w_pending w3 @ first_ops md h c conn (rq_get_version_len h d)\<rparr>"
  have "module_run env md c Mod_start w3 =
      Inr (Mod_async, w3\<lparr>w_pending := w_pending w3 @ first_ops md h c conn (rq_get_version_len h d)\<rparr>)"
    using request_run_first_ops [OF _ d(1) data, of h Mod_start] d(2) by (simp add: module_run_def md(3) w3)
  then have run: "fsm_run (module_run env) (Suc k) md c Mod_start w3 = Inr w'"
    by (simp add: fsm_run.simps w'_def)
  have "w_fsm w3 = w_fsm w" by (simp add: w3)
  with run md(1) w2 have goes: "rbind (context_init c w1) (handle_request (module_run env) n c) = Inr w'"
    unfolding n' handle_request.simps by simp
  have "w_contexts w' = (w_contexts w)(c \<mapsto> cx)"
    and "w_pending w' = w_pending w @ first_ops md h c conn (rq_get_version_len h d)"
    by (simp_all add: w'_def w3)
  with goes cx d(1) md(1,3) show ?thesis by blast
qed

text \<open>
  C22: The end of a request decides what becomes of the connection. In every reachable state, for
  every context: when the context is marked for exit, \<open>_end_request\<close> does nothing, so nothing
  more is read from the connection; otherwise it makes exactly one new context on the same
  connection, in its starting state, and begins reading its request: one timer and one read of
  the length the application gives for the version. Nothing else is started.
\<close>

theorem end_request_keeps_alive:
  assumes "reach (server_start rank n) (loop_step any_env n) w" and "w_contexts w c = Some cx"
  shows "if cx_exit cx then end_request (module_run env) n c w = Inr w
    else \<exists>w' cx' md h d. end_request (module_run env) n c w = Inr w' \<and>
      w_contexts w' = (w_contexts w)(w_next_ctx w \<mapsto> cx') \<and> begins (cx_conn cx) w cx' \<and>
      cx_data cx' = Some d \<and> fsm_start_mod (w_fsm w) = Some md \<and> md_class md = RequestModule h \<and>
      w_pending w' = w_pending w @
        first_ops md h (w_next_ctx w) (cx_conn cx) (rq_get_version_len h d)"
proof -
  have inv: "winv rank {} w" "stack_ok rank n (w_fsm w)"
    using server_machine.inv_reach [OF assms(1)] by (simp_all add: server_inv_def)
  then obtain k where n: "n = Suc k" "2 \<le> k" by (cases n) (auto simp: stack_ok_def)
  obtain c' w1 where new: "context_new (cx_conn cx) w = (c', w1)" by fastforce
  have "fsm_wf rank (w_fsm w)" "w_fsm_data_factory w \<noteq> None" using inv(1) by (simp_all add: winv_def)
  from new_request [OF this new n(2), of env] obtain w' cx' md h d where
    *: "rbind (context_init c' w1) (handle_request (module_run env) k c') = Inr w'" and
    **: "c' = w_next_ctx w" "w_contexts w' = (w_contexts w)(c' \<mapsto> cx')" "begins (cx_conn cx) w cx'"
      "cx_data cx' = Some d" "fsm_start_mod (w_fsm w) = Some md" "md_class md = RequestModule h"
      "w_pending w' = w_pending w @ first_ops md h c' (cx_conn cx) (rq_get_version_len h d)" by blast
  have "end_request (module_run env) n c w = (if cx_exit cx then Inr w else Inr w')"
    using * new assms(2) by (simp add: n(1) end_request.simps context_is_exit_def get_ctx_def)
  with ** show ?thesis by (cases "cx_exit cx") auto
qed

section \<open>Time-outs\<close>

text \<open>
  Nothing but module data and application data changes: no operation is started, no context made
  or marked, no client moved.
\<close>

definition steady :: "'d world \<Rightarrow> 'd world \<Rightarrow> bool" where
  "steady w w' \<longleftrightarrow>
     w_pending w' = w_pending w \<and> w_next_ctx w' = w_next_ctx w \<and> w_next_conn w' = w_next_conn w \<and>
     w_pools w' = w_pools w \<and> w_clients w' = w_clients w \<and> w_next_client w' = w_next_client w \<and>
     (\<forall>c. map_option (\<lambda>cx. (cx_exit cx, cx_conn cx)) (w_contexts w' c) =
          map_option (\<lambda>cx. (cx_exit cx, cx_conn cx)) (w_contexts w c))"

lemma steady_refl [simp]: "steady w w"
  by (simp add: steady_def)

lemma steady_trans: "steady u v \<Longrightarrow> steady v w \<Longrightarrow> steady u w"
  by (simp add: steady_def)

text \<open>The application data of a context, and what a time-out handler leaves behind: the hook has run on
  the application data of the context, the sockets are cancelled, and all else is as it was.\<close>

definition app_data :: "'d world \<Rightarrow> ctx_id \<Rightarrow> 'd option option" where
  "app_data w c = map_option cx_data (w_contexts w c)"

definition told :: "ctx_id \<Rightarrow> ('d \<Rightarrow> 'd) \<Rightarrow> sock_id list \<Rightarrow> 'd world \<Rightarrow> 'd world \<Rightarrow> bool" where
  "told c g sks w w' \<longleftrightarrow>
     steady w w' \<and> mdata w' = mdata w \<and> w_cancelled w' = w_cancelled w @ sks \<and>
     app_data w' = (app_data w)(c := map_option (map_option g) (app_data w c))"

lemma told_id: "told c (\<lambda>d. d) [] w w"
  by (cases "app_data w c") (auto simp: told_def option.map_ident fun_eq_iff)

lemma steady_put_ctx:
  "w_contexts w c = Some cx \<Longrightarrow> cx_exit cx' = cx_exit cx \<Longrightarrow> cx_conn cx' = cx_conn cx \<Longrightarrow>
     steady w (put_ctx c cx' w)"
  by (simp add: steady_def) (simp add: put_ctx_def)

lemma cancel_socket_steady [simp]: "steady w (cancel_socket so w') = steady w w'"
  by (simp add: steady_def)

lemma app_data_cancel_socket [simp]: "app_data (cancel_socket so w) = app_data w"
  by (simp add: app_data_def fun_eq_iff)

lemma app_do_told:
  assumes "app_do c g w = Inr w'"
  shows "told c g [] w w'"
proof -
  from assms obtain cx d where cx: "w_contexts w c = Some cx" "cx_data cx = Some d"
    and w': "w' = put_ctx c (cx\<lparr>cx_data := Some (g d)\<rparr>) w"
    by (auto simp: app_do_def app_call_def get_ctx_def)
  from cx w' show ?thesis
    by (auto simp: told_def app_data_def mdata_def fun_eq_iff intro: steady_put_ctx)
qed

lemma app_cancel_conn_told:
  assumes "rbind (app_do c g w) (\<lambda>w. cancel_conn env c w) = Inr w'" and cx: "w_contexts w c = Some cx"
  shows "told c g [Conn_socket (cx_conn cx)] w w'"
proof -
  from assms obtain w1 where w1: "app_do c g w = Inr w1" "cancel_conn env c w1 = Inr w'" by auto
  note told = app_do_told [OF w1(1)]
  then have "map_option (\<lambda>cx. (cx_exit cx, cx_conn cx)) (w_contexts w1 c) = Some (cx_exit cx, cx_conn cx)"
    using cx by (simp add: told_def steady_def)
  then obtain cx1 where cx1: "w_contexts w1 c = Some cx1" "cx_conn cx1 = cx_conn cx" by auto
  from w1(2) cx1 have "w' = cancel_socket (Conn_socket (cx_conn cx)) w1"
    by (auto simp: cancel_conn_def get_ctx_def split: if_splits)
  with told show ?thesis by (simp add: told_def)
qed

lemma tcp_modify_steady:
  assumes "tcp_modify md c f w = Inr w'"
  obtains d where "tcp_at w c md d" "steady w w'" "w_cancelled w' = w_cancelled w" "app_data w' = app_data w"
    "\<And>c' n'. mdata w' c' n' =
      (if c' = c \<and> n' = md_name md then Some (Some (Tcp_data (f d))) else mdata w c' n')"
proof -
  from assms obtain d w1 where *: "tcp_get md c w = Inr (d, w1)"
    "put_module_data c (md_name md) (Tcp_data (f d)) w1 = Inr w'"
    by (auto simp: tcp_modify_def)
  note at = tcp_get_Inr [OF *(1)]
  from *(2) at have "put_module_data c (md_name md) (Tcp_data (f d)) w = Inr w'" by simp
  then show ?thesis
    by (rule put_module_data_Inr)
      (use at in \<open>auto intro!: that [of d] steady_put_ctx simp: app_data_def fun_eq_iff\<close>)
qed

lemma in_tcp_lock_told:
  assumes "in_tcp_lock md c body w = Inr w'" and d: "tcp_at w c md d"
    and body: "\<And>v v'. tcp_at v c md (d\<lparr>td_locked := True\<rparr>) \<Longrightarrow> body v = Inr v' \<Longrightarrow> told c g sks v v'"
  shows "told c g sks w w'"
proof -
  from assms(1) obtain w1 w2 where *: "tcp_lock md c w = Inr w1" "body w1 = Inr w2" "tcp_unlock md c w2 = Inr w'"
    by (auto simp: in_tcp_lock_def with_tcp_lock_def)
  from *(1) d have nl: "\<not> td_locked d" and l: "tcp_modify md c (\<lambda>d. d\<lparr>td_locked := True\<rparr>) w = Inr w1"
    by (auto simp: tcp_lock_def tcp_get_at split: if_splits)
  have w1: "steady w w1" "w_cancelled w1 = w_cancelled w" "app_data w1 = app_data w" "\<And>c' n'. mdata w1 c' n' =
      (if c' = c \<and> n' = md_name md then Some (Some (Tcp_data (d\<lparr>td_locked := True\<rparr>))) else mdata w c' n')"
    by (rule tcp_modify_steady [OF l]; use d in simp)+
  have w2: "told c g sks w1 w2" by (rule body [OF _ *(2)]) (simp add: w1(4))
  have w': "steady w2 w'" "w_cancelled w' = w_cancelled w2" "app_data w' = app_data w2" "\<And>c' n'. mdata w' c' n' =
      (if c' = c \<and> n' = md_name md then Some (Some (Tcp_data (d\<lparr>td_locked := False\<rparr>))) else mdata w2 c' n')"
    by (rule tcp_modify_steady [OF *(3) [unfolded tcp_unlock_def]]; use w1(4) w2 in \<open>simp add: told_def\<close>)+
  have "d\<lparr>td_locked := False\<rparr> = d" using nl by (cases d) simp
  with w1(4) w2 w'(4) d have "mdata w' c' n' = mdata w c' n'" for c' n' by (simp add: told_def)
  with w1 w2 w'(1-3) show ?thesis by (auto simp: told_def fun_eq_iff intro: steady_trans)
qed

text \<open>The handlers of the timers that guard an operation.\<close>

fun is_time_out :: "'d handler \<Rightarrow> bool" where
  "is_time_out (On_read_time_out flag md c) = True"
| "is_time_out (On_write_time_out md c) = True"
| "is_time_out (On_handle_connect_time_out md c ip port) = True"
| "is_time_out (On_handle_time_out md c) = True"
| "is_time_out _ = False"

text \<open>
  What such a timer is for: the context, the sockets whose operation it guards, and the virtual
  method that tells the application. A \<open>TcpModule\<close> guards the socket of the client it holds.
\<close>

definition conn_sockets :: "ctx_id \<Rightarrow> 'd world \<Rightarrow> sock_id list" where
  "conn_sockets c w = (case w_contexts w c of None \<Rightarrow> [] | Some cx \<Rightarrow> [Conn_socket (cx_conn cx)])"

definition client_sockets :: "'d module \<Rightarrow> ctx_id \<Rightarrow> 'd world \<Rightarrow> sock_id list" where
  "client_sockets md c w =
     (case mdata w c (md_name md) of
        Some (Some (Tcp_data d)) \<Rightarrow> (case td_client d of None \<Rightarrow> [] | Some i \<Rightarrow> [Client_socket i])
      | _ \<Rightarrow> [])"

fun time_out_of :: "'d handler \<Rightarrow> 'd world \<Rightarrow> (ctx_id \<times> sock_id list \<times> ('d \<Rightarrow> 'd)) option" where
  "time_out_of (On_read_time_out flag md c) w =
     (case md_class md of
        RequestModule h \<Rightarrow> Some (c, conn_sockets c w,
          if flag = 1 then rq_on_read_version_time_out h else rq_on_read_head_and_body_time_out h)
      | _ \<Rightarrow> None)"
| "time_out_of (On_write_time_out md c) w =
     (case md_class md of
        ResponseModule h \<Rightarrow> Some (c, conn_sockets c w, rs_on_write_resp_time_out h) | _ \<Rightarrow> None)"
| "time_out_of (On_handle_connect_time_out md c ip port) w =
     (case md_class md of
        TcpModule p h \<Rightarrow> Some (c, client_sockets md c w, tm_on_connect_failed h ip port) | _ \<Rightarrow> None)"
| "time_out_of (On_handle_time_out md c) w =
     (case md_class md of
        TcpModule p h \<Rightarrow> Some (c, client_sockets md c w, tm_on_handle_time_out_impl h) | _ \<Rightarrow> None)"
| "time_out_of _ w = None"

lemma tcp_time_out_told:
  assumes "in_tcp_lock md c (\<lambda>w. if ec_set ec then Inr w
      else rbind (tcp_cancel_client md c w) (\<lambda>w. app_do c g w)) w = Inr w'"
    and d: "tcp_at w c md d"
  shows "if ec_set ec then told c (\<lambda>d. d) [] w w' else told c g (client_sockets md c w) w w'"
proof (cases "ec_set ec")
  case True
  then show ?thesis using in_tcp_lock_told [OF assms(1) d, of "\<lambda>d. d" "[]"] told_id by auto
next
  case False
  have "told c g (client_sockets md c w) w w'"
  proof (rule in_tcp_lock_told [OF assms])
    fix v v' assume v: "tcp_at v c md (d\<lparr>td_locked := True\<rparr>)" and
      "(if ec_set ec then Inr v else rbind (tcp_cancel_client md c v) (\<lambda>w. app_do c g w)) = Inr v'"
    with False have "app_do c g (case td_client d of None \<Rightarrow> v | Some i \<Rightarrow> cancel_socket (Client_socket i) v) = Inr v'"
      by (simp add: tcp_cancel_client_at)
    from app_do_told [OF this] show "told c g (client_sockets md c w) v v'"
      by (cases "td_client d") (simp_all add: told_def client_sockets_def d steady_def)
  qed
  with False show ?thesis by simp
qed

lemma time_out_told:
  assumes "dispatch env n h ec buf w = Inr w'" and "is_time_out h" and "winv rank {} w"
    and ok: "handler_ok (w_fsm w) (dom (w_contexts w)) h"
  shows "\<exists>c sks g. time_out_of h w = Some (c, sks, g) \<and>
    (if ec_set ec then told c (\<lambda>d. d) [] w w' else told c g sks w w')"
proof -
  have tcp: "\<exists>p h d. md_class md = TcpModule p h \<and> tcp_at w c md d"
    if "bound_to is_tcp (w_fsm w) (dom (w_contexts w)) md c" for md c
    using bound_running [OF assms(3) that] tcp_at_exists by (blast elim: tcp_classE)
  show ?thesis
  proof (cases h)
    case (On_read_time_out flag md c)
    with ok obtain q cx where q: "md_class md = RequestModule q" and cx: "w_contexts w c = Some cx"
      by (auto simp: bound_to_def elim: request_classE)
    with assms(1) On_read_time_out app_cancel_conn_told [of c _ w env w' cx] told_id [of c w] show ?thesis
      by (auto simp: on_read_time_out_def conn_sockets_def split: if_splits simp del: rbind_eq_Inr)
  next
    case (On_write_time_out md c)
    with ok obtain q cx where q: "md_class md = ResponseModule q" and cx: "w_contexts w c = Some cx"
      by (auto simp: bound_to_def elim: response_classE)
    with assms(1) On_write_time_out app_cancel_conn_told [of c _ w env w' cx] told_id [of c w] show ?thesis
      by (auto simp: on_write_time_out_def conn_sockets_def split: if_splits simp del: rbind_eq_Inr)
  next
    case (On_handle_connect_time_out md c ip port)
    with ok tcp [of md c] obtain p q d where q: "md_class md = TcpModule p q" "tcp_at w c md d" by auto
    with assms(1) On_handle_connect_time_out
      tcp_time_out_told [of md c ec "tm_on_connect_failed q ip port" w w' d] show ?thesis
      by (simp add: on_handle_connect_time_out_def)
  next
    case (On_handle_time_out md c)
    with ok tcp [of md c] obtain p q d where q: "md_class md = TcpModule p q" "tcp_at w c md d" by auto
    with assms(1) On_handle_time_out
      tcp_time_out_told [of md c ec "tm_on_handle_time_out_impl q" w w' d] show ?thesis
      by (simp add: on_handle_time_out_def)
  qed (use assms(2) in simp_all)
qed

lemma time_out_of_remove_op [simp]: "time_out_of h (remove_op i w) = time_out_of h w"
  by (cases h) (simp_all add: conn_sockets_def client_sockets_def remove_op_def split: module_class.split)

text \<open>
  C28: A time-out never moves the machine. Take any timer of a read, a write, a connect or a reply
  that completes in a reachable state, of a well-formed machine whose links descend in a rank. When it expired, its
  handler calls the virtual method that tells the application, on the application data of its context,
  and cancels exactly the guarded socket: the connection of the request, or the client the \<open>TcpModule\<close>
  holds, if it holds one. When the wait was cancelled it does neither. In both cases it starts no
  operation, makes and marks no context, moves no client, and leaves all module data, the mutex
  included, and all other application data as they were: the machine is resumed by the handler of the
  cancelled operation. The one way not to return is the exception of the connection's
  \<open>socket().cancel()\<close> when it fails.
\<close>

theorem time_outs_only_cancel:
  assumes "reach (server_start rank n) (loop_step any_env n) w" and "i < length (w_pending w)"
    and "is_time_out (op_handler (w_pending w ! i))"
  shows "if cancel_throws env ec (op_handler (w_pending w ! i)) w
    then complete env n i ec buf w = Inl Uncaught_exception
    else \<exists>c sks g w'. time_out_of (op_handler (w_pending w ! i)) w = Some (c, sks, g) \<and>
      complete env n i ec buf w = Inr w' \<and>
      (if ec_set ec then told c (\<lambda>d. d) [] (remove_op i w) w' else told c g sks (remove_op i w) w')"
proof -
  have inv: "winv rank {} w" "stack_ok rank n (w_fsm w)"
    using server_machine.inv_reach [OF assms(1)] by (simp_all add: server_inv_def)
  note cases = complete_cases [OF inv assms(2), of env ec buf]
  have no: "\<not> orphans (op_handler (w_pending w ! i)) w"
    using assms(3) by (cases "op_handler (w_pending w ! i)") simp_all
  show ?thesis
  proof (cases "cancel_throws env ec (op_handler (w_pending w ! i)) w")
    case False
    with cases no obtain w' where w': "complete env n i ec buf w = Inr w'" by (auto dest: returnsD)
    have "handler_ok (w_fsm (remove_op i w)) (dom (w_contexts (remove_op i w))) (op_handler (w_pending w ! i))"
      using inv(1) assms(2) by (simp add: winv_def remove_op_def)
    from time_out_told [OF w' [unfolded complete_def] assms(3) remove_op_winv [OF inv(1)] this] w' False
    show ?thesis by auto
  qed (use cases in simp)
qed

end
