(* ===== verification/Single_Exchange.thy ===== *)
theory Single_Exchange
  imports Server_Safety
begin

text \<open>
  When the branches of a fork never lead to the same \<open>TcpModule\<close>, no \<open>TcpModule\<close> is run while
  an exchange of its own is open, so the one way to a null dereference that
  \<open>server_does_not_crash\<close> leaves does not exist. The proof counts tokens: a pending operation
  that will resume the machine is a token, and at most one token of a context can come to a
  \<open>TcpModule\<close>.
\<close>

section \<open>Where a machine can go\<close>

text \<open>From module \<open>n\<close>, ended in state \<open>s\<close>, the machine can come to module \<open>m\<close>.\<close>

inductive leads :: "'d fsm \<Rightarrow> string \<Rightarrow> ModState \<Rightarrow> string \<Rightarrow> bool" for f where
  leads_next: "route f n s = Some m \<Longrightarrow> leads f n s m"
| leads_on: "route f n s = Some t \<Longrightarrow> leads f t s' m \<Longrightarrow> leads f n s m"

definition reaches :: "'d fsm \<Rightarrow> string \<Rightarrow> string set" where
  "reaches f n = insert n {m. \<exists>s. leads f n s m}"

lemma leads_route: "route f n s = Some t \<Longrightarrow> {m. leads f n s m} = reaches f t"
  by (auto simp: reaches_def intro: leads.intros) (erule leads.cases; auto)

lemma leads_reaches: "{m. leads f n s m} \<subseteq> reaches f n"
  by (auto simp: reaches_def)

lemma self_reaches [simp]: "n \<in> reaches f n"
  by (simp add: reaches_def)

definition tcp_names :: "'d fsm \<Rightarrow> string set" where
  "tcp_names f = {md_name md | md. registered f md \<and> is_tcp (md_class md)}"

text \<open>No two states in which a fork resumes lead to the same \<open>TcpModule\<close>.\<close>

definition forks_split :: "'d fsm \<Rightarrow> bool" where
  "forks_split f \<longleftrightarrow>
     (\<forall>md s s'. \<forall>m \<in> tcp_names f. registered f md \<and> is_fork (md_class md) \<and>
        leads f (md_name md) s m \<and> leads f (md_name md) s' m \<longrightarrow> s = s')"

section \<open>Tokens\<close>

text \<open>
  The context and the modules that a pending handler may bring the machine to. Time-outs bring
  it nowhere, and an accept belongs to no context yet.
\<close>

fun token :: "'d fsm \<Rightarrow> 'd handler \<Rightarrow> (ctx_id \<times> string set) option" where
  "token f (On_read_version md c len) = Some (c, reaches f (md_name md))"
| "token f (On_read_head md c len) = Some (c, reaches f (md_name md))"
| "token f (On_read_body md c len) = Some (c, reaches f (md_name md))"
| "token f (On_write_resp md c) = Some (c, reaches f (md_name md))"
| "token f (On_connect md c ip port) = Some (c, reaches f (md_name md))"
| "token f (On_write_req md c req) = Some (c, reaches f (md_name md))"
| "token f (On_recv_resp_head md c len) = Some (c, reaches f (md_name md))"
| "token f (On_recv_resp_body md c len) = Some (c, reaches f (md_name md))"
| "token f (On_forked md c s) = Some (c, {m. leads f (md_name md) s m})"
| "token f (On_joined md c s) = Some (c, {m. leads f (md_name md) s m})"
| "token f _ = None"

definition covers :: "'d fsm \<Rightarrow> ctx_id \<Rightarrow> string \<Rightarrow> 'd async_op \<Rightarrow> bool" where
  "covers f c m a \<longleftrightarrow> (\<exists>M. token f (op_handler a) = Some (c, M) \<and> m \<in> M)"

definition tokens :: "'d fsm \<Rightarrow> 'd async_op list \<Rightarrow> ctx_id \<Rightarrow> string \<Rightarrow> nat" where
  "tokens f as c m = length (filter (covers f c m) as)"

text \<open>
  The socket operations of a \<open>TcpModule\<close>, and the client and the socket event its data hold.
\<close>

fun exchange_of :: "'d handler \<Rightarrow> (ctx_id \<times> string) option" where
  "exchange_of (On_connect md c ip port) = Some (c, md_name md)"
| "exchange_of (On_write_req md c req) = Some (c, md_name md)"
| "exchange_of (On_recv_resp_head md c len) = Some (c, md_name md)"
| "exchange_of (On_recv_resp_body md c len) = Some (c, md_name md)"
| "exchange_of _ = None"

definition exch_at :: "'d world \<Rightarrow> ctx_id \<Rightarrow> string \<Rightarrow> client_ptr \<times> SocketEventState" where
  "exch_at w c n =
     (case mdata w c n of
        Some (Some (Tcp_data d)) \<Rightarrow> (td_client d, td_socket_event d)
      | _ \<Rightarrow> (None, Socket_Event_None))"

abbreviation client_at :: "'d world \<Rightarrow> ctx_id \<Rightarrow> string \<Rightarrow> client_ptr" where
  "client_at w c n \<equiv> fst (exch_at w c n)"

definition exch_open :: "client_ptr \<times> SocketEventState \<Rightarrow> bool" where
  "exch_open e \<longleftrightarrow> fst e \<noteq> None \<and> snd e = Socket_Event_Opened"

text \<open>
  The invariant: the machine is \<open>f\<close>; at most one token of a context can come to each
  \<open>TcpModule\<close>; a module with a pending socket operation has its client and its event is open;
  tokens belong to contexts that have been made.
\<close>

definition tok :: "'d fsm \<Rightarrow> 'd world \<Rightarrow> bool" where
  "tok f w \<longleftrightarrow>
     w_fsm w = f \<and> (\<exists>rank. fsm_wf rank f) \<and> forks_split f \<and>
     (\<forall>c. \<forall>m \<in> tcp_names f. tokens f (w_pending w) c m \<le> 1) \<and>
     (\<forall>a \<in> set (w_pending w). \<forall>c n. exchange_of (op_handler a) = Some (c, n) \<longrightarrow>
        n \<in> tcp_names f \<and> exch_open (exch_at w c n)) \<and>
     (\<forall>a \<in> set (w_pending w). \<forall>c M. token f (op_handler a) = Some (c, M) \<longrightarrow> c < w_next_ctx w)"

text \<open>
  The same while code runs for context \<open>c\<close> that may bring the machine to the modules \<open>M\<close>: the
  token is in the code's hand.
\<close>

definition hand :: "'d fsm \<Rightarrow> ctx_id \<Rightarrow> string set \<Rightarrow> 'd world \<Rightarrow> bool" where
  "hand f c M w \<longleftrightarrow>
     tok f w \<and> c < w_next_ctx w \<and> (\<forall>m \<in> tcp_names f \<inter> M. tokens f (w_pending w) c m = 0)"

lemma hand_tok: "hand f c M w \<Longrightarrow> tok f w"
  by (simp add: hand_def)

lemma hand_mono: "hand f c M w \<Longrightarrow> N \<subseteq> M \<Longrightarrow> hand f c N w"
  by (auto simp: hand_def)

text \<open>A socket operation of a module counts as a token for the module itself.\<close>

lemma exchange_covers:
  "exchange_of (op_handler a) = Some (c, n) \<Longrightarrow> covers f c n a"
  by (cases "op_handler a") (auto simp: covers_def)

lemma tokens_pos: "a \<in> set as \<Longrightarrow> covers f c m a \<Longrightarrow> tokens f as c m \<noteq> 0"
  by (auto simp: tokens_def filter_empty_conv)

lemma tokens_append [simp]: "tokens f (as @ bs) c m = tokens f as c m + tokens f bs c m"
  by (simp add: tokens_def)

section \<open>What keeps the invariant\<close>

text \<open>Code that starts nothing, makes no context and moves no client.\<close>

definition calm :: "'d world \<Rightarrow> 'd world \<Rightarrow> bool" where
  "calm w w' \<longleftrightarrow>
     w_fsm w' = w_fsm w \<and> w_pending w' = w_pending w \<and> w_next_ctx w' = w_next_ctx w \<and>
     exch_at w' = exch_at w"

lemma calm_refl [simp]: "calm w w"
  by (simp add: calm_def)

lemma calm_trans: "calm u v \<Longrightarrow> calm v w \<Longrightarrow> calm u w"
  by (simp add: calm_def)

lemma tok_calm: "tok f w \<Longrightarrow> calm w w' \<Longrightarrow> tok f w'"
  by (simp add: tok_def calm_def)

lemma hand_calm: "hand f c M w \<Longrightarrow> calm w w' \<Longrightarrow> hand f c M w'"
  using tok_calm by (fastforce simp: hand_def calm_def)

lemma exch_at_same: "mdata w' = mdata w \<Longrightarrow> exch_at w' = exch_at w"
  by (simp add: exch_at_def fun_eq_iff)

lemma exch_at_start_op [simp]: "exch_at (start_op a w) = exch_at w"
  by (simp add: exch_at_def fun_eq_iff)

text \<open>Starting an operation that brings the machine nowhere.\<close>

lemma tok_start_dead:
  "tok f w \<Longrightarrow> token f (op_handler a) = None \<Longrightarrow> tok f (start_op a w)"
  by (auto simp: tok_def tokens_def covers_def dest: exchange_covers [where f = f])

lemma hand_start_dead:
  "hand f c M w \<Longrightarrow> token f (op_handler a) = None \<Longrightarrow> hand f c M (start_op a w)"
  using tok_start_dead by (fastforce simp: hand_def tokens_def covers_def)

text \<open>Passing the token in hand to an operation.\<close>

lemma hand_start:
  assumes "hand f c M w" and "token f (op_handler a) = Some (c, N)" and "N \<subseteq> M"
    and "\<And>c' n. exchange_of (op_handler a) = Some (c', n) \<Longrightarrow> n \<in> tcp_names f \<and> exch_open (exch_at w c' n)"
  shows "tok f (start_op a w)"
proof -
  have one: "tokens f [a] c' m = (if c' = c \<and> m \<in> N then 1 else 0)" for c' m
    using assms(2) by (auto simp: tokens_def covers_def)
  have "tokens f (w_pending w @ [a]) c' m \<le> 1" if "m \<in> tcp_names f" for c' m
  proof (cases "c' = c \<and> m \<in> N")
    case True
    with assms(1,3) that have "tokens f (w_pending w) c' m = 0" by (auto simp: hand_def)
    then show ?thesis by (simp add: one)
  next
    case False
    with assms(1) that have "tokens f (w_pending w) c' m \<le> 1" by (simp add: hand_def tok_def)
    with False show ?thesis by (auto simp: one)
  qed
  with assms(1,2,4) show ?thesis by (auto simp: hand_def tok_def)
qed

lemma hand_pass:
  "hand f c M w \<Longrightarrow> token f (op_handler a) = Some (c, M) \<Longrightarrow> exchange_of (op_handler a) = None \<Longrightarrow>
     tok f (start_op a w)"
  by (erule hand_start) auto

text \<open>Changing the client of a module whose token is in hand.\<close>

lemma hand_client:
  assumes w: "hand f c M w" and n: "n \<in> M" "n \<in> tcp_names f"
    and w': "w_fsm w' = w_fsm w" "w_pending w' = w_pending w" "w_next_ctx w' = w_next_ctx w"
    and cl: "\<And>c' n'. c' \<noteq> c \<or> n' \<noteq> n \<Longrightarrow> exch_at w' c' n' = exch_at w c' n'"
  shows "hand f c M w'"
proof -
  have "c' \<noteq> c \<or> n' \<noteq> n" if "a \<in> set (w_pending w)" "exchange_of (op_handler a) = Some (c', n')" for a c' n'
    using tokens_pos [OF that(1) exchange_covers [OF that(2), of f]] w n by (auto simp: hand_def)
  with w w' cl show ?thesis by (auto simp: hand_def tok_def)
qed

section \<open>Calm code\<close>

abbreviation calms :: "'d world \<Rightarrow> ('r \<times> 'd world) res \<Rightarrow> bool" where
  "calms w r \<equiv> yields r (\<lambda>(x, w'). calm w w')"

lemma hand_bind:
  assumes "hand f c M w" and "calms w r" and "\<And>x w'. hand f c M w' \<Longrightarrow> yields (g (x, w')) P"
  shows "yields (rbind r g) P"
  by (rule yields_bind [OF assms(2)]) (auto intro: assms(3) hand_calm [OF assms(1)])

lemma hand_bind_world:
  assumes "hand f c M w" and "yields r (calm w)" and "\<And>w'. hand f c M w' \<Longrightarrow> yields (g w') P"
  shows "yields (rbind r g) P"
  by (rule yields_bind [OF assms(2)]) (auto intro: assms(3) hand_calm [OF assms(1)])

lemma calm_put_ctx:
  "w_contexts w c = Some cx0 \<Longrightarrow> cx_module_data_map cx = cx_module_data_map cx0 \<Longrightarrow> calm w (put_ctx c cx w)"
  by (simp add: calm_def exch_at_def fun_eq_iff mdata_def)

lemma app_call_calm: "calms w (app_call c g w)"
  by (rule yieldsI) (auto simp: app_call_def get_ctx_def Let_def split_beta intro!: calm_put_ctx)

lemma app_do_calm: "yields (app_do c g w) (calm w)"
  unfolding app_do_def by (rule yields_bind [OF app_call_calm]) auto

lemma context_exit_calm: "yields (context_exit c w) (calm w)"
  by (rule yieldsI) (auto simp: context_exit_def get_ctx_def intro: calm_put_ctx)

lemma get_module_data_calm:
  "yields (get_module_data c n w) (\<lambda>(p, w'). calm w w' \<and> (\<forall>d. p = Some d \<longrightarrow> w' = w \<and> mdata w c n = Some (Some d)))"
proof (rule yieldsI, clarify)
  fix p w' assume get: "get_module_data c n w = Inr (p, w')"
  then obtain cx where cx: "w_contexts w c = Some cx" by (auto simp: get_module_data_def get_ctx_def)
  have "calm w w'"
  proof (cases "mdata w c n")
    case None
    let ?w = "put_ctx c (cx\<lparr>cx_module_data_map := sm_put n None (cx_module_data_map cx)\<rparr>) w"
    have "mdata ?w c' n' = (if c' = c \<and> n' = n then Some None else mdata w c' n')" for c' n'
      using cx by (auto simp: mdata_def sm_find_put)
    with None have "exch_at ?w = exch_at w" by (auto simp: exch_at_def fun_eq_iff)
    moreover have "w' = ?w" using get get_module_data_absent [OF cx None] by simp
    ultimately show ?thesis by (simp add: calm_def)
  next
    case (Some q)
    with get get_module_data_present [OF Some] show ?thesis by simp
  qed
  then show "calm w w' \<and> (\<forall>d. p = Some d \<longrightarrow> w' = w \<and> mdata w c n = Some (Some d))"
    using get get_module_data_Inr [of c n w _ w'] by blast
qed

lemma get_module_data_calms: "calms w (get_module_data c n w)"
  by (rule yields_mono [OF get_module_data_calm]) auto

lemma tcp_get_same: "yields (tcp_get md c w) (\<lambda>(d, w'). w' = w \<and> mdata w c (md_name md) = Some (Some (Tcp_data d)))"
proof (rule yieldsI, clarify)
  fix d w' assume "tcp_get md c w = Inr (d, w')"
  then obtain p where get: "get_module_data c (md_name md) w = Inr (p, w')" and p: "as_tcp p = Some d"
    by (auto simp: tcp_get_def)
  from p have "p = Some (Tcp_data d)" by (cases p rule: as_tcp.cases) auto
  with get_module_data_Inr [of c "md_name md" w _ w'] get
  show "w' = w \<and> mdata w c (md_name md) = Some (Some (Tcp_data d))" by blast
qed

text \<open>Writing the data of a \<open>TcpModule\<close> changes its own client at most.\<close>

lemma tcp_modify_client:
  "yields (tcp_modify md c g w) (\<lambda>w'. w_fsm w' = w_fsm w \<and> w_pending w' = w_pending w \<and>
     w_next_ctx w' = w_next_ctx w \<and> (\<exists>d. mdata w c (md_name md) = Some (Some (Tcp_data d)) \<and>
     (\<forall>c' n'. exch_at w' c' n' =
        (if c' = c \<and> n' = md_name md then (td_client (g d), td_socket_event (g d)) else exch_at w c' n'))))"
proof (rule yieldsI)
  fix w' assume "tcp_modify md c g w = Inr w'"
  then obtain d w1 where get: "tcp_get md c w = Inr (d, w1)"
    and put: "put_module_data c (md_name md) (Tcp_data (g d)) w1 = Inr w'"
    by (auto simp: tcp_modify_def)
  from yieldsD [OF tcp_get_same get] have w1: "w1 = w" and d: "mdata w c (md_name md) = Some (Some (Tcp_data d))"
    by auto
  from put show "w_fsm w' = w_fsm w \<and> w_pending w' = w_pending w \<and>
     w_next_ctx w' = w_next_ctx w \<and> (\<exists>d. mdata w c (md_name md) = Some (Some (Tcp_data d)) \<and>
     (\<forall>c' n'. exch_at w' c' n' =
        (if c' = c \<and> n' = md_name md then (td_client (g d), td_socket_event (g d)) else exch_at w c' n')))"
    by (rule put_module_data_Inr) (use d in \<open>auto simp: w1 exch_at_def\<close>)
qed

lemma tcp_modify_calm:
  assumes "\<And>d. td_client (g d) = td_client d" and "\<And>d. td_socket_event (g d) = td_socket_event d"
  shows "yields (tcp_modify md c g w) (calm w)"
  by (rule yields_mono [OF tcp_modify_client])
    (auto simp: calm_def fun_eq_iff assms, simp_all add: exch_at_def)

lemma tcp_lock_calm: "yields (tcp_lock md c w) (calm w)"
  unfolding tcp_lock_def
  by (rule yields_bind [OF tcp_get_same]) (auto intro!: tcp_modify_calm)

lemma tcp_unlock_calm: "yields (tcp_unlock md c w) (calm w)"
  unfolding tcp_unlock_def by (rule tcp_modify_calm) simp_all

lemma timer_calm:
  "calms w (request_timer md c w)" "calms w (response_timer md c w)" "calms w (tcp_timer md c w)"
proof -
  show "calms w (request_timer md c w)" "calms w (response_timer md c w)"
    unfolding request_timer_def response_timer_def
    by (rule yields_bind [OF get_module_data_calms], auto intro: yields_any)+
  show "calms w (tcp_timer md c w)"
    unfolding tcp_timer_def by (rule yields_bind [OF tcp_get_same]) auto
qed

lemma cancel_timer_calm:
  "calms w (request_cancel_timer env md c w)" "calms w (response_cancel_timer env md c w)"
  "calms w (cancel_time_out_timer env md c w)"
  unfolding request_cancel_timer_def response_cancel_timer_def cancel_time_out_timer_def
  by (rule yields_bind [OF timer_calm(1)] yields_bind [OF timer_calm(2)] yields_bind [OF timer_calm(3)], auto)+

lemma the_client_at:
  "yields (tcp_the_client md c w) (\<lambda>(i, w'). w' = w \<and> client_at w c (md_name md) = Some i)"
  unfolding tcp_the_client_def
  by (rule yields_bind [OF tcp_get_same]) (auto simp: exch_at_def split: rbind_split intro: yields_any)

lemma read_accepted_calm: "calms w (read_accepted c ec impl w)"
  using app_call_calm [of c impl w] by (simp add: read_accepted_def)

section \<open>The interpreter passes the token on\<close>

text \<open>A module has run: it went asynchronous, or the token is still in hand.\<close>

definition has_run :: "'d fsm \<Rightarrow> ctx_id \<Rightarrow> string set \<Rightarrow> ModState \<times> 'd world \<Rightarrow> bool" where
  "has_run f c M r \<longleftrightarrow> tok f (snd r) \<and> (fst r \<noteq> Mod_async \<longrightarrow> hand f c M (snd r))"

lemma has_run_async [simp]: "has_run f c M (Mod_async, w) = tok f w"
  by (simp add: has_run_def)

lemma has_run_hand: "hand f c M w \<Longrightarrow> has_run f c M (s, w)"
  by (simp add: has_run_def hand_tok)

lemma has_run_calm: "has_run f c M (s, w) \<Longrightarrow> calm w w' \<Longrightarrow> has_run f c M (s, w')"
  by (auto simp: has_run_def intro: tok_calm hand_calm)

lemma next_module_route:
  assumes "fsm_wf rank (w_fsm w)"
  shows "next_module md s w = (None, w) \<or>
    (\<exists>md'. next_module md s w = (Some md', w) \<and> registered (w_fsm w) md' \<and>
           route (w_fsm w) (md_name md) s = Some (md_name md'))"
proof (cases "route (w_fsm w) (md_name md) s")
  case (Some t)
  then obtain s' where "link_of (w_fsm w) (md_name md) s' = Some t"
    by (auto simp: route_def split: option.splits)
  with assms have "sm_find (fsm_mod_map (w_fsm w)) t \<noteq> None" "registry_ok (fsm_mod_map (w_fsm w))"
    by (auto simp: fsm_wf_def links_ok_def)
  then obtain md' where "sm_find (fsm_mod_map (w_fsm w)) t = Some (Some md')"
    "registered (w_fsm w) md'" "md_name md' = t"
    using registered_entry by blast
  with Some show ?thesis by (simp add: next_module_def get_next_module_route)
qed (simp add: next_module_def get_next_module_route)

text \<open>A context that is just being made has no token yet.\<close>

lemma tokens_new:
  assumes "tok f w" and "w_next_ctx w \<le> c"
  shows "tokens f (w_pending w) c m = 0"
proof -
  have "\<not> covers f c m a" if "a \<in> set (w_pending w)" for a
    using assms that by (fastforce simp: tok_def covers_def)
  then show ?thesis by (simp add: tokens_def filter_empty_conv)
qed

lemma exchange_token:
  "exchange_of (op_handler a) = Some (c, n) \<Longrightarrow> \<exists>M. token f (op_handler a) = Some (c, M)"
  by (cases "op_handler a") auto

lemma new_context_hand:
  assumes tok: "tok f w" and new: "context_new conn w = (c, w1)"
  shows "yields (context_init c w1) (hand f c UNIV)"
proof (rule yieldsI)
  fix w2 assume "context_init c w1 = Inr w2"
  with new obtain cx where c: "c = w_next_ctx w"
    and w2: "w2 = w\<lparr>w_next_ctx := Suc c, w_contexts := (w_contexts w)(c \<mapsto> cx)\<rparr>"
    by (auto simp: context_init_def context_new_def get_ctx_def Let_def put_ctx_def)
  have at: "exch_at w2 c' n = exch_at w c' n" if "c' \<noteq> c" for c' n
    using that by (simp add: w2 exch_at_def mdata_def)
  have old: "c' < c" if "a \<in> set (w_pending w)" "token f (op_handler a) = Some (c', M)" for a c' M
    using tok that by (auto simp: tok_def c)
  then have "c' \<noteq> c" if "a \<in> set (w_pending w)" "exchange_of (op_handler a) = Some (c', n)" for a c' n
    using that exchange_token by blast
  with tok old at have "tok f w2" by (auto simp: tok_def w2 less_Suc_eq)
  then show "hand f c UNIV w2"
    using tokens_new [OF tok, of c] by (simp add: hand_def) (simp add: w2 c)
qed

lemma context_reset_hand:
  assumes w: "hand f c UNIV w"
  shows "yields (context_reset c w) (hand f c UNIV)"
proof (rule yieldsI)
  fix w' assume "context_reset c w = Inr w'"
  then obtain cx where w': "w' = w\<lparr>w_rand_pos := Suc (w_rand_pos w), w_contexts := (w_contexts w)(c \<mapsto> cx)\<rparr>"
    by (auto simp: context_reset_def get_ctx_def my_rand_def Let_def put_ctx_def)
  have at: "exch_at w' c' n = exch_at w c' n" if "c' \<noteq> c" for c' n
    using that by (simp add: w' exch_at_def mdata_def)
  have "c' \<noteq> c" if "a \<in> set (w_pending w)" "exchange_of (op_handler a) = Some (c', n)" for a c' n
    using w that tokens_pos [OF that(1) exchange_covers [OF that(2), of f]] by (fastforce simp: hand_def tok_def)
  with w at have "tok f w'" by (auto simp: hand_def tok_def w')
  with w show "hand f c UNIV w'" by (simp add: hand_def) (simp add: w')
qed

locale token_passing =
  fixes mrun :: "'d module_run" and f :: "'d fsm"
  assumes passes: "hand f c (reaches f (md_name md)) w \<Longrightarrow> registered f md \<Longrightarrow>
    yields (mrun md c s w) (has_run f c (reaches f (md_name md)))"
begin

lemma resume_step:
  assumes w: "hand f c {m. leads f (md_name md) s m} w"
    and run: "\<And>md' w s. hand f c (reaches f (md_name md')) w \<Longrightarrow> registered f md' \<Longrightarrow>
      yields (fsm_run mrun n md' c s w) (tok f)"
    and fin: "\<And>w. tok f w \<Longrightarrow> yields (end_request mrun n c w) (tok f)"
  shows "yields (resume mrun n md s c w) (tok f)"
proof -
  have tok: "tok f w" by (rule hand_tok [OF w])
  then obtain rank where wf: "fsm_wf rank (w_fsm w)" and f: "w_fsm w = f" by (auto simp: tok_def)
  have out: "yields (rbind (context_exit c w) (end_request mrun n c)) (tok f)"
    by (rule hand_bind_world [OF w context_exit_calm]) (auto intro: fin hand_tok)
  have "yields (fsm_run mrun n md' c s w) (tok f)"
    if "registered f md'" "route f (md_name md) s = Some (md_name md')" for md'
    using run [OF w [unfolded leads_route [OF that(2)]] that(1)] .
  with next_module_route [OF wf, of md s] out fin [OF tok] show ?thesis
    unfolding resume_def by (auto simp: f is_end_module_def split: option.split)
qed

lemma interpreter_passes:
  "hand f c (reaches f (md_name md)) w \<Longrightarrow> registered f md \<Longrightarrow> yields (fsm_run mrun n md c s w) (tok f)"
  "tok f w1 \<Longrightarrow> yields (end_request mrun n c w1) (tok f)"
  "hand f c UNIV w \<Longrightarrow> yields (handle_request mrun n c w) (tok f)"
proof (induction n arbitrary: md c s w w1)
  case (Suc n)
  {
    case 1
    show ?case
      unfolding fsm_run_resume
    proof (rule yields_bind [OF passes [OF 1]], clarify)
      fix state and w' :: "'d world" assume "has_run f c (reaches f (md_name md)) (state, w')"
      then show "yields (if state \<noteq> Mod_async then resume mrun n md state c w' else Inr w') (tok f)"
        using resume_step [OF hand_mono [OF _ leads_reaches] Suc.IH(1,2)] by (simp add: has_run_def)
    qed
  next
    case 2
    have "yields (rbind (context_init c' w') (handle_request mrun n c')) (tok f)"
      if "context_new conn w1 = (c', w')" for conn c' w'
      by (rule yields_bind [OF new_context_hand [OF 2 that]]) (rule Suc.IH(3))
    with 2 show ?case
      by (auto simp: end_request.simps context_is_exit_def get_ctx_def deref_def split: option.split prod.split)
  next
    case 3
    show ?case
      unfolding handle_request.simps
    proof (rule yields_bind [OF context_reset_hand [OF 3]])
      fix w' assume w': "hand f c UNIV w'"
      then obtain start where "fsm_start_mod f = Some start" "registered f start" "w_fsm w' = f"
        by (auto simp: hand_def tok_def fsm_wf_def start_ok_def)
      with Suc.IH(1) [OF hand_mono [OF w' subset_UNIV]] show "yields (case fsm_start_mod (w_fsm w') of
          None \<Rightarrow> Inl Uninitialised | Some start \<Rightarrow> fsm_run mrun n start c Mod_start w') (tok f)"
        by simp
    qed
  }
qed (simp_all add: fsm_run.simps end_request.simps handle_request.simps)

lemma resume_passes:
  "hand f c {m. leads f (md_name md) s m} w \<Longrightarrow> yields (resume mrun n md s c w) (tok f)"
  by (erule resume_step) (rule interpreter_passes; assumption)+

lemma resume_from:
  "hand f c (reaches f (md_name md)) w \<Longrightarrow> yields (resume mrun n md s c w) (tok f)"
  by (rule resume_passes) (erule hand_mono [OF _ leads_reaches])

lemma exit_resume_from:
  "hand f c (reaches f (md_name md)) w \<Longrightarrow>
     yields (rbind (context_exit c w) (\<lambda>w. resume mrun n md s c w)) (tok f)"
  by (erule hand_bind_world [OF _ context_exit_calm]) (rule resume_from)

end

section \<open>Every module passes the token on\<close>

lemma simple_run_passes: "hand f c M w \<Longrightarrow> yields (simple_run g c s w) (has_run f c M)"
  unfolding simple_run_def
  by (rule yields_mono [OF app_call_calm]) (auto intro: has_run_hand hand_calm)

lemma request_run_passes:
  assumes "hand f c (reaches f (md_name md)) w"
  shows "yields (request_run md h c s w) (has_run f c M)"
  unfolding request_run_def Let_def
proof (rule yields_any, rule yields_any, rule hand_bind [OF assms timer_calm(1)], unfold prod.case)
  fix cx :: "'a fsm_context" and len timer and w' :: "'a world"
  assume w': "hand f c (reaches f (md_name md)) w'"
  show "yields (Inr (Mod_async, start_op (Async_read (Conn_socket (cx_conn cx)) len (On_read_version md c len))
     (start_op (Async_wait timer (rq_get_read_version_time_out_ms h) (On_read_time_out 1 md c)) w'))) (has_run f c M)"
    using hand_pass [OF hand_start_dead [OF w']] by simp
qed

lemma response_run_passes:
  assumes "hand f c (reaches f (md_name md)) w"
  shows "yields (response_run md h c s w) (has_run f c (reaches f (md_name md)))"
  unfolding response_run_def Let_def
proof (rule yields_any, rule hand_bind [OF assms app_call_calm], unfold prod.case)
  fix cx :: "'a fsm_context" and resp and w1 :: "'a world"
  assume w1: "hand f c (reaches f (md_name md)) w1"
  have "tok f (start_op (Async_write (Conn_socket (cx_conn cx)) buf (On_write_resp md c))
     (start_op (Async_wait timer ms (On_write_time_out md c)) w2))"
    if "hand f c (reaches f (md_name md)) w2" for buf timer ms w2
    by (rule hand_pass [OF hand_start_dead [OF that]]) simp_all
  then show "yields (case resp of
         None \<Rightarrow> Inr (Mod_Failed, w1)
       | Some buf \<Rightarrow>
           rbind (response_timer md c w1) (\<lambda>(timer, w).
             Inr (Mod_async, start_op (Async_write (Conn_socket (cx_conn cx)) buf (On_write_resp md c))
               (start_op (Async_wait timer (rs_get_write_resp_time_out_ms h) (On_write_time_out md c)) w))))
     (has_run f c (reaches f (md_name md)))"
    by (cases resp) (auto intro!: hand_bind [OF w1 timer_calm(2)] has_run_hand [OF w1])
qed

text \<open>A fork starts one operation per branch.\<close>

lemma fork_loop_starts:
  "fork_loop md c is w = Inr w' \<Longrightarrow> w' = w\<lparr>w_pending := w_pending w @ map (fork_op md c) is\<rparr>"
proof (induction "is" arbitrary: w)
  case (Cons i "is")
  then obtain p w1 k where get: "get_module_data c (md_name md) w = Inr (p, w1)" and k: "as_fork p = Some k"
    and loop: "fork_loop md c is (start_op (fork_op md c i) w1) = Inr w'"
    by (auto simp: fork_op_def split: if_splits)
  from k have "p = Some (Fork_data k)" by (cases p rule: as_fork.cases) auto
  with get get_module_data_Inr [of c "md_name md" w] have "w1 = w" by blast
  with Cons.IH [OF loop] show ?case by (simp add: start_op_def)
qed simp

lemma fork_tokens:
  assumes split: "forks_split f" and md: "registered f md" "is_fork (md_class md)" and m: "m \<in> tcp_names f"
    and dist: "distinct (map (\<lambda>i. Mod_Fork0 + word_of_nat i :: ModState) is)"
  shows "tokens f (map (fork_op md c) is) c' m \<le> (if c' = c \<and> m \<in> reaches f (md_name md) then 1 else 0)"
proof -
  let ?on = "\<lambda>i. c' = c \<and> leads f (md_name md) (Mod_Fork0 + word_of_nat i) m"
  have "filter (covers f c' m) (map (fork_op md c) is) = map (fork_op md c) (filter ?on is)"
    by (auto simp: filter_map comp_def covers_def fork_op_def intro!: arg_cong [where f = "map _"] filter_cong)
  then have len: "tokens f (map (fork_op md c) is) c' m = length (filter ?on is)" by (simp add: tokens_def)
  have "i = j" if "i \<in> set (filter ?on is)" "j \<in> set (filter ?on is)" for i j
  proof -
    have "leads f (md_name md) (Mod_Fork0 + word_of_nat i) m" "leads f (md_name md) (Mod_Fork0 + word_of_nat j) m"
      using that by auto
    with split md m have "(Mod_Fork0 + word_of_nat i :: ModState) = Mod_Fork0 + word_of_nat j"
      unfolding forks_split_def by blast
    with dist that show "i = j" by (auto simp: distinct_map inj_on_def)
  qed
  then have "card (set (filter ?on is)) \<le> 1" by (auto simp: card_le_Suc0_iff_eq)
  moreover have "distinct (filter ?on is)" using dist by (simp add: distinct_map)
  ultimately have "length (filter ?on is) \<le> 1" using distinct_card by metis
  moreover have "filter ?on is = []" if "\<not> (c' = c \<and> m \<in> reaches f (md_name md))"
    using that by (auto simp: filter_empty_conv reaches_def)
  ultimately show ?thesis unfolding len by (auto simp: if_splits)
qed

lemma fork_run_passes:
  assumes w: "hand f c (reaches f (md_name md)) w" and md: "registered f md" "is_fork (md_class md)"
  shows "yields (fork_run md g c s w) (has_run f c M)"
proof (rule yieldsI)
  fix r assume "fork_run md g c s w = Inr r"
  then obtain k where r: "r = (Mod_async, w\<lparr>w_pending := w_pending w @ map (fork_op md c) [0 ..< unat (k :: u16)]\<rparr>)"
    by (auto simp: fork_run_def dest!: fork_loop_starts)
  let ?ops = "map (fork_op md c) [0 ..< unat k]"
  have split: "forks_split f" using w by (simp add: hand_def tok_def)
  have "unat k < 2 ^ 16" using unsigned_less [of k, where ?'a = nat] by simp
  then have "unat k \<le> 65536" by simp
  note few = fork_tokens [OF split md _ fork_states_distinct [OF this], of _ c]
  have "tokens f (w_pending w @ ?ops) c' m \<le> 1" if "m \<in> tcp_names f" for c' m
    using few [OF that, of c'] w that
    by (cases "c' = c \<and> m \<in> reaches f (md_name md)") (auto simp: hand_def tok_def)
  moreover have "exchange_of (op_handler a) = None" "token f (op_handler a) = Some (c', N) \<Longrightarrow> c' = c"
    if "a \<in> set ?ops" for a c' N
    using that by (auto simp: fork_op_def)
  moreover have "exch_at (w\<lparr>w_pending := w_pending w @ ?ops\<rparr>) = exch_at w" by (rule exch_at_same) simp
  ultimately have "tok f (w\<lparr>w_pending := w_pending w @ ?ops\<rparr>)"
    using w unfolding hand_def tok_def by fastforce
  then show "has_run f c M r" by (simp add: r)
qed

lemma join_run_passes:
  assumes w: "hand f c (reaches f (md_name md)) w"
  shows "yields (join_run md g c s w) (has_run f c M)"
  unfolding join_run_def Let_def
proof (rule yields_bind [OF get_module_data_calm], clarify, rule yields_any)
  fix p d w0
  assume p: "\<forall>q. p = Some q \<longrightarrow> w0 = w \<and> mdata w c (md_name md) = Some (Some q)" and "deref (as_join p) = Inr d"
  then have "p = Some (Join_data d)" by (cases p rule: as_join.cases) auto
  with p have at: "w0 = w" "mdata w c (md_name md) = Some (Some (Join_data d))" by simp_all
  obtain j d' where arr: "join_arrive s d = (j, d')" by fastforce
  have put: "yields (put_module_data c (md_name md) (Join_data d') w) (calm w)"
  proof (rule yieldsI, erule put_module_data_Inr)
    fix w' cx assume "w' = put_ctx c (cx\<lparr>cx_module_data_map := sm_put (md_name md) (Some (Join_data d'))
        (cx_module_data_map cx)\<rparr>) w"
      and "\<And>c' n'. mdata w' c' n' =
        (if c' = c \<and> n' = md_name md then Some (Some (Join_data d')) else mdata w c' n')"
    with at(2) show "calm w w'" by (auto simp: calm_def exch_at_def fun_eq_iff)
  qed
  show "yields (case join_arrive s d of (joined, d') \<Rightarrow>
     rbind (put_module_data c (md_name md) (Join_data d') w0) (\<lambda>w.
     rbind (app_get c g w) (\<lambda>k.
       if joined = k then Inr (Mod_async, start_op (Async_wait (Module_timer c (md_name md) 0) 0
           (On_joined md c (if jd_failed_join d' then Mod_Failed else Mod_Succeed))) w)
       else Inr (Mod_async, w)))) (has_run f c M)"
    unfolding arr prod.case at(1)
  proof (rule hand_bind_world [OF w put], rule yields_any)
    fix k and w' :: "'a world" assume w': "hand f c (reaches f (md_name md)) w'"
    show "yields (if j = k then Inr (Mod_async, start_op (Async_wait (Module_timer c (md_name md) 0) 0
           (On_joined md c (if jd_failed_join d' then Mod_Failed else Mod_Succeed))) w')
       else Inr (Mod_async, w')) (has_run f c M)"
      using hand_tok [OF w'] leads_reaches by (auto intro!: hand_start [OF w'])
  qed
qed

section \<open>\<open>TcpModule\<close>\<close>

lemma with_lock_passes:
  assumes w: "hand f c M w" and body: "\<And>w'. hand f c M w' \<Longrightarrow> yields (body w') (has_run f c M)"
  shows "yields (with_tcp_lock md c body w) (has_run f c M)"
proof (rule yieldsI)
  fix r assume "with_tcp_lock md c body w = Inr r"
  then obtain w1 s w2 w' where *: "tcp_lock md c w = Inr w1" "body w1 = Inr (s, w2)"
    "tcp_unlock md c w2 = Inr w'" and r: "r = (s, w')"
    by (auto simp: with_tcp_lock_def)
  have "hand f c M w1" by (rule hand_calm [OF w]) (use *(1) yieldsD [OF tcp_lock_calm] in blast)
  from yieldsD [OF body [OF this] *(2)] show "has_run f c M r"
    unfolding r by (rule has_run_calm) (use *(3) yieldsD [OF tcp_unlock_calm] in blast)
qed

lemma in_lock_passes:
  assumes w: "hand f c M w" and body: "\<And>w'. hand f c M w' \<Longrightarrow> yields (body w') (tok f)"
  shows "yields (in_tcp_lock md c body w) (tok f)"
proof (rule yieldsI)
  fix w' assume "in_tcp_lock md c body w = Inr w'"
  then obtain w1 w2 where *: "tcp_lock md c w = Inr w1" "body w1 = Inr w2" "tcp_unlock md c w2 = Inr w'"
    by (auto simp: in_tcp_lock_def with_tcp_lock_def)
  have "hand f c M w1" by (rule hand_calm [OF w]) (use *(1) yieldsD [OF tcp_lock_calm] in blast)
  from yieldsD [OF body [OF this] *(2)] show "tok f w'"
    by (rule tok_calm) (use *(3) yieldsD [OF tcp_unlock_calm] in blast)
qed

text \<open>Code of a \<open>TcpModule\<close> with the token of its module in hand.\<close>

abbreviation at_tcp :: "'d fsm \<Rightarrow> 'd module \<Rightarrow> ctx_id \<Rightarrow> 'd world \<Rightarrow> bool" where
  "at_tcp f md c w \<equiv> hand f c (reaches f (md_name md)) w \<and> md_name md \<in> tcp_names f"

lemma tcp_modify_hand:
  assumes "at_tcp f md c w"
  shows "yields (tcp_modify md c g w) (\<lambda>w'. at_tcp f md c w' \<and>
    (\<exists>d. exch_at w c (md_name md) = (td_client d, td_socket_event d) \<and>
         exch_at w' c (md_name md) = (td_client (g d), td_socket_event (g d))))"
  by (rule yields_mono [OF tcp_modify_client])
    (use assms in \<open>auto simp: exch_at_def intro!: hand_client [of f c _ w "md_name md"]\<close>)

text \<open>An exchange is started before the event is opened; the order does not matter.\<close>

lemma tcp_modify_start_op:
  "tcp_modify md c g (start_op a w) = rbind (tcp_modify md c g w) (\<lambda>w'. Inr (start_op a w'))"
  by (cases "w_contexts w c")
    (auto simp: tcp_modify_def tcp_get_def get_module_data_def put_module_data_def get_ctx_def start_op_def
      put_ctx_def rbind_def deref_def split: prod.split option.split)

lemma start_exchange:
  assumes "at_tcp f md c w" and "client_at w c (md_name md) \<noteq> None"
    and "token f (op_handler a) = Some (c, reaches f (md_name md))"
    and "exchange_of (op_handler a) = Some (c, md_name md)"
  shows "yields (tcp_modify md c (\<lambda>d. d\<lparr>td_socket_event := Socket_Event_Opened\<rparr>) (start_op a w)) (tok f)"
  unfolding tcp_modify_start_op
proof (rule yields_bind [OF tcp_modify_hand [OF assms(1)]], clarsimp)
  fix w' d assume w': "hand f c (reaches f (md_name md)) w'" "md_name md \<in> tcp_names f"
    and at: "exch_at w c (md_name md) = (td_client d, td_socket_event d)"
      "exch_at w' c (md_name md) = (td_client d, Socket_Event_Opened)"
  show "tok f (start_op a w')"
    by (rule hand_start [OF w'(1) assms(3)]) (use w' at assms(2,4) in \<open>auto simp: exch_open_def\<close>)
qed

lemma send_request_passes:
  assumes "at_tcp f md c w"
  shows "yields (send_request md h c w) (has_run f c M)"
  unfolding send_request_def Let_def
proof (rule hand_bind [OF conjunct1 [OF assms] app_call_calm], unfold prod.case,
    rule yields_bind [OF the_client_at], clarify)
  fix req i and w1 :: "'a world"
  assume "hand f c (reaches f (md_name md)) w1" "client_at w1 c (md_name md) = Some i"
  with assms have "yields (tcp_modify md c (\<lambda>d. d\<lparr>td_socket_event := Socket_Event_Opened\<rparr>)
      (start_op (Async_write (Client_socket i) req (On_write_req md c req)) w1)) (tok f)"
    by (intro start_exchange) simp_all
  then show "yields (rbind (tcp_modify md c (\<lambda>d. d\<lparr>td_socket_event := Socket_Event_Opened\<rparr>)
      (start_op (Async_write (Client_socket i) req (On_write_req md c req)) w1)) (\<lambda>w. Inr (Mod_async, w))) (has_run f c M)"
    by (rule yields_bind) simp
qed

lemma send_with_timer_passes:
  assumes "at_tcp f md c w"
  shows "yields (send_with_timer md h c w) (has_run f c M)"
  unfolding send_with_timer_def
  by (rule hand_bind [OF conjunct1 [OF assms] timer_calm(3)], unfold prod.case, rule send_request_passes)
    (use assms in \<open>auto intro: hand_start_dead\<close>)

text \<open>Taking, making and giving back a client, with no operation of the module pending.\<close>

lemma set_client_hand:
  assumes "at_tcp f md c w"
  shows "yields (tcp_modify md c (\<lambda>d. d\<lparr>td_client := p\<rparr>) w)
    (\<lambda>w'. at_tcp f md c w' \<and> client_at w' c (md_name md) = p)"
  by (rule yields_mono [OF tcp_modify_hand [OF assms]]) auto

lemma calm_world: "calm w (w\<lparr>w_pools := ps, w_clients := hp\<rparr>)" "calm w (w\<lparr>w_clients := hp, w_next_client := k\<rparr>)"
  by (simp_all add: calm_def exch_at_def fun_eq_iff)

lemma tcp_take_client_hand:
  assumes "at_tcp f md c w"
  shows "yields (tcp_take_client env md pool c peer w) (\<lambda>(client, w'). at_tcp f md c w')"
proof -
  obtain client p hp where get: "get_client env peer (w_pools w pool) (w_clients w) = (client, p, hp)"
    by (rule prod_cases3)
  have "at_tcp f md c (w\<lparr>w_pools := (w_pools w)(pool := p), w_clients := hp\<rparr>)"
    using assms calm_world(1) by (blast intro: hand_calm)
  note set = set_client_hand [OF this, of client]
  show ?thesis
    unfolding tcp_take_client_def get Let_def prod.case by (rule yields_bind [OF set]) simp
qed

lemma tcp_give_client_hand:
  assumes "at_tcp f md c w"
  shows "yields (tcp_give_client env md pool c w) (at_tcp f md c)"
  unfolding tcp_give_client_def
proof (rule yields_bind [OF tcp_get_same], clarsimp split: prod.split)
  fix d p hp
  have "at_tcp f md c (w\<lparr>w_pools := (w_pools w)(pool := p), w_clients := hp\<rparr>)"
    using assms calm_world(1) by (blast intro: hand_calm)
  from set_client_hand [OF this]
  show "yields (tcp_modify md c (\<lambda>d. d\<lparr>td_client := None\<rparr>)
      (w\<lparr>w_pools := (w_pools w)(pool := p), w_clients := hp\<rparr>)) (at_tcp f md c)"
    by (rule yields_mono) simp
qed

lemma tcp_connect_passes:
  assumes w: "at_tcp f md c w"
  shows "yields (tcp_connect env md h c peer ip port w) (has_run f c (reaches f (md_name md)))"
proof -
  have conn: "yields (let (i, w) = client_new env peer w1 in
             rbind (tcp_modify md c (\<lambda>d. d\<lparr>td_client := Some i\<rparr>) w) (\<lambda>w.
               let w = start_op (Async_connect (Client_socket i) ip port (On_connect md c ip port)) w in
             rbind (tcp_modify md c (\<lambda>d. d\<lparr>td_socket_event := Socket_Event_Opened\<rparr>) w) (\<lambda>w.
               Inr (Mod_async, w)))) (has_run f c (reaches f (md_name md)))"
    if w1: "at_tcp f md c w1" for w1
  proof -
    obtain i w2 where new: "client_new env peer w1 = (i, w2)" by fastforce
    then have "calm w1 w2" by (auto simp: client_new_def Let_def intro: calm_world(2))
    with w1 have "at_tcp f md c w2" by (blast intro: hand_calm)
    note set = set_client_hand [OF this, of "Some i"]
    show ?thesis
      unfolding new Let_def prod.case
      by (rule yields_bind [OF set], rule yields_bind [OF start_exchange [where f = f]]) auto
  qed
  have "yields (rbind (tcp_timer md c w) (\<lambda>(timer, w).
          let w = start_op (Async_wait timer (tm_get_connect_time_out_ms h)
                              (On_handle_connect_time_out md c ip port)) w in
          if \<not> ev_socket_opens env then Inr (Mod_Failed, w)
          else
            (let (i, w) = client_new env peer w in
             rbind (tcp_modify md c (\<lambda>d. d\<lparr>td_client := Some i\<rparr>) w) (\<lambda>w.
               let w = start_op (Async_connect (Client_socket i) ip port (On_connect md c ip port)) w in
             rbind (tcp_modify md c (\<lambda>d. d\<lparr>td_socket_event := Socket_Event_Opened\<rparr>) w) (\<lambda>w.
               Inr (Mod_async, w)))))) (has_run f c (reaches f (md_name md)))"
  proof (rule hand_bind [OF conjunct1 [OF w] timer_calm(3)], unfold prod.case)
    fix timer and w' :: "'a world" assume w': "hand f c (reaches f (md_name md)) w'"
    let ?w = "start_op (Async_wait timer (tm_get_connect_time_out_ms h) (On_handle_connect_time_out md c ip port)) w'"
    have dead: "hand f c (reaches f (md_name md)) ?w" by (rule hand_start_dead [OF w']) simp
    with conn [of ?w] w show "yields (let w = ?w in
          if \<not> ev_socket_opens env then Inr (Mod_Failed, w)
          else
            (let (i, w) = client_new env peer w in
             rbind (tcp_modify md c (\<lambda>d. d\<lparr>td_client := Some i\<rparr>) w) (\<lambda>w.
               let w = start_op (Async_connect (Client_socket i) ip port (On_connect md c ip port)) w in
             rbind (tcp_modify md c (\<lambda>d. d\<lparr>td_socket_event := Socket_Event_Opened\<rparr>) w) (\<lambda>w.
               Inr (Mod_async, w))))) (has_run f c (reaches f (md_name md)))"
      by (cases "ev_socket_opens env") (simp_all only: Let_def if_True if_False not_True_eq_False not_False_eq_True
          yields_simps has_run_hand simp_thms)
  qed
  then show ?thesis unfolding tcp_connect_def using has_run_hand [OF conjunct1 [OF w]] by simp
qed

lemma tcp_run_passes:
  assumes w: "at_tcp f md c w"
  shows "yields (tcp_run env md pool h c s w) (has_run f c (reaches f (md_name md)))"
proof -
  have none: "yields (rbind (app_call c (tm_get_server_ip_port h) w1) (\<lambda>(addr, w).
      case addr of
        None \<Rightarrow> Inr (Mod_Failed, w)
      | Some (ip, port) \<Rightarrow> tcp_connect env md h c t ip port w)) (has_run f c (reaches f (md_name md)))"
    if "hand f c (reaches f (md_name md)) w1" for t w1
    by (rule hand_bind [OF that app_call_calm])
      (use w in \<open>auto split: option.split intro!: tcp_connect_passes has_run_hand\<close>)
  have body: "yields (rbind (tcp_take_client env md pool c t w1) (\<lambda>(client, w).
             case client of
               None \<Rightarrow>
                 rbind (app_call c (tm_get_server_ip_port h) w) (\<lambda>(addr, w).
                   case addr of
                     None \<Rightarrow> Inr (Mod_Failed, w)
                   | Some (ip, port) \<Rightarrow> tcp_connect env md h c t ip port w)
             | Some _ \<Rightarrow> send_with_timer md h c w)) (has_run f c (reaches f (md_name md)))"
    if "hand f c (reaches f (md_name md)) w1" for t w1
    by (rule yields_bind [OF tcp_take_client_hand [of f]])
      (use that w in \<open>auto split: option.split intro!: send_with_timer_passes none\<close>)
  note locked = with_lock_passes [OF conjunct1 [OF w] body]
  show ?thesis
    unfolding tcp_run_def Let_def
    by (rule yields_any) (use locked has_run_hand [OF conjunct1 [OF w]] in simp)
qed

lemma module_run_passes:
  assumes w: "hand f c (reaches f (md_name md)) w" and reg: "registered f md"
  shows "yields (module_run env md c s w) (has_run f c (reaches f (md_name md)))"
proof (cases "md_class md")
  case (TcpModule pool h)
  with reg have "md_name md \<in> tcp_names f" by (auto simp: tcp_names_def)
  with w tcp_run_passes [of f c md w env pool h s] TcpModule show ?thesis by (simp add: module_run_def)
qed (use w reg in \<open>auto simp: module_run_def intro: simple_run_passes request_run_passes response_run_passes
    fork_run_passes join_run_passes\<close>)

interpretation passing: token_passing "module_run env" f for env f
  by unfold_locales (rule module_run_passes)

section \<open>The completion handlers\<close>

lemma app_do_bind:
  "hand f c M w \<Longrightarrow> (\<And>w'. hand f c M w' \<Longrightarrow> yields (g w') P) \<Longrightarrow> yields (rbind (app_do c k w) g) P"
  by (rule hand_bind_world [OF _ app_do_calm])

lemma read_failed_passes:
  assumes w: "hand f c (reaches f (md_name md)) w"
  shows "yields (read_failed env (module_run env) n md on_failed c ec w) (tok f)"
proof -
  have "yields (rbind (request_cancel_timer env md c w) (\<lambda>(ok, w).
          if \<not> ok then Inr w
          else
            rbind (app_do c on_failed w) (\<lambda>w.
            rbind (context_exit c w) (\<lambda>w. resume (module_run env) n md Mod_Failed c w)))) (tok f)"
    by (rule hand_bind [OF w cancel_timer_calm(1)])
      (auto intro: hand_tok app_do_bind passing.exit_resume_from)
  with passing.exit_resume_from [OF w] show ?thesis by (simp add: read_failed_def)
qed

lemma on_read_version_passes:
  assumes "hand f c (reaches f (md_name md)) w"
  shows "yields (on_read_version env (module_run env) n md h c buf len ec w) (tok f)"
  unfolding on_read_version_def Let_def
proof (rule hand_bind [OF assms read_accepted_calm], unfold prod.case)
  fix ok and w1 :: "'a world" assume w1: "hand f c (reaches f (md_name md)) w1"
  have start: "tok f (start_op (Async_read sk hl (On_read_head md c hl))
      (start_op (Async_wait timer ms (On_read_time_out 2 md c)) w2))"
    if "hand f c (reaches f (md_name md)) w2" for sk hl timer ms w2
    by (rule hand_pass [OF hand_start_dead [OF that]]) simp_all
  have more: "yields (rbind (request_timer md c w2) (\<lambda>(timer, w).
      Inr (start_op (Async_read sk hl (On_read_head md c hl))
        (start_op (Async_wait timer ms (On_read_time_out 2 md c)) w)))) (tok f)"
    if "hand f c (reaches f (md_name md)) w2" for sk hl ms w2
    by (rule hand_bind [OF that timer_calm(1)]) (simp add: start)
  have "yields (rbind (app_get c (rq_get_head_len h) w2) (\<lambda>head_len.
      rbind (get_ctx c w2) (\<lambda>cx.
      rbind (request_timer md c w2) (\<lambda>(timer, w).
        Inr (start_op (Async_read (Conn_socket (cx_conn cx)) head_len (On_read_head md c head_len))
          (start_op (Async_wait timer (rq_get_read_head_and_body_time_out_ms h) (On_read_time_out 2 md c)) w))))))
      (tok f)" if "hand f c (reaches f (md_name md)) w2" for w2
    by (rule yields_any, rule yields_any, rule more [OF that])
  then have "yields (rbind (request_cancel_timer env md c w1) (\<lambda>(cancelled, w).
       if \<not> cancelled then Inr w
       else
         rbind (app_get c (rq_get_head_len h) w) (\<lambda>head_len.
         rbind (get_ctx c w) (\<lambda>cx.
         rbind (request_timer md c w) (\<lambda>(timer, w).
           Inr (start_op (Async_read (Conn_socket (cx_conn cx)) head_len (On_read_head md c head_len))
             (start_op (Async_wait timer (rq_get_read_head_and_body_time_out_ms h) (On_read_time_out 2 md c)) w)))))))
       (tok f)"
    by (intro hand_bind [OF w1 cancel_timer_calm(1)]) (simp add: hand_tok)
  with read_failed_passes [OF w1] show "yields (if \<not> ok
      then read_failed env (module_run env) n md (rq_on_read_version_failed h) c ec w1
      else rbind (request_cancel_timer env md c w1) (\<lambda>(cancelled, w).
       if \<not> cancelled then Inr w
       else
         rbind (app_get c (rq_get_head_len h) w) (\<lambda>head_len.
         rbind (get_ctx c w) (\<lambda>cx.
         rbind (request_timer md c w) (\<lambda>(timer, w).
           Inr (start_op (Async_read (Conn_socket (cx_conn cx)) head_len (On_read_head md c head_len))
             (start_op (Async_wait timer (rq_get_read_head_and_body_time_out_ms h) (On_read_time_out 2 md c)) w)))))))
      (tok f)"
    by simp
qed

lemma on_read_head_passes:
  assumes "hand f c (reaches f (md_name md)) w"
  shows "yields (on_read_head env (module_run env) n md h c buf len ec w) (tok f)"
  unfolding on_read_head_def
  by (rule hand_bind [OF assms read_accepted_calm])
    (auto intro!: read_failed_passes yields_any hand_pass [of f c "reaches f (md_name md)"])

lemma on_read_body_passes:
  assumes "hand f c (reaches f (md_name md)) w"
  shows "yields (on_read_body env (module_run env) n md h c buf len ec w) (tok f)"
  unfolding on_read_body_def
proof (rule hand_bind [OF assms read_accepted_calm], unfold prod.case)
  fix ok and w1 :: "'a world" assume w1: "hand f c (reaches f (md_name md)) w1"
  have "yields (rbind (request_cancel_timer env md c w1) (\<lambda>(cancelled, w).
      if \<not> cancelled then Inr w
      else rbind (app_get c (rq_get_succeed_state h) w) (\<lambda>state. resume (module_run env) n md state c w))) (tok f)"
    by (rule hand_bind [OF w1 cancel_timer_calm(1)]) (auto intro!: yields_any passing.resume_from hand_tok)
  with read_failed_passes [OF w1] show "yields (if \<not> ok
      then read_failed env (module_run env) n md (rq_on_read_body_failed h) c ec w1
      else rbind (request_cancel_timer env md c w1) (\<lambda>(cancelled, w).
      if \<not> cancelled then Inr w
      else rbind (app_get c (rq_get_succeed_state h) w) (\<lambda>state. resume (module_run env) n md state c w))) (tok f)"
    by simp
qed

lemma on_write_resp_passes:
  assumes "hand f c (reaches f (md_name md)) w"
  shows "yields (on_write_resp env (module_run env) n md h c ec w) (tok f)"
proof -
  have "yields (rbind (response_cancel_timer env md c w) (\<lambda>(ok, w). if \<not> ok then Inr w
      else rbind (app_do c g w) (\<lambda>w. resume (module_run env) n md Mod_Succeed c w))) (tok f)" for g
    by (rule hand_bind [OF assms cancel_timer_calm(2)]) (auto intro: hand_tok app_do_bind passing.resume_from)
  moreover have "yields (rbind (response_cancel_timer env md c w) (\<lambda>(ok, w). if \<not> ok then Inr w
      else rbind (app_do c g w) (\<lambda>w. rbind (context_exit c w) (\<lambda>w. resume (module_run env) n md Mod_Failed c w)))) (tok f)" for g
    by (rule hand_bind [OF assms cancel_timer_calm(2)]) (auto intro: hand_tok app_do_bind passing.exit_resume_from)
  ultimately show ?thesis using passing.exit_resume_from [OF assms] by (simp add: on_write_resp_def)
qed

text \<open>The socket handlers of \<open>TcpModule\<close>.\<close>

lemma tcp_event_passes:
  assumes w: "at_tcp f md c w"
    and body: "\<And>w'. hand f c (reaches f (md_name md)) w' \<Longrightarrow> yields (body w') (tok f)"
  shows "yields (tcp_event md c body w) (tok f)"
  unfolding tcp_event_def
proof (rule in_lock_passes [OF conjunct1 [OF w]], rule yields_bind [OF tcp_get_same], clarify)
  fix d and w' :: "'a world" assume w': "hand f c (reaches f (md_name md)) w'"
  have "yields (rbind (tcp_modify md c (\<lambda>d. d\<lparr>td_socket_event := Socket_Event_Closed\<rparr>) w') body) (tok f)"
    by (rule yields_bind [OF tcp_modify_hand [of f]]) (use w w' in \<open>auto intro: body\<close>)
  with hand_tok [OF w'] show "yields (if td_socket_event d \<noteq> Socket_Event_Opened then Inr w'
      else rbind (tcp_modify md c (\<lambda>d. d\<lparr>td_socket_event := Socket_Event_Closed\<rparr>) w') body) (tok f)"
    by simp
qed

lemma tcp_failed_passes:
  assumes w: "hand f c (reaches f (md_name md)) w" and failed: "\<And>w'. yields (on_failed w') (calm w')"
  shows "yields (tcp_failed env (module_run env) n md on_failed c ec w) (tok f)"
proof -
  have "yields (rbind (on_failed w1) (\<lambda>w. resume (module_run env) n md Mod_Failed c w)) (tok f)"
    if "hand f c (reaches f (md_name md)) w1" for w1
    by (rule hand_bind_world [OF that failed]) (rule passing.resume_from)
  then have "yields (rbind (cancel_time_out_timer env md c w) (\<lambda>(ok, w). if \<not> ok then Inr w
      else rbind (on_failed w) (\<lambda>w. resume (module_run env) n md Mod_Failed c w))) (tok f)"
    by (intro hand_bind [OF w cancel_timer_calm(3)]) (simp add: hand_tok)
  with passing.resume_from [OF w] show ?thesis by (simp add: tcp_failed_def)
qed

lemma on_connect_passes:
  assumes w: "at_tcp f md c w"
  shows "yields (on_connect env (module_run env) n md h c ip port ec w) (tok f)"
  unfolding on_connect_def
proof (rule tcp_event_passes [OF w])
  fix w' :: "'a world" assume w': "hand f c (reaches f (md_name md)) w'"
  have "yields (rbind (send_with_timer md h c w1) (\<lambda>(_, w). Inr w)) (tok f)"
    if "hand f c (reaches f (md_name md)) w1" for w1
    by (rule yields_bind [OF send_with_timer_passes [of f]]) (use that w in \<open>auto simp: has_run_def\<close>)
  then have "yields (rbind (cancel_time_out_timer env md c w') (\<lambda>(ok, w). if \<not> ok then Inr w
      else rbind (send_with_timer md h c w) (\<lambda>(_, w). Inr w))) (tok f)"
    by (intro hand_bind [OF w' cancel_timer_calm(3)]) (simp add: hand_tok)
  with tcp_failed_passes [OF w' app_do_calm] show "yields (if ec_set ec
      then tcp_failed env (module_run env) n md (app_do c (tm_on_connect_failed h ip port)) c ec w'
      else rbind (cancel_time_out_timer env md c w') (\<lambda>(ok, w). if \<not> ok then Inr w
        else rbind (send_with_timer md h c w) (\<lambda>(_, w). Inr w))) (tok f)"
    by simp
qed

lemma open_read_passes:
  assumes w: "at_tcp f md c w" and a: "token f hdl = Some (c, reaches f (md_name md))"
    "exchange_of hdl = Some (c, md_name md)"
  shows "yields (rbind (tcp_the_client md c w) (\<lambda>(i, w).
      tcp_modify md c (\<lambda>d. d\<lparr>td_socket_event := Socket_Event_Opened\<rparr>)
        (start_op (Async_read (Client_socket i) len hdl) w))) (tok f)"
  by (rule yields_bind [OF the_client_at], clarify, rule start_exchange [OF w]) (simp_all add: a)

lemma on_write_req_passes:
  assumes w: "at_tcp f md c w"
  shows "yields (on_write_req env (module_run env) n md h c ec w) (tok f)"
  unfolding on_write_req_def Let_def
  by (rule tcp_event_passes [OF w])
    (use w in \<open>auto intro!: tcp_failed_passes app_do_calm open_read_passes\<close>)

lemma tcp_close_client_calm: "yields (tcp_close_client md c w) (calm w)"
  unfolding tcp_close_client_def
  by (rule yields_bind [OF the_client_at]) (auto simp: calm_def exch_at_def fun_eq_iff)

lemma close_app_calm: "yields (rbind (tcp_close_client md c w) (\<lambda>w. app_do c g w)) (calm w)"
  by (rule yields_bind [OF tcp_close_client_calm], rule yields_mono [OF app_do_calm]) (auto intro: calm_trans)

lemma on_recv_resp_head_passes:
  assumes w: "at_tcp f md c w"
  shows "yields (on_recv_resp_head env (module_run env) n md h c buf len ec w) (tok f)"
  unfolding on_recv_resp_head_def
proof (rule tcp_event_passes [OF w])
  fix w' :: "'a world" assume w': "hand f c (reaches f (md_name md)) w'"
  have judge: "calms w' (if ec_set ec then Inr (False, w') else app_call c (tm_on_read_head_impl h buf len) w')"
    using app_call_calm [of c "tm_on_read_head_impl h buf len" w'] by simp
  show "yields (rbind (if ec_set ec then Inr (False, w') else app_call c (tm_on_read_head_impl h buf len) w')
      (\<lambda>(ok, w). if \<not> ok then
           tcp_failed env (module_run env) n md
             (\<lambda>w. rbind (tcp_close_client md c w) (\<lambda>w. app_do c (tm_on_read_head_failed h) w)) c ec w
         else
           rbind (app_get c (tm_get_resp_body_len h) w) (\<lambda>body_len.
           rbind (tcp_the_client md c w) (\<lambda>(i, w).
             tcp_modify md c (\<lambda>d. d\<lparr>td_socket_event := Socket_Event_Opened\<rparr>)
               (start_op (Async_read (Client_socket i) body_len
                            (On_recv_resp_body md c body_len)) w))))) (tok f)"
    by (rule hand_bind [OF w' judge])
      (use w in \<open>auto intro!: tcp_failed_passes close_app_calm yields_any [where r = "app_get _ _ _"] open_read_passes\<close>)
qed

lemma on_recv_resp_body_passes:
  assumes w: "at_tcp f md c w"
  shows "yields (on_recv_resp_body env (module_run env) n md pool h c buf len ec w) (tok f)"
  unfolding on_recv_resp_body_def
proof (rule tcp_event_passes [OF w])
  fix w' :: "'a world" assume w': "hand f c (reaches f (md_name md)) w'"
  have "yields (rbind (app_call c (tm_on_read_body_impl h buf len) w1) (\<lambda>(ret, w).
        resume (module_run env) n md (if ret then Mod_Succeed else Mod_Failed) c w)) (tok f)"
    if "hand f c (reaches f (md_name md)) w1" for w1
    by (rule hand_bind [OF that app_call_calm]) (simp add: passing.resume_from)
  then have "yields (rbind (tcp_give_client env md pool c w1) (\<lambda>w.
      rbind (app_call c (tm_on_read_body_impl h buf len) w) (\<lambda>(ret, w).
        resume (module_run env) n md (if ret then Mod_Succeed else Mod_Failed) c w))) (tok f)"
    if "hand f c (reaches f (md_name md)) w1" for w1
    using that w by (intro yields_bind [OF tcp_give_client_hand [of f]]) auto
  then have "yields (rbind (cancel_time_out_timer env md c w') (\<lambda>(ok, w). if \<not> ok then Inr w
      else rbind (tcp_give_client env md pool c w) (\<lambda>w.
        rbind (app_call c (tm_on_read_body_impl h buf len) w) (\<lambda>(ret, w).
          resume (module_run env) n md (if ret then Mod_Succeed else Mod_Failed) c w)))) (tok f)"
    by (intro hand_bind [OF w' cancel_timer_calm(3)]) (simp add: hand_tok)
  with tcp_failed_passes [OF w' app_do_calm] show "yields (if ec_set ec
      then tcp_failed env (module_run env) n md (app_do c (tm_on_read_body_failed h)) c ec w'
      else rbind (cancel_time_out_timer env md c w') (\<lambda>(ok, w). if \<not> ok then Inr w
      else rbind (tcp_give_client env md pool c w) (\<lambda>w.
        rbind (app_call c (tm_on_read_body_impl h buf len) w) (\<lambda>(ret, w).
          resume (module_run env) n md (if ret then Mod_Succeed else Mod_Failed) c w)))) (tok f)"
    by simp
qed

section \<open>The event loop\<close>

lemma cancel_socket_calm [simp]: "calm w (cancel_socket so w') = calm w w'"
  by (simp add: calm_def exch_at_def fun_eq_iff)

lemma time_out_calm:
  "yields (on_read_time_out env h flag c ec w) (calm w)" "yields (on_write_time_out env h' c ec w) (calm w)"
  unfolding on_read_time_out_def on_write_time_out_def
  by (rule yieldsI, auto dest: yieldsD [OF app_do_calm] dest!: cancel_conn_Inr split: if_splits)+

lemma tcp_cancel_client_calm: "yields (tcp_cancel_client md c w) (calm w)"
  by (rule yieldsI) (auto dest!: tcp_cancel_client_Inr)

lemma tcp_time_out_calm:
  "yields (in_tcp_lock md c (\<lambda>w. if ec_set ec then Inr w
     else rbind (tcp_cancel_client md c w) (\<lambda>w. app_do c g w)) w) (calm w)"
proof (rule yieldsI)
  fix w' assume "in_tcp_lock md c (\<lambda>w. if ec_set ec then Inr w
    else rbind (tcp_cancel_client md c w) (\<lambda>w. app_do c g w)) w = Inr w'"
  then obtain w1 w2 where *: "tcp_lock md c w = Inr w1"
    "(if ec_set ec then Inr w1 else rbind (tcp_cancel_client md c w1) (\<lambda>w. app_do c g w)) = Inr w2"
    "tcp_unlock md c w2 = Inr w'"
    by (auto simp: in_tcp_lock_def with_tcp_lock_def)
  have "calm w1 w2" using *(2)
    by (auto dest!: yieldsD [OF tcp_cancel_client_calm] yieldsD [OF app_do_calm] intro: calm_trans split: if_splits)
  with yieldsD [OF tcp_lock_calm *(1)] yieldsD [OF tcp_unlock_calm *(3)] show "calm w w'"
    by (blast intro: calm_trans)
qed

lemma on_accepted_passes:
  assumes "tok f w"
  shows "yields (on_accepted (module_run env) n conn ec w) (tok f)"
proof -
  obtain c w1 where new: "context_new conn w = (c, w1)" by fastforce
  have acc: "tok f (start_accept w')" if "tok f w'" for w'
  proof -
    have "tok f (w'\<lparr>w_next_conn := k\<rparr>)" for k
      by (rule tok_calm [OF that]) (simp add: calm_def exch_at_def fun_eq_iff)
    then show ?thesis by (simp add: start_accept_def Let_def tok_start_dead)
  qed
  have "yields (rbind (context_init c w1) (\<lambda>w. rbind (handle_request (module_run env) n c w)
      (\<lambda>w. Inr (start_accept w)))) (tok f)"
    by (rule yields_bind [OF new_context_hand [OF assms new]],
        rule yields_bind [OF passing.interpreter_passes(3)]) (auto intro: acc)
  with new show ?thesis by (simp add: on_accepted_def)
qed

text \<open>The operation that completes hands its token to its handler.\<close>

lemma tokens_remove:
  assumes "i < length as"
  shows "tokens f as c m = (if covers f c m (as ! i) then 1 else 0) + tokens f (take i as @ drop (Suc i) as) c m"
  by (subst id_take_nth_drop [OF assms]) (simp add: tokens_def)

lemma remove_tok:
  assumes w: "tok f w" and i: "i < length (w_pending w)"
  shows "tok f (remove_op i w)"
proof -
  have "tokens f (w_pending (remove_op i w)) c m \<le> tokens f (w_pending w) c m" for c m
    using tokens_remove [OF i, of f c m] by (simp add: remove_op_def)
  then have "tokens f (w_pending (remove_op i w)) c m \<le> 1" if "m \<in> tcp_names f" for c m
    by (rule order_trans) (use w that in \<open>simp add: tok_def\<close>)
  moreover have "a \<in> set (w_pending w)" if "a \<in> set (w_pending (remove_op i w))" for a
    using that by (auto simp: remove_op_def dest: in_set_takeD in_set_dropD)
  moreover have "exch_at (remove_op i w) = exch_at w" "w_fsm (remove_op i w) = w_fsm w"
    "w_next_ctx (remove_op i w) = w_next_ctx w"
    by (simp_all add: remove_op_def exch_at_def fun_eq_iff)
  ultimately show ?thesis using w by (simp add: tok_def) blast
qed

lemma remove_hand:
  assumes w: "tok f w" and i: "i < length (w_pending w)"
    and t: "token f (op_handler (w_pending w ! i)) = Some (c, M)"
  shows "hand f c M (remove_op i w)"
proof -
  have "c < w_next_ctx w" using w t nth_mem [OF i] by (auto simp: tok_def)
  moreover have "tokens f (w_pending (remove_op i w)) c m = 0" if "m \<in> tcp_names f \<inter> M" for m
  proof -
    have "covers f c m (w_pending w ! i)" using t that by (auto simp: covers_def)
    moreover have "tokens f (w_pending w) c m \<le> 1" using w that by (simp add: tok_def)
    ultimately show ?thesis using tokens_remove [OF i, of f c m] by (simp add: remove_op_def)
  qed
  ultimately show ?thesis using remove_tok [OF w i] by (simp add: hand_def remove_op_def)
qed

lemma tok_exchange:
  "tok f w \<Longrightarrow> a \<in> set (w_pending w) \<Longrightarrow> exchange_of (op_handler a) = Some (c, n) \<Longrightarrow>
     n \<in> tcp_names f \<and> exch_open (exch_at w c n)"
  unfolding tok_def by blast

lemma remove_tcp:
  "tok f w \<Longrightarrow> i < length (w_pending w) \<Longrightarrow> exchange_of (op_handler (w_pending w ! i)) = Some (c, n) \<Longrightarrow>
     n \<in> tcp_names f"
  using tok_exchange [OF _ nth_mem] by blast

lemmas handlers_pass = on_read_version_passes on_read_head_passes on_read_body_passes on_write_resp_passes
  on_connect_passes on_write_req_passes on_recv_resp_head_passes on_recv_resp_body_passes
  passing.resume_passes on_accepted_passes

lemmas handlers_calm = time_out_calm tcp_time_out_calm

lemma complete_passes:
  assumes w: "tok f w" and i: "i < length (w_pending w)"
  shows "yields (complete env n i ec buf w) (tok f)"
proof -
  note hand = remove_hand [OF w i] and tcp = remove_tcp [OF w i] and tok = remove_tok [OF w i]
  have calm: "yields r (tok f)" if "yields r (calm (remove_op i w))" for r
    by (rule yields_mono [OF that]) (rule tok_calm [OF tok])
  show ?thesis
    unfolding complete_def
    by (cases "op_handler (w_pending w ! i)")
      (use hand tcp tok in \<open>auto simp: on_handle_connect_time_out_def on_handle_time_out_def on_forked_def
        on_joined_def split: module_class.split intro!: handlers_pass calm [OF handlers_calm(1)]
        calm [OF handlers_calm(2)] calm [OF handlers_calm(3)]\<close>)
qed

lemma sweep_tok: "tok f w \<Longrightarrow> sweep_pool env ks p w = Inr w' \<Longrightarrow> tok f w'"
  by (erule tok_calm) (auto simp: sweep_pool_def intro: calm_world(1))

section \<open>No exchange loses its client\<close>

text \<open>The server of \<open>Server_Safety\<close> at its start, with a machine whose forks split.\<close>

definition split_start :: "(string \<Rightarrow> nat) \<Rightarrow> nat \<Rightarrow> 'd world \<Rightarrow> bool" where
  "split_start rank n w \<longleftrightarrow> server_start rank n w \<and> forks_split (w_fsm w)"

definition split_inv :: "(string \<Rightarrow> nat) \<Rightarrow> nat \<Rightarrow> 'd world \<Rightarrow> bool" where
  "split_inv rank n w \<longleftrightarrow> server_inv rank n w \<and> tok (w_fsm w) w"

lemma split_start_inv: "split_start rank n w \<Longrightarrow> split_inv rank n w"
proof -
  assume start: "split_start rank n w"
  then have "token (w_fsm w) (op_handler a) = None" if "a \<in> set (w_pending w)" for a
    using that by (auto simp: split_start_def server_start_def)
  moreover have "exchange_of (op_handler a) = None" if "a \<in> set (w_pending w)" for a
    using that start by (auto simp: split_start_def server_start_def)
  ultimately have "tok (w_fsm w) w"
    using start by (auto simp: tok_def tokens_def covers_def split_start_def server_start_def)
  with start server_start_inv [of rank n w] show ?thesis by (simp add: split_start_def split_inv_def)
qed

lemma split_step_inv:
  assumes "split_inv rank n w" and step: "loop_step any_env n w w'"
  shows "split_inv rank n w'"
proof -
  from assms(1) have inv: "server_inv rank n w" "tok (w_fsm w) w" by (simp_all add: split_inv_def)
  from step have "tok (w_fsm w) w'"
    by (rule loop_stepE) (use inv(2) in \<open>auto dest: yieldsD [OF complete_passes] intro: sweep_tok\<close>)
  moreover from this have "w_fsm w' = w_fsm w" by (simp add: tok_def)
  ultimately show ?thesis using server_step_inv [OF inv(1) step] by (simp add: split_inv_def)
qed

interpretation split_machine: invariant "split_start rank n" "loop_step any_env n" "split_inv rank n" for rank n
  by unfold_locales (erule split_start_inv, erule (1) split_step_inv)

lemma orphans_exchange:
  "orphans h w \<Longrightarrow> \<exists>c n. exchange_of h = Some (c, n) \<and> client_at w c n = None"
  by (cases h) (auto simp: orphaned_def exch_at_def)

lemma tok_not_orphaned:
  assumes "tok f w" and "i < length (w_pending w)"
  shows "\<not> orphans (op_handler (w_pending w ! i)) w"
  using tok_exchange [OF assms(1) nth_mem [OF assms(2)]] orphans_exchange by (fastforce simp: exch_open_def)

lemma split_complete:
  assumes "split_inv rank n w" and "i < length (w_pending w)"
  shows "if cancel_throws env ec (op_handler (w_pending w ! i)) w
    then complete env n i ec buf w = Inl Uncaught_exception
    else \<exists>w'. complete env n i ec buf w = Inr w'"
  using complete_cases [OF _ _ assms(2), of rank n env ec buf] assms(1) tok_not_orphaned [OF _ assms(2)]
  by (auto simp: split_inv_def server_inv_def dest: returnsD split: if_splits)

text \<open>
  C2: When the machine is well-formed, its links descend in a rank, and no two branches of a fork lead to the same
  \<open>TcpModule\<close> (a machine without forks, for one), only a failing \<open>socket().cancel()\<close> on the client
  connection can end the server: in every state reachable in any environment, whichever pending
  operation completes, with whatever result, its handler returns, except that the exception escapes
  exactly when a read or write timer of the connection has expired and the cancel fails. At most one
  pending operation of a request can bring the machine to a given \<open>TcpModule\<close>, and as long as a socket
  operation of a module is pending, the module has its client and its socket event is open, so the
  completion is never taken for one that was already called.
\<close>

theorem split_server_never_crashes:
  assumes "reach (split_start rank n) (loop_step any_env n) w" and "i < length (w_pending w)"
  shows "(if cancel_throws env ec (op_handler (w_pending w ! i)) w
      then complete env n i ec buf w = Inl Uncaught_exception
      else \<exists>w'. complete env n i ec buf w = Inr w') \<and>
    (\<forall>c m. m \<in> tcp_names (w_fsm w) \<longrightarrow> tokens (w_fsm w) (w_pending w) c m \<le> 1) \<and>
    (\<forall>c m. exchange_of (op_handler (w_pending w ! i)) = Some (c, m) \<longrightarrow> exch_open (exch_at w c m))"
proof -
  note inv = split_machine.inv_reach [OF assms(1)]
  then have "tok (w_fsm w) w" by (simp add: split_inv_def)
  with split_complete [OF inv assms(2)] tok_exchange [OF this nth_mem [OF assms(2)]] show ?thesis
    by (simp add: tok_def)
qed

end
