(* ===== verification/Request_Progress.thy ===== *)
theory Request_Progress
  imports Single_Exchange "HOL-Library.Multiset"
begin

text \<open>
  Every request is worked off. Each completion of an operation of a context starts, for that
  context, only operations of smaller weight, and every other context keeps its operations; so in
  the multiset order the pending operations of a context go down with each completion, and no
  run of the event loop completes operations of the same context for ever, however many branches
  it forks and however many other requests arrive.
\<close>

section \<open>The weight of an operation\<close>

text \<open>
  What is left to do when an operation completes: the rank of its module in the machine, and
  within a module the place in the sequence of its operations.
\<close>

fun weight :: "(string \<Rightarrow> nat) \<Rightarrow> 'd handler \<Rightarrow> (ctx_id \<times> nat) option" where
  "weight rank (On_read_version md c len) = Some (c, 8 * rank (md_name md) + 4)"
| "weight rank (On_read_head md c len) = Some (c, 8 * rank (md_name md) + 3)"
| "weight rank (On_read_body md c len) = Some (c, 8 * rank (md_name md) + 2)"
| "weight rank (On_read_time_out flag md c) = Some (c, 8 * rank (md_name md))"
| "weight rank (On_write_resp md c) = Some (c, 8 * rank (md_name md) + 2)"
| "weight rank (On_write_time_out md c) = Some (c, 8 * rank (md_name md))"
| "weight rank (On_connect md c ip port) = Some (c, 8 * rank (md_name md) + 4)"
| "weight rank (On_handle_connect_time_out md c ip port) = Some (c, 8 * rank (md_name md))"
| "weight rank (On_write_req md c req) = Some (c, 8 * rank (md_name md) + 3)"
| "weight rank (On_recv_resp_head md c len) = Some (c, 8 * rank (md_name md) + 2)"
| "weight rank (On_recv_resp_body md c len) = Some (c, 8 * rank (md_name md) + 1)"
| "weight rank (On_handle_time_out md c) = Some (c, 8 * rank (md_name md))"
| "weight rank (On_forked md c s) = Some (c, 8 * rank (md_name md) + 1)"
| "weight rank (On_joined md c s) = Some (c, 8 * rank (md_name md) + 1)"
| "weight rank (On_accepted conn) = None"

text \<open>The weights of the pending operations of a context.\<close>

definition work_of :: "(string \<Rightarrow> nat) \<Rightarrow> ctx_id \<Rightarrow> 'd async_op \<Rightarrow> nat multiset" where
  "work_of rank c a =
     (case weight rank (op_handler a) of Some (c', k) \<Rightarrow> if c' = c then {#k#} else {#} | None \<Rightarrow> {#})"

definition work :: "(string \<Rightarrow> nat) \<Rightarrow> ctx_id \<Rightarrow> 'd async_op list \<Rightarrow> nat multiset" where
  "work rank c as = sum_list (map (work_of rank c) as)"

lemma work_append [simp]: "work rank c (as @ bs) = work rank c as + work rank c bs"
  by (simp add: work_def)

section \<open>What a handler starts\<close>

text \<open>
  An operation that code for context \<open>c\<close> may start below a bound, when the contexts from \<open>N\<close> on
  are new.
\<close>

definition small :: "(string \<Rightarrow> nat) \<Rightarrow> ctx_id \<Rightarrow> nat \<Rightarrow> ctx_id \<Rightarrow> 'd handler \<Rightarrow> bool" where
  "small rank c b N h \<longleftrightarrow> (\<forall>c' k. weight rank h = Some (c', k) \<longrightarrow> c' = c \<and> k < b \<or> N \<le> c')"

definition adds :: "(string \<Rightarrow> nat) \<Rightarrow> ctx_id \<Rightarrow> nat \<Rightarrow> 'd world \<Rightarrow> 'd world \<Rightarrow> bool" where
  "adds rank c b w w' \<longleftrightarrow> w_fsm w' = w_fsm w \<and> w_next_ctx w \<le> w_next_ctx w' \<and>
     (\<exists>new. w_pending w' = w_pending w @ new \<and> (\<forall>a \<in> set new. small rank c b (w_next_ctx w) (op_handler a)))"

lemma small_mono: "small rank c b N h \<Longrightarrow> b \<le> b' \<Longrightarrow> N' \<le> N \<Longrightarrow> small rank c b' N' h"
  by (fastforce simp: small_def)

lemma small_new: "small rank c' b N h \<Longrightarrow> N' \<le> N \<Longrightarrow> N' \<le> c' \<Longrightarrow> small rank c b' N' h"
  by (fastforce simp: small_def)

lemma adds_refl [simp]: "adds rank c b w w"
  by (simp add: adds_def)

lemma adds_mono: "adds rank c b w w' \<Longrightarrow> b \<le> b' \<Longrightarrow> adds rank c b' w w'"
  by (auto simp: adds_def intro: small_mono)

lemma adds_trans: "adds rank c b u v \<Longrightarrow> adds rank c b v w \<Longrightarrow> adds rank c b u w"
  by (fastforce simp: adds_def intro: small_mono)

lemma adds_new: "adds rank c' b w w' \<Longrightarrow> w_next_ctx w \<le> c' \<Longrightarrow> adds rank c b' w w'"
  by (auto simp: adds_def intro: small_new)

lemma adds_calm: "calm w w' \<Longrightarrow> adds rank c b w w'"
  by (simp add: adds_def calm_def)

lemma adds_start: "small rank c b (w_next_ctx w) (op_handler a) \<Longrightarrow> adds rank c b w (start_op a w)"
  by (simp add: adds_def)

abbreviation starts :: "(string \<Rightarrow> nat) \<Rightarrow> ctx_id \<Rightarrow> nat \<Rightarrow> 'd world \<Rightarrow> 'd world res \<Rightarrow> bool" where
  "starts rank c b w r \<equiv> yields r (adds rank c b w)"

abbreviation startsp :: "(string \<Rightarrow> nat) \<Rightarrow> ctx_id \<Rightarrow> nat \<Rightarrow> 'd world \<Rightarrow> ('r \<times> 'd world) res \<Rightarrow> bool" where
  "startsp rank c b w r \<equiv> yields r (\<lambda>x. adds rank c b w (snd x))"

text \<open>Sequencing; the worlds and the results of the parts come in both forms.\<close>

lemma adds_bind:
  assumes "yields r (\<lambda>x. adds rank c b w (wd x))"
    and "\<And>x. w_fsm (wd x) = w_fsm w \<Longrightarrow> yields (g x) (\<lambda>y. adds rank c b (wd x) (wd' y))"
  shows "yields (rbind r g) (\<lambda>y. adds rank c b w (wd' y))"
proof (rule yields_bind [OF assms(1)])
  fix x assume x: "adds rank c b w (wd x)"
  then have fsm: "w_fsm (wd x) = w_fsm w" by (simp add: adds_def)
  show "yields (g x) (\<lambda>y. adds rank c b w (wd' y))"
    by (rule yields_mono [OF assms(2) [OF fsm]]) (rule adds_trans [OF x])
qed

lemma starts_bind:
  assumes "starts rank c b w r" and "\<And>w'. w_fsm w' = w_fsm w \<Longrightarrow> starts rank c b w' (g w')"
  shows "starts rank c b w (rbind r g)"
  by (rule adds_bind [where wd = "\<lambda>x. x" and wd' = "\<lambda>x. x"]) (use assms in auto)

lemma startsp_bind:
  assumes "startsp rank c b w r" and "\<And>x w'. w_fsm w' = w_fsm w \<Longrightarrow> starts rank c b w' (g (x, w'))"
  shows "starts rank c b w (rbind r g)"
  by (rule adds_bind [where wd = snd and wd' = "\<lambda>x. x"]) (use assms in auto)

lemma starts_bindp:
  assumes "starts rank c b w r" and "\<And>w'. w_fsm w' = w_fsm w \<Longrightarrow> startsp rank c b w' (g w')"
  shows "startsp rank c b w (rbind r g)"
  by (rule adds_bind [where wd = "\<lambda>x. x"]) (use assms in auto)

lemma startsp_bindp:
  assumes "startsp rank c b w r" and "\<And>x w'. w_fsm w' = w_fsm w \<Longrightarrow> startsp rank c b w' (g (x, w'))"
  shows "startsp rank c b w (rbind r g)"
  by (rule adds_bind [where wd = snd]) (use assms in auto)

lemma starts_calm: "yields r (calm w) \<Longrightarrow> starts rank c b w r"
  by (erule yields_mono) (rule adds_calm)

lemma startsp_calm: "calms w r \<Longrightarrow> startsp rank c b w r"
  by (erule yields_mono) (auto intro: adds_calm)

lemma starts_mono: "starts rank c b w r \<Longrightarrow> b \<le> b' \<Longrightarrow> starts rank c b' w r"
  by (erule yields_mono) (rule adds_mono)

lemma startsp_mono: "startsp rank c b w r \<Longrightarrow> b \<le> b' \<Longrightarrow> startsp rank c b' w r"
  by (erule yields_mono) (auto intro: adds_mono)

lemma adds_start2:
  "small rank c b (w_next_ctx w) (op_handler a) \<Longrightarrow> small rank c b (w_next_ctx w) (op_handler a') \<Longrightarrow>
     adds rank c b w (start_op a' (start_op a w))"
  by (simp add: adds_def)

lemma small_iff:
  "small rank c b N h = (case weight rank h of Some (c', k) \<Rightarrow> c' = c \<and> k < b \<or> N \<le> c' | None \<Rightarrow> True)"
  by (auto simp: small_def split: option.split)

section \<open>The interpreter\<close>

lemma new_context_adds:
  assumes "context_new conn w = (c', w1)"
  shows "yields (context_init c' w1) (\<lambda>w2. w_fsm w2 = w_fsm w \<and> w_pending w2 = w_pending w \<and>
    w_next_ctx w2 = Suc c' \<and> c' = w_next_ctx w)"
  using assms by (auto intro!: yieldsI simp: context_init_def context_new_def get_ctx_def Let_def)

lemma context_reset_same:
  "yields (context_reset c w) (\<lambda>w'. w_fsm w' = w_fsm w \<and> w_pending w' = w_pending w \<and> w_next_ctx w' = w_next_ctx w)"
  by (auto intro!: yieldsI simp: context_reset_def get_ctx_def my_rand_def Let_def)

locale descending =
  fixes mrun :: "'d module_run" and rank :: "string \<Rightarrow> nat"
  assumes run_starts: "startsp rank c (8 * rank (md_name md) + 5) w (mrun md c s w)"
begin

lemma resume_step:
  assumes w: "fsm_wf rank (w_fsm w)"
    and run: "\<And>md' w s. fsm_wf rank (w_fsm w) \<Longrightarrow> starts rank c (8 * rank (md_name md') + 5) w (fsm_run mrun n md' c s w)"
    and fin: "\<And>w. fsm_wf rank (w_fsm w) \<Longrightarrow> starts rank c 0 w (end_request mrun n c w)"
  shows "starts rank c (8 * rank (md_name md)) w (resume mrun n md s c w)"
proof -
  have out: "starts rank c 0 w (rbind (context_exit c w) (end_request mrun n c))"
    by (rule starts_bind [OF starts_calm [OF context_exit_calm]]) (use fin w in auto)
  have "starts rank c (8 * rank (md_name md)) w (fsm_run mrun n md' c s w)"
    if "rank (md_name md') < rank (md_name md)" for md'
    using starts_mono [OF run [OF w]] that by simp
  with next_module_wf [OF w, of md s] starts_mono [OF out] starts_mono [OF fin [OF w]] show ?thesis
    unfolding resume_def by (auto simp: is_end_module_def split: option.split)
qed

lemma interpreter_starts:
  "fsm_wf rank (w_fsm w) \<Longrightarrow> starts rank c (8 * rank (md_name md) + 5) w (fsm_run mrun n md c s w)"
  "fsm_wf rank (w_fsm w) \<Longrightarrow> starts rank c 0 w (end_request mrun n c w)"
  "fsm_wf rank (w_fsm w) \<Longrightarrow> \<exists>b. starts rank c b w (handle_request mrun n c w)"
proof (induction n arbitrary: md c s w)
  case (Suc n)
  {
    case 1
    have "starts rank c (8 * rank (md_name md) + 5) w' (if state \<noteq> Mod_async then resume mrun n md state c w' else Inr w')"
      if "fsm_wf rank (w_fsm w')" for state w'
      using starts_mono [OF resume_step [OF that Suc.IH(1,2)]] by simp
    with 1 show ?case
      unfolding fsm_run_resume by (intro startsp_bind [OF run_starts]) simp_all
  next
    case 2
    have "starts rank c 0 w (rbind (context_init c' w') (handle_request mrun n c'))"
      if new: "context_new conn w = (c', w')" for conn c' w'
    proof (rule yields_bind [OF new_context_adds [OF new]])
      fix w2 :: "'d world" assume w2: "w_fsm w2 = w_fsm w \<and> w_pending w2 = w_pending w \<and> w_next_ctx w2 = Suc c' \<and> c' = w_next_ctx w"
      with 2 Suc.IH(3) [of w2 c'] obtain b where "starts rank c' b w2 (handle_request mrun n c' w2)" by auto
      then show "starts rank c 0 w (handle_request mrun n c' w2)"
      proof (rule yields_mono)
        fix w3 assume "adds rank c' b w2 w3"
        moreover have "adds rank c' b w w2" using w2 by (simp add: adds_def)
        ultimately have "adds rank c' b w w3" by (blast intro: adds_trans)
        then show "adds rank c 0 w w3" by (rule adds_new) (use w2 in simp)
      qed
    qed
    then show ?case
      by (auto simp: end_request.simps context_is_exit_def get_ctx_def deref_def split: option.split prod.split)
  next
    case 3
    then obtain start where start: "fsm_start_mod (w_fsm w) = Some start" by (auto simp: fsm_wf_def start_ok_def)
    have "starts rank c (8 * rank (md_name start) + 5) w (handle_request mrun (Suc n) c w)"
      unfolding handle_request.simps
    proof (rule yields_bind [OF context_reset_same])
      fix w' :: "'d world" assume w': "w_fsm w' = w_fsm w \<and> w_pending w' = w_pending w \<and> w_next_ctx w' = w_next_ctx w"
      with 3 start Suc.IH(1) [of w' start c Mod_start] show "starts rank c (8 * rank (md_name start) + 5) w
          (case fsm_start_mod (w_fsm w') of None \<Rightarrow> Inl Uninitialised | Some start \<Rightarrow> fsm_run mrun n start c Mod_start w')"
        by (auto simp: adds_def elim: yields_mono)
    qed
    then show ?case ..
  }
qed (simp_all add: fsm_run.simps end_request.simps handle_request.simps)

lemma resume_starts:
  "fsm_wf rank (w_fsm w) \<Longrightarrow> starts rank c (8 * rank (md_name md)) w (resume mrun n md s c w)"
  by (erule resume_step) (rule interpreter_starts; assumption)+

lemma resume_below:
  "fsm_wf rank (w_fsm w) \<Longrightarrow> 8 * rank (md_name md) \<le> b \<Longrightarrow> starts rank c b w (resume mrun n md s c w)"
  by (rule starts_mono [OF resume_starts])

lemma exit_resume_below:
  "fsm_wf rank (w_fsm w) \<Longrightarrow> 8 * rank (md_name md) \<le> b \<Longrightarrow>
     starts rank c b w (rbind (context_exit c w) (\<lambda>w. resume mrun n md s c w))"
  by (rule starts_bind [OF starts_calm [OF context_exit_calm]]) (auto intro: resume_below)

end

section \<open>The modules\<close>

lemma request_run_starts: "startsp rank c (8 * rank (md_name md) + 5) w (request_run md h c s w)"
  unfolding request_run_def Let_def
  by (rule yields_any, rule yields_any, rule startsp_bindp [OF startsp_calm [OF timer_calm(1)]])
    (simp add: adds_start2 small_iff)

lemma response_run_starts: "startsp rank c (8 * rank (md_name md) + 5) w (response_run md h c s w)"
  unfolding response_run_def Let_def
proof (rule yields_any, rule startsp_bindp [OF startsp_calm [OF app_call_calm]], unfold prod.case)
  fix cx :: "'a fsm_context" and resp and w1 :: "'a world"
  have "startsp rank c (8 * rank (md_name md) + 5) w1 (rbind (response_timer md c w1) (\<lambda>(timer, w).
      Inr (Mod_async, start_op (Async_write sk buf (On_write_resp md c))
        (start_op (Async_wait timer ms (On_write_time_out md c)) w))))" for sk buf ms
    by (rule startsp_bindp [OF startsp_calm [OF timer_calm(2)]]) (simp add: adds_start2 small_iff)
  then show "startsp rank c (8 * rank (md_name md) + 5) w1 (case resp of
         None \<Rightarrow> Inr (Mod_Failed, w1)
       | Some buf \<Rightarrow>
           rbind (response_timer md c w1) (\<lambda>(timer, w).
             Inr (Mod_async, start_op (Async_write (Conn_socket (cx_conn cx)) buf (On_write_resp md c))
               (start_op (Async_wait timer (rs_get_write_resp_time_out_ms h) (On_write_time_out md c)) w))))"
    by (cases resp) simp_all
qed

lemma fork_run_starts: "startsp rank c (8 * rank (md_name md) + 5) w (fork_run md g c s w)"
  unfolding fork_run_def
  by (rule yieldsI) (auto dest!: fork_loop_starts simp: adds_def fork_op_def small_iff)

lemma join_run_starts: "startsp rank c (8 * rank (md_name md) + 5) w (join_run md g c s w)"
  unfolding join_run_def Let_def
proof (rule startsp_bindp [OF startsp_calm [OF get_module_data_calms]], unfold prod.case, rule yields_any)
  fix d and w1 :: "'a world"
  obtain j d' where arr: "join_arrive s d = (j, d')" by fastforce
  have put: "starts rank c b w1 (put_module_data c (md_name md) (Join_data d') w1)" for b
    by (rule yieldsI, erule put_module_data_Inr) (simp add: adds_def)
  show "startsp rank c (8 * rank (md_name md) + 5) w1 (case join_arrive s d of (joined, d') \<Rightarrow>
     rbind (put_module_data c (md_name md) (Join_data d') w1) (\<lambda>w.
     rbind (app_get c g w) (\<lambda>k.
       if joined = k then Inr (Mod_async, start_op (Async_wait (Module_timer c (md_name md) 0) 0
           (On_joined md c (if jd_failed_join d' then Mod_Failed else Mod_Succeed))) w)
       else Inr (Mod_async, w))))"
    unfolding arr prod.case
    by (rule starts_bindp [OF put], rule yields_any) (simp add: adds_start small_iff)
qed

text \<open>Code of a \<open>TcpModule\<close>.\<close>

lemma tcp_modify_starts: "starts rank c b w (tcp_modify md c' g w)"
  by (rule yields_mono [OF tcp_modify_client]) (auto simp: adds_def)

lemma start_modify:
  "small rank c b (w_next_ctx w) (op_handler a) \<Longrightarrow> starts rank c b w (tcp_modify md c' g (start_op a w))"
  by (rule yields_mono [OF tcp_modify_starts]) (rule adds_trans [OF adds_start])

lemma with_lock_starts:
  assumes "\<And>w'. w_fsm w' = w_fsm w \<Longrightarrow> startsp rank c b w' (body w')"
  shows "startsp rank c b w (with_tcp_lock md c' body w)"
proof -
  have "startsp rank c b w' (rbind (tcp_unlock md c' w') (\<lambda>w. Inr (x, w)))" for x w'
    by (rule starts_bindp [OF starts_calm [OF tcp_unlock_calm]]) simp
  then have "startsp rank c b w' (rbind (body w') (\<lambda>(r, w). rbind (tcp_unlock md c' w) (\<lambda>w. Inr (r, w))))"
    if "w_fsm w' = w_fsm w" for w'
    by (intro startsp_bindp [OF assms [OF that]]) simp
  then show ?thesis
    unfolding with_tcp_lock_def by (intro starts_bindp [OF starts_calm [OF tcp_lock_calm]])
qed

lemma in_lock_starts:
  assumes "\<And>w'. w_fsm w' = w_fsm w \<Longrightarrow> starts rank c b w' (body w')"
  shows "starts rank c b w (in_tcp_lock md c' body w)"
  unfolding in_tcp_lock_def
proof (rule startsp_bind [OF with_lock_starts])
  fix w' :: "'a world" assume w': "w_fsm w' = w_fsm w"
  show "startsp rank c b w' (rbind (body w') (\<lambda>w. Inr ((), w)))"
    by (rule starts_bindp [OF assms [OF w']]) simp
qed simp

lemma the_client_starts: "startsp rank c b w (tcp_the_client md c' w)"
  by (rule yields_mono [OF the_client_at]) auto

lemma send_request_starts: "startsp rank c (8 * rank (md_name md) + 4) w (send_request md h c w)"
  unfolding send_request_def Let_def
proof (rule startsp_bindp [OF startsp_calm [OF app_call_calm]], unfold prod.case,
    rule startsp_bindp [OF the_client_starts], unfold prod.case)
  fix req i and w1 :: "'a world"
  show "startsp rank c (8 * rank (md_name md) + 4) w1 (rbind (tcp_modify md c (\<lambda>d. d\<lparr>td_socket_event := Socket_Event_Opened\<rparr>)
      (start_op (Async_write (Client_socket i) req (On_write_req md c req)) w1)) (\<lambda>w. Inr (Mod_async, w)))"
    by (rule starts_bindp [OF start_modify]) (simp_all add: small_iff)
qed

lemma send_with_timer_starts: "startsp rank c (8 * rank (md_name md) + 4) w (send_with_timer md h c w)"
  unfolding send_with_timer_def
proof (rule startsp_bindp [OF startsp_calm [OF timer_calm(3)]], unfold prod.case)
  fix timer and w1 :: "'a world"
  let ?w = "start_op (Async_wait timer (tm_get_time_out_ms h) (On_handle_time_out md c)) w1"
  show "startsp rank c (8 * rank (md_name md) + 4) w1 (send_request md h c ?w)"
    by (rule yields_mono [OF send_request_starts], rule adds_trans [OF adds_start]) (simp_all add: small_iff)
qed

lemma tcp_connect_starts: "startsp rank c (8 * rank (md_name md) + 5) w (tcp_connect env md h c peer ip port w)"
proof -
  let ?b = "8 * rank (md_name md) + 5"
  have conn: "startsp rank c ?b w1 (let (i, w) = client_new env peer w1 in
             rbind (tcp_modify md c (\<lambda>d. d\<lparr>td_client := Some i\<rparr>) w) (\<lambda>w.
               let w = start_op (Async_connect (Client_socket i) ip port (On_connect md c ip port)) w in
             rbind (tcp_modify md c (\<lambda>d. d\<lparr>td_socket_event := Socket_Event_Opened\<rparr>) w) (\<lambda>w.
               Inr (Mod_async, w))))" for w1
  proof -
    obtain i w2 where new: "client_new env peer w1 = (i, w2)" by fastforce
    then have w2: "adds rank c ?b w1 w2" by (auto simp: client_new_def Let_def intro: adds_calm [OF calm_world(2)])
    have "startsp rank c ?b w2 (rbind (tcp_modify md c (\<lambda>d. d\<lparr>td_client := Some i\<rparr>) w2) (\<lambda>w.
        rbind (tcp_modify md c (\<lambda>d. d\<lparr>td_socket_event := Socket_Event_Opened\<rparr>)
          (start_op (Async_connect (Client_socket i) ip port (On_connect md c ip port)) w)) (\<lambda>w. Inr (Mod_async, w))))"
      by (rule starts_bindp [OF tcp_modify_starts], rule starts_bindp [OF start_modify]) (simp_all add: small_iff)
    then show ?thesis
      unfolding new Let_def prod.case by (rule yields_mono) (rule adds_trans [OF w2])
  qed
  have "startsp rank c ?b w (rbind (tcp_timer md c w) (\<lambda>(timer, w).
          let w = start_op (Async_wait timer (tm_get_connect_time_out_ms h)
                              (On_handle_connect_time_out md c ip port)) w in
          if \<not> ev_socket_opens env then Inr (Mod_Failed, w)
          else
            (let (i, w) = client_new env peer w in
             rbind (tcp_modify md c (\<lambda>d. d\<lparr>td_client := Some i\<rparr>) w) (\<lambda>w.
               let w = start_op (Async_connect (Client_socket i) ip port (On_connect md c ip port)) w in
             rbind (tcp_modify md c (\<lambda>d. d\<lparr>td_socket_event := Socket_Event_Opened\<rparr>) w) (\<lambda>w.
               Inr (Mod_async, w))))))"
  proof (rule startsp_bindp [OF startsp_calm [OF timer_calm(3)]], unfold prod.case)
    fix timer and w' :: "'a world"
    let ?w = "start_op (Async_wait timer (tm_get_connect_time_out_ms h) (On_handle_connect_time_out md c ip port)) w'"
    have dead: "adds rank c ?b w' ?w" by (rule adds_start) (simp add: small_iff)
    note after = yields_mono [OF conn [of ?w] adds_trans [OF dead]]
    show "startsp rank c ?b w' (let w = ?w in
          if \<not> ev_socket_opens env then Inr (Mod_Failed, w)
          else
            (let (i, w) = client_new env peer w in
             rbind (tcp_modify md c (\<lambda>d. d\<lparr>td_client := Some i\<rparr>) w) (\<lambda>w.
               let w = start_op (Async_connect (Client_socket i) ip port (On_connect md c ip port)) w in
             rbind (tcp_modify md c (\<lambda>d. d\<lparr>td_socket_event := Socket_Event_Opened\<rparr>) w) (\<lambda>w.
               Inr (Mod_async, w)))))"
      using dead after by (simp add: Let_def [of ?w])
  qed
  then show ?thesis unfolding tcp_connect_def by simp
qed

lemma tcp_run_starts: "startsp rank c (8 * rank (md_name md) + 5) w (tcp_run env md pool h c s w)"
proof -
  let ?b = "8 * rank (md_name md) + 5"
  have take: "startsp rank c ?b w1 (tcp_take_client env md pool c t w1)" for t w1
  proof -
    obtain client p hp where get: "get_client env t (w_pools w1 pool) (w_clients w1) = (client, p, hp)"
      by (rule prod_cases3)
    have "adds rank c ?b w1 (w1\<lparr>w_pools := (w_pools w1)(pool := p), w_clients := hp\<rparr>)"
      by (rule adds_calm [OF calm_world(1)])
    then show ?thesis
      unfolding tcp_take_client_def get Let_def prod.case
      by (intro starts_bindp [OF yields_mono [OF tcp_modify_starts]]) (auto intro: adds_trans)
  qed
  have none: "startsp rank c ?b w1 (rbind (app_call c (tm_get_server_ip_port h) w1) (\<lambda>(addr, w).
      case addr of
        None \<Rightarrow> Inr (Mod_Failed, w)
      | Some (ip, port) \<Rightarrow> tcp_connect env md h c t ip port w))" for t w1
    by (rule startsp_bindp [OF startsp_calm [OF app_call_calm]])
      (auto split: option.split intro: tcp_connect_starts)
  have "startsp rank c ?b w1 (rbind (tcp_take_client env md pool c t w1) (\<lambda>(client, w).
             case client of
               None \<Rightarrow>
                 rbind (app_call c (tm_get_server_ip_port h) w) (\<lambda>(addr, w).
                   case addr of
                     None \<Rightarrow> Inr (Mod_Failed, w)
                   | Some (ip, port) \<Rightarrow> tcp_connect env md h c t ip port w)
             | Some _ \<Rightarrow> send_with_timer md h c w))" for t w1
    by (rule startsp_bindp [OF take])
      (auto split: option.split intro: none startsp_mono [OF send_with_timer_starts])
  note locked = with_lock_starts [OF this]
  show ?thesis
    unfolding tcp_run_def Let_def by (rule yields_any) (use locked in simp)
qed

lemma module_run_starts: "startsp rank c (8 * rank (md_name md) + 5) w (module_run env md c s w)"
proof (cases "md_class md")
  case (SimpleModule g)
  then show ?thesis by (simp add: module_run_def simple_run_def startsp_calm [OF app_call_calm])
qed (simp_all add: module_run_def request_run_starts response_run_starts tcp_run_starts fork_run_starts join_run_starts)

interpretation going: descending "module_run env" rank for env rank
  by unfold_locales (rule module_run_starts)

section \<open>The completion handlers\<close>

lemma app_do_starts:
  assumes "\<And>w'. w_fsm w' = w_fsm w \<Longrightarrow> starts rank c b w' (g w')"
  shows "starts rank c b w (rbind (app_do c' k w) g)"
  by (rule starts_bind [OF starts_calm [OF app_do_calm] assms])

lemma read_failed_starts:
  assumes wf: "fsm_wf rank (w_fsm w)" and b: "8 * rank (md_name md) \<le> b"
  shows "starts rank c b w (read_failed env (module_run env) n md on_failed c ec w)"
proof -
  have "starts rank c b w (rbind (request_cancel_timer env md c w) (\<lambda>(ok, w).
          if \<not> ok then Inr w
          else
            rbind (app_do c on_failed w) (\<lambda>w.
            rbind (context_exit c w) (\<lambda>w. resume (module_run env) n md Mod_Failed c w))))"
    by (rule startsp_bind [OF startsp_calm [OF cancel_timer_calm(1)]])
      (use wf b in \<open>auto intro!: app_do_starts going.exit_resume_below\<close>)
  with going.exit_resume_below [OF wf b] show ?thesis by (simp add: read_failed_def)
qed

lemma on_read_version_starts:
  assumes wf: "fsm_wf rank (w_fsm w)"
  shows "starts rank c (8 * rank (md_name md) + 4) w (on_read_version env (module_run env) n md h c buf len ec w)"
  unfolding on_read_version_def Let_def
proof (rule startsp_bind [OF startsp_calm [OF read_accepted_calm]], unfold prod.case)
  fix ok and w1 :: "'a world" assume w1: "w_fsm w1 = w_fsm w"
  let ?b = "8 * rank (md_name md) + 4"
  have "starts rank c ?b w2 (rbind (request_timer md c w2) (\<lambda>(timer, w).
      Inr (start_op (Async_read sk hl (On_read_head md c hl))
        (start_op (Async_wait timer ms (On_read_time_out 2 md c)) w))))" for sk hl ms w2
    by (rule startsp_bind [OF startsp_calm [OF timer_calm(1)]]) (simp add: adds_start2 small_iff)
  note more = yields_any [OF yields_any [OF this]]
  have "starts rank c ?b w1 (rbind (request_cancel_timer env md c w1) (\<lambda>(cancelled, w).
       if \<not> cancelled then Inr w
       else
         rbind (app_get c (rq_get_head_len h) w) (\<lambda>head_len.
         rbind (get_ctx c w) (\<lambda>cx.
         rbind (request_timer md c w) (\<lambda>(timer, w).
           Inr (start_op (Async_read (Conn_socket (cx_conn cx)) head_len (On_read_head md c head_len))
             (start_op (Async_wait timer (rq_get_read_head_and_body_time_out_ms h) (On_read_time_out 2 md c)) w)))))))"
    by (rule startsp_bind [OF startsp_calm [OF cancel_timer_calm(1)]]) (simp add: more)
  with read_failed_starts [of rank w1 md ?b] wf w1 show "starts rank c ?b w1 (if \<not> ok
      then read_failed env (module_run env) n md (rq_on_read_version_failed h) c ec w1
      else rbind (request_cancel_timer env md c w1) (\<lambda>(cancelled, w).
       if \<not> cancelled then Inr w
       else
         rbind (app_get c (rq_get_head_len h) w) (\<lambda>head_len.
         rbind (get_ctx c w) (\<lambda>cx.
         rbind (request_timer md c w) (\<lambda>(timer, w).
           Inr (start_op (Async_read (Conn_socket (cx_conn cx)) head_len (On_read_head md c head_len))
             (start_op (Async_wait timer (rq_get_read_head_and_body_time_out_ms h) (On_read_time_out 2 md c)) w)))))))"
    by simp
qed

lemma on_read_head_starts:
  assumes "fsm_wf rank (w_fsm w)"
  shows "starts rank c (8 * rank (md_name md) + 3) w (on_read_head env (module_run env) n md h c buf len ec w)"
  unfolding on_read_head_def
  by (rule startsp_bind [OF startsp_calm [OF read_accepted_calm]])
    (use assms in \<open>auto intro!: read_failed_starts yields_any adds_start simp: small_iff\<close>)

lemma on_read_body_starts:
  assumes wf: "fsm_wf rank (w_fsm w)"
  shows "starts rank c (8 * rank (md_name md) + 2) w (on_read_body env (module_run env) n md h c buf len ec w)"
  unfolding on_read_body_def
proof (rule startsp_bind [OF startsp_calm [OF read_accepted_calm]], unfold prod.case)
  fix ok and w1 :: "'a world" assume w1: "w_fsm w1 = w_fsm w"
  let ?b = "8 * rank (md_name md) + 2"
  have "starts rank c ?b w1 (rbind (request_cancel_timer env md c w1) (\<lambda>(cancelled, w).
      if \<not> cancelled then Inr w
      else rbind (app_get c (rq_get_succeed_state h) w) (\<lambda>state. resume (module_run env) n md state c w)))"
    by (rule startsp_bind [OF startsp_calm [OF cancel_timer_calm(1)]])
      (use wf w1 in \<open>auto intro!: yields_any going.resume_below\<close>)
  with read_failed_starts [of rank w1 md ?b] wf w1 show "starts rank c ?b w1 (if \<not> ok
      then read_failed env (module_run env) n md (rq_on_read_body_failed h) c ec w1
      else rbind (request_cancel_timer env md c w1) (\<lambda>(cancelled, w).
      if \<not> cancelled then Inr w
      else rbind (app_get c (rq_get_succeed_state h) w) (\<lambda>state. resume (module_run env) n md state c w)))"
    by simp
qed

lemma on_write_resp_starts:
  assumes wf: "fsm_wf rank (w_fsm w)"
  shows "starts rank c (8 * rank (md_name md) + 2) w (on_write_resp env (module_run env) n md h c ec w)"
proof -
  let ?b = "8 * rank (md_name md) + 2"
  have "starts rank c ?b w (rbind (response_cancel_timer env md c w) (\<lambda>(ok, w). if \<not> ok then Inr w
      else rbind (app_do c g w) (\<lambda>w. resume (module_run env) n md Mod_Succeed c w)))" for g
    by (rule startsp_bind [OF startsp_calm [OF cancel_timer_calm(2)]])
      (use wf in \<open>auto intro!: app_do_starts going.resume_below\<close>)
  moreover have "starts rank c ?b w (rbind (response_cancel_timer env md c w) (\<lambda>(ok, w). if \<not> ok then Inr w
      else rbind (app_do c g w) (\<lambda>w. rbind (context_exit c w) (\<lambda>w. resume (module_run env) n md Mod_Failed c w))))" for g
    by (rule startsp_bind [OF startsp_calm [OF cancel_timer_calm(2)]])
      (use wf in \<open>auto intro!: app_do_starts going.exit_resume_below\<close>)
  ultimately show ?thesis using going.exit_resume_below [OF wf, of md ?b] by (simp add: on_write_resp_def)
qed

lemma tcp_event_starts:
  assumes body: "\<And>w'. w_fsm w' = w_fsm w \<Longrightarrow> starts rank c b w' (body w')"
  shows "starts rank c b w (tcp_event md c' body w)"
  unfolding tcp_event_def
proof (rule in_lock_starts, rule yields_bind [OF tcp_get_same], clarify)
  fix d and w' :: "'a world" assume w': "w_fsm w' = w_fsm w"
  have "starts rank c b w' (rbind (tcp_modify md c' (\<lambda>d. d\<lparr>td_socket_event := Socket_Event_Closed\<rparr>) w') body)"
    by (rule starts_bind [OF tcp_modify_starts]) (simp add: body w')
  then show "starts rank c b w' (if td_socket_event d \<noteq> Socket_Event_Opened then Inr w'
      else rbind (tcp_modify md c' (\<lambda>d. d\<lparr>td_socket_event := Socket_Event_Closed\<rparr>) w') body)"
    by simp
qed

lemma tcp_failed_starts:
  assumes wf: "fsm_wf rank (w_fsm w)" and b: "8 * rank (md_name md) \<le> b"
    and failed: "\<And>w'. yields (on_failed w') (calm w')"
  shows "starts rank c b w (tcp_failed env (module_run env) n md on_failed c ec w)"
proof -
  have "starts rank c b w1 (rbind (on_failed w1) (\<lambda>w. resume (module_run env) n md Mod_Failed c w))"
    if "w_fsm w1 = w_fsm w" for w1
    by (rule starts_bind [OF starts_calm [OF failed]]) (use wf b that in \<open>auto intro: going.resume_below\<close>)
  then have "starts rank c b w (rbind (cancel_time_out_timer env md c w) (\<lambda>(ok, w). if \<not> ok then Inr w
      else rbind (on_failed w) (\<lambda>w. resume (module_run env) n md Mod_Failed c w)))"
    by (intro startsp_bind [OF startsp_calm [OF cancel_timer_calm(3)]]) simp
  with going.resume_below [OF wf b] show ?thesis by (simp add: tcp_failed_def)
qed

lemma on_connect_starts:
  assumes wf: "fsm_wf rank (w_fsm w)"
  shows "starts rank c (8 * rank (md_name md) + 4) w (on_connect env (module_run env) n md h c ip port ec w)"
  unfolding on_connect_def
proof (rule tcp_event_starts)
  fix w' :: "'a world" assume w': "w_fsm w' = w_fsm w"
  let ?b = "8 * rank (md_name md) + 4"
  have "starts rank c ?b w1 (rbind (send_with_timer md h c w1) (\<lambda>(_, w). Inr w))" for w1
    by (rule startsp_bind [OF send_with_timer_starts]) simp
  then have "starts rank c ?b w' (rbind (cancel_time_out_timer env md c w') (\<lambda>(ok, w). if \<not> ok then Inr w
      else rbind (send_with_timer md h c w) (\<lambda>(_, w). Inr w)))"
    by (intro startsp_bind [OF startsp_calm [OF cancel_timer_calm(3)]]) simp
  with tcp_failed_starts [OF _ _ app_do_calm, of rank w' md ?b] wf w' show "starts rank c ?b w' (if ec_set ec
      then tcp_failed env (module_run env) n md (app_do c (tm_on_connect_failed h ip port)) c ec w'
      else rbind (cancel_time_out_timer env md c w') (\<lambda>(ok, w). if \<not> ok then Inr w
        else rbind (send_with_timer md h c w) (\<lambda>(_, w). Inr w)))"
    by simp
qed

lemma open_read_starts:
  assumes "small rank c b (w_next_ctx w) hdl"
  shows "starts rank c b w (rbind (tcp_the_client md c w) (\<lambda>(i, w).
      tcp_modify md c (\<lambda>d. d\<lparr>td_socket_event := Socket_Event_Opened\<rparr>)
        (start_op (Async_read (Client_socket i) len hdl) w)))"
  by (rule yields_bind [OF the_client_at]) (auto intro!: start_modify simp: assms)

lemma on_write_req_starts:
  assumes wf: "fsm_wf rank (w_fsm w)"
  shows "starts rank c (8 * rank (md_name md) + 3) w (on_write_req env (module_run env) n md h c ec w)"
  unfolding on_write_req_def Let_def
  by (rule tcp_event_starts)
    (use wf in \<open>auto intro!: tcp_failed_starts app_do_calm open_read_starts simp: small_iff\<close>)

lemma on_recv_resp_head_starts:
  assumes wf: "fsm_wf rank (w_fsm w)"
  shows "starts rank c (8 * rank (md_name md) + 2) w (on_recv_resp_head env (module_run env) n md h c buf len ec w)"
  unfolding on_recv_resp_head_def
proof (rule tcp_event_starts)
  fix w' :: "'a world" assume w': "w_fsm w' = w_fsm w"
  have judge: "calms w' (if ec_set ec then Inr (False, w') else app_call c (tm_on_read_head_impl h buf len) w')"
    using app_call_calm [of c "tm_on_read_head_impl h buf len" w'] by simp
  show "starts rank c (8 * rank (md_name md) + 2) w'
     (rbind (if ec_set ec then Inr (False, w') else app_call c (tm_on_read_head_impl h buf len) w')
      (\<lambda>(ok, w). if \<not> ok then
           tcp_failed env (module_run env) n md
             (\<lambda>w. rbind (tcp_close_client md c w) (\<lambda>w. app_do c (tm_on_read_head_failed h) w)) c ec w
         else
           rbind (app_get c (tm_get_resp_body_len h) w) (\<lambda>body_len.
           rbind (tcp_the_client md c w) (\<lambda>(i, w).
             tcp_modify md c (\<lambda>d. d\<lparr>td_socket_event := Socket_Event_Opened\<rparr>)
               (start_op (Async_read (Client_socket i) body_len
                            (On_recv_resp_body md c body_len)) w)))))"
    by (rule startsp_bind [OF startsp_calm [OF judge]])
      (use wf w' in \<open>auto intro!: tcp_failed_starts close_app_calm yields_any [where r = "app_get _ _ _"]
         open_read_starts simp: small_iff\<close>)
qed

lemma on_recv_resp_body_starts:
  assumes wf: "fsm_wf rank (w_fsm w)"
  shows "starts rank c (8 * rank (md_name md) + 1) w
    (on_recv_resp_body env (module_run env) n md pool h c buf len ec w)"
  unfolding on_recv_resp_body_def
proof (rule tcp_event_starts)
  fix w' :: "'a world" assume w': "w_fsm w' = w_fsm w"
  let ?b = "8 * rank (md_name md) + 1"
  have "starts rank c ?b w1 (rbind (app_call c (tm_on_read_body_impl h buf len) w1) (\<lambda>(ret, w).
        resume (module_run env) n md (if ret then Mod_Succeed else Mod_Failed) c w))"
    if "w_fsm w1 = w_fsm w" for w1
    by (rule startsp_bind [OF startsp_calm [OF app_call_calm]]) (use wf that in \<open>auto intro: going.resume_below\<close>)
  moreover have "starts rank c ?b w1 (tcp_give_client env md pool c w1)" for w1
    unfolding tcp_give_client_def
    by (rule yields_bind [OF tcp_get_same], clarsimp split: prod.split, rule yields_mono [OF tcp_modify_starts],
        rule adds_trans [OF adds_calm [OF calm_world(1)]])
  ultimately have "starts rank c ?b w1 (rbind (tcp_give_client env md pool c w1) (\<lambda>w.
      rbind (app_call c (tm_on_read_body_impl h buf len) w) (\<lambda>(ret, w).
        resume (module_run env) n md (if ret then Mod_Succeed else Mod_Failed) c w)))"
    if "w_fsm w1 = w_fsm w" for w1
    using that by (intro starts_bind) simp_all
  then have "starts rank c ?b w' (rbind (cancel_time_out_timer env md c w') (\<lambda>(ok, w). if \<not> ok then Inr w
      else rbind (tcp_give_client env md pool c w) (\<lambda>w.
        rbind (app_call c (tm_on_read_body_impl h buf len) w) (\<lambda>(ret, w).
          resume (module_run env) n md (if ret then Mod_Succeed else Mod_Failed) c w))))"
    using w' by (intro startsp_bind [OF startsp_calm [OF cancel_timer_calm(3)]]) simp
  with tcp_failed_starts [OF _ _ app_do_calm, of rank w' md ?b] wf w' show "starts rank c ?b w' (if ec_set ec
      then tcp_failed env (module_run env) n md (app_do c (tm_on_read_body_failed h)) c ec w'
      else rbind (cancel_time_out_timer env md c w') (\<lambda>(ok, w). if \<not> ok then Inr w
      else rbind (tcp_give_client env md pool c w) (\<lambda>w.
        rbind (app_call c (tm_on_read_body_impl h buf len) w) (\<lambda>(ret, w).
          resume (module_run env) n md (if ret then Mod_Succeed else Mod_Failed) c w))))"
    by simp
qed

section \<open>The event loop\<close>

lemma on_accepted_starts:
  assumes wf: "fsm_wf rank (w_fsm w)"
  shows "starts rank c 0 w (on_accepted (module_run env) n conn ec w)"
proof -
  obtain c' w1 where new: "context_new conn w = (c', w1)" by fastforce
  have acc: "adds rank c 0 w' (start_accept w')" for w' :: "'a world"
    by (simp add: start_accept_def Let_def start_op_def adds_def small_iff)
  have "starts rank c 0 w (rbind (context_init c' w1) (\<lambda>w. rbind (handle_request (module_run env) n c' w)
      (\<lambda>w. Inr (start_accept w))))"
  proof (rule yields_bind [OF new_context_adds [OF new]])
    fix w2 :: "'a world"
    assume w2: "w_fsm w2 = w_fsm w \<and> w_pending w2 = w_pending w \<and> w_next_ctx w2 = Suc c' \<and> c' = w_next_ctx w"
    with wf going.interpreter_starts(3) [of rank w2 env n c'] obtain b where
      b: "starts rank c' b w2 (handle_request (module_run env) n c' w2)" by auto
    have "adds rank c 0 w w3" if "adds rank c' b w2 w3" for w3
    proof -
      have "adds rank c' b w w2" using w2 by (simp add: adds_def)
      from adds_new [OF adds_trans [OF this that]] w2 show ?thesis by simp
    qed
    then show "starts rank c 0 w (rbind (handle_request (module_run env) n c' w2) (\<lambda>w. Inr (start_accept w)))"
      by (intro yields_bind [OF b]) (auto intro: adds_trans acc)
  qed
  with new show ?thesis by (simp add: on_accepted_def)
qed

lemmas handlers_start = on_read_version_starts on_read_head_starts on_read_body_starts on_write_resp_starts
  on_connect_starts on_write_req_starts on_recv_resp_head_starts on_recv_resp_body_starts on_accepted_starts

lemmas handlers_still = starts_calm [OF time_out_calm(1)] starts_calm [OF time_out_calm(2)]
  starts_calm [OF tcp_time_out_calm]

text \<open>Each handler stays below the weight of the operation that called it.\<close>

lemma dispatch_starts:
  assumes wf: "fsm_wf rank (w_fsm w)"
  shows "case weight rank h of
      Some (c, k) \<Rightarrow> starts rank c k w (dispatch env n h ec buf w)
    | None \<Rightarrow> \<forall>c. starts rank c 0 w (dispatch env n h ec buf w)"
proof -
  have resume: "starts rank c (8 * rank (md_name md) + 1) w (resume (module_run env) n md s c w)" for c md s
    by (rule going.resume_below [OF wf]) simp
  show ?thesis
    by (cases h; simp only: weight.simps option.case prod.case dispatch.simps on_forked_def on_joined_def
        on_handle_connect_time_out_def on_handle_time_out_def yields_simps simp_thms split: module_class.split;
        intro allI impI handlers_start [OF wf] handlers_still resume)
qed

lemma fsm_remove_op [simp]: "w_fsm (remove_op i w) = w_fsm w" "w_next_ctx (remove_op i w) = w_next_ctx w"
  by (simp_all add: remove_op_def)

text \<open>What a completion does to the work of a context.\<close>

lemma new_work:
  assumes "\<forall>a \<in> set new. small rank c b N (op_handler a)" and "c' < N"
  shows "\<forall>k \<in># work rank c' new. c' = c \<and> k < b"
  using assms by (induction new) (auto simp: work_def work_of_def small_iff split: option.splits if_splits)

lemma adds_work:
  assumes "adds rank c b w w'" and "c' < w_next_ctx w"
  shows "\<exists>K. work rank c' (w_pending w') = work rank c' (w_pending w) + K \<and> (\<forall>k \<in># K. c' = c \<and> k < b)"
proof -
  from assms(1) obtain new where new: "w_pending w' = w_pending w @ new"
    "\<forall>a \<in> set new. small rank c b (w_next_ctx w) (op_handler a)"
    by (auto simp: adds_def)
  with new_work [OF new(2) assms(2)] show ?thesis by (intro exI [of _ "work rank c' new"]) simp
qed

lemma work_remove:
  assumes "i < length (w_pending w)"
  shows "work rank c (w_pending w) = work rank c (w_pending (remove_op i w)) + work_of rank c (w_pending w ! i)"
  by (subst id_take_nth_drop [OF assms]) (simp add: work_def remove_op_def add.commute add.left_commute)

abbreviation less_work :: "(nat multiset \<times> nat multiset) set" where
  "less_work \<equiv> mult {(x, y). x < y}"

lemma complete_work:
  assumes wf: "fsm_wf rank (w_fsm w)" and i: "i < length (w_pending w)"
    and run: "complete env n i ec buf w = Inr w'" and c: "c < w_next_ctx w"
  shows "if \<exists>k. weight rank (op_handler (w_pending w ! i)) = Some (c, k)
    then (work rank c (w_pending w'), work rank c (w_pending w)) \<in> less_work
    else work rank c (w_pending w') = work rank c (w_pending w)"
proof -
  note starts_below = dispatch_starts [where h = "op_handler (w_pending w ! i)" and w = "remove_op i w" and
      rank = rank and env = env and n = n and ec = ec and buf = buf]
  show ?thesis
  proof (cases "weight rank (op_handler (w_pending w ! i))")
    case None
    with starts_below run wf
    have "adds rank (Suc c) 0 (remove_op i w) w'" by (simp add: complete_def)
    from adds_work [OF this, of c] c None work_remove [OF i, of rank c] show ?thesis
      by (auto simp: work_of_def)
  next
    case (Some ck)
    then obtain c' k where w: "weight rank (op_handler (w_pending w ! i)) = Some (c', k)" by (cases ck) simp
    with starts_below run wf
    have "adds rank c' k (remove_op i w) w'" by (simp add: complete_def)
    from adds_work [OF this, of c] c obtain K where
      K: "work rank c (w_pending w') = work rank c (w_pending (remove_op i w)) + K" "\<forall>j \<in># K. c = c' \<and> j < k"
      by auto
    show ?thesis
    proof (cases "c' = c")
      case True
      have "(work rank c (w_pending (remove_op i w)) + K, work rank c (w_pending (remove_op i w)) + {#k#}) \<in> less_work"
        by (rule one_step_implies_mult) (use K(2) in auto)
      with True w K(1) work_remove [OF i, of rank c] show ?thesis by (simp add: work_of_def)
    next
      case False
      with K(2) have "K = {#}" by (metis multiset_nonemptyE)
      with False w K(1) work_remove [OF i, of rank c] show ?thesis by (simp add: work_of_def)
    qed
  qed
qed

section \<open>Runs\<close>

text \<open>
  One turn of the event loop in an environment that \<open>E\<close> allows, by what it does: complete the
  pending operation at a position, or sweep a pool.
\<close>

definition turn :: "(asio_env \<Rightarrow> bool) \<Rightarrow> nat \<Rightarrow> nat option \<Rightarrow> 'd world \<Rightarrow> 'd world \<Rightarrow> bool" where
  "turn E n act w w' =
     (case act of
        Some i \<Rightarrow> i < length (w_pending w) \<and> (\<exists>env ec buf. E env \<and> complete env n i ec buf w = Inr w')
      | None \<Rightarrow> \<exists>env ks p. E env \<and> iterates ks (w_pools w p) \<and> sweep_pool env ks p w = Inr w')"

text \<open>The context whose operation a turn completes.\<close>

fun handler_ctx :: "'d handler \<Rightarrow> ctx_id option" where
  "handler_ctx (On_read_version md c len) = Some c"
| "handler_ctx (On_read_head md c len) = Some c"
| "handler_ctx (On_read_body md c len) = Some c"
| "handler_ctx (On_read_time_out flag md c) = Some c"
| "handler_ctx (On_write_resp md c) = Some c"
| "handler_ctx (On_write_time_out md c) = Some c"
| "handler_ctx (On_connect md c ip port) = Some c"
| "handler_ctx (On_handle_connect_time_out md c ip port) = Some c"
| "handler_ctx (On_write_req md c req) = Some c"
| "handler_ctx (On_recv_resp_head md c len) = Some c"
| "handler_ctx (On_recv_resp_body md c len) = Some c"
| "handler_ctx (On_handle_time_out md c) = Some c"
| "handler_ctx (On_forked md c s) = Some c"
| "handler_ctx (On_joined md c s) = Some c"
| "handler_ctx (On_accepted conn) = None"

definition serves :: "nat option \<Rightarrow> ctx_id \<Rightarrow> 'd world \<Rightarrow> bool" where
  "serves act c w = (case act of Some i \<Rightarrow> handler_ctx (op_handler (w_pending w ! i)) = Some c | None \<Rightarrow> False)"

lemma handler_ctx_weight: "handler_ctx h = Some c \<longleftrightarrow> (\<exists>k. weight rank h = Some (c, k))"
  by (cases h) auto

lemma handler_ok_ctx: "handler_ok f C h \<Longrightarrow> handler_ctx h = Some c \<Longrightarrow> c \<in> C"
  by (cases h) (auto simp: bound_to_def)

lemma turn_step: "turn E n act w w' \<Longrightarrow> loop_step E n w w'"
  by (cases act) (auto simp: turn_def intro: loop_step.intros)

lemma winv_ctx: "winv rank L w \<Longrightarrow> c \<in> dom (w_contexts w) \<Longrightarrow> c < w_next_ctx w"
  by (auto simp: winv_def)

lemma serves_made:
  assumes inv: "server_inv rank n w" and "turn any_env n act w w'" and "serves act c w"
  shows "c < w_next_ctx w"
proof -
  from assms(2,3) obtain i where i: "i < length (w_pending w)" "handler_ctx (op_handler (w_pending w ! i)) = Some c"
    by (auto simp: turn_def serves_def split: option.splits)
  with inv nth_mem [OF i(1)] handler_ok_ctx have "c \<in> dom (w_contexts w)"
    by (fastforce simp: server_inv_def winv_def)
  with inv winv_ctx [of rank "{}" w c] show ?thesis by (simp add: server_inv_def)
qed

lemma turn_work:
  assumes inv: "server_inv rank n w" and turn: "turn any_env n act w w'" and c: "c < w_next_ctx w"
  shows "c < w_next_ctx w' \<and> (if serves act c w
    then (work rank c (w_pending w'), work rank c (w_pending w)) \<in> less_work
    else work rank c (w_pending w') = work rank c (w_pending w))"
proof (cases act)
  case None
  with turn c show ?thesis by (auto simp: turn_def serves_def sweep_pool_def)
next
  case (Some i)
  with turn obtain env ec buf where i: "i < length (w_pending w)" and run: "complete env n i ec buf w = Inr w'"
    by (auto simp: turn_def)
  have wf: "fsm_wf rank (w_fsm w)" using inv by (simp add: server_inv_def winv_def)
  obtain c' k where "adds rank c' k (remove_op i w) w'"
    using dispatch_starts [where w = "remove_op i w" and h = "op_handler (w_pending w ! i)"
        and rank = rank and env = env and n = n and ec = ec and buf = buf] wf run
    by (auto simp: complete_def split: option.splits prod.splits)
  then have "w_next_ctx w \<le> w_next_ctx w'" by (simp add: adds_def)
  with complete_work [OF wf i run c, folded handler_ctx_weight] c Some show ?thesis
    by (simp add: serves_def)
qed

lemma worked_off:
  assumes "reach (server_start rank n) (loop_step any_env n) (run 0)"
    and "\<And>k. turn any_env n (act k) (run k) (run (Suc k))"
  shows "finite {k. serves (act k) c (run k)}"
proof (rule ccontr)
  assume inf: "\<not> finite {k. serves (act k) c (run k)}"
  have reached: "reach (server_start rank n) (loop_step any_env n) (run k)" for k
    by (induction k) (use assms turn_step in \<open>blast intro: reach_step\<close>)+
  note inv = server_machine.inv_reach [OF this]
  from inf obtain k0 where k0: "serves (act k0) c (run k0)" by (metis (mono_tags, lifting) Collect_empty_eq finite.emptyI)
  let ?M = "\<lambda>k. work rank c (w_pending (run k))"
  have made: "c < w_next_ctx (run (k0 + j))" for j
    by (induction j) (use serves_made [OF inv assms(2) k0] turn_work [OF inv assms(2)] in auto)
  have down: "if serves (act (k0 + j)) c (run (k0 + j)) then (?M (Suc (k0 + j)), ?M (k0 + j)) \<in> less_work
      else ?M (Suc (k0 + j)) = ?M (k0 + j)" for j
    using turn_work [OF inv assms(2) made] by simp
  have "wf less_work" by (rule wf_mult) (rule wf_less)
  then obtain j where j: "\<And>l. (?M (k0 + l), ?M (k0 + j)) \<notin> less_work"
    by (rule wfE_min [of _ "?M k0" "range (\<lambda>l. ?M (k0 + l))"]) (auto intro: range_eqI [of _ _ 0])
  have same: "?M (k0 + (j + l)) = ?M (k0 + j)" for l
  proof (induction l)
    case (Suc l)
    with down [of "j + l"] j [of "Suc (j + l)"] show ?case by (auto split: if_splits)
  qed simp
  have "\<not> serves (act (k0 + (j + l))) c (run (k0 + (j + l)))" for l
    using down [of "j + l"] same [of l] j [of "Suc (j + l)"] by (auto split: if_splits)
  then have "k < k0 + j" if "serves (act k) c (run k)" for k
    using that by (metis add.assoc le_Suc_ex not_le)
  then have "{k. serves (act k) c (run k)} \<subseteq> {..< k0 + j}" by auto
  with inf show False using finite_subset by blast
qed

text \<open>
  C6: Every request is worked off. Let the machine be well-formed and its links descend in a rank, so that it has no
  cycles and no module is linked back to an earlier one. In every run of the server, in any environment,
  however the completions fall, and while any number of other requests are served and new connections
  accepted, the operations of a given context are completed finitely often: forks, joins and time-outs
  included, no request keeps the event loop busy for ever.
\<close>

theorem requests_worked_off:
  assumes "reach (server_start rank n) (loop_step any_env n) (run 0)"
    and "\<And>k. turn any_env n (act k) (run k) (run (Suc k))"
  shows "finite {k. serves (act k) c (run k)}"
  by (rule worked_off [OF assms])

end
