(* ===== verification/Client_Ownership.thy ===== *)
theory Client_Ownership
  imports Event_Loop
begin

text \<open>
  Who owns a back-end connection. A client waits in one deque of one pool, or is held by the
  data of one \<open>TcpModule\<close> in one context, or has been dropped. The event loop keeps this
  for every machine, every application and every order of completions, so two exchanges never
  share a socket.
\<close>

section \<open>Ownership\<close>

definition holds :: "'d world \<Rightarrow> ctx_id \<Rightarrow> string \<Rightarrow> client_id \<Rightarrow> bool" where
  "holds w c n i \<longleftrightarrow> (\<exists>d. mdata w c n = Some (Some (Tcp_data d)) \<and> td_client d = Some i)"

definition pooled :: "'d world \<Rightarrow> nat \<Rightarrow> client_id \<Rightarrow> bool" where
  "pooled w p i \<longleftrightarrow> i \<in> pool_clients (w_pools w p)"

definition own_inv :: "'d world \<Rightarrow> bool" where
  "own_inv w \<longleftrightarrow>
     (\<forall>p. pool_inv (w_pools w p) (w_clients w)) \<and>
     (\<forall>p q i. pooled w p i \<and> pooled w q i \<longrightarrow> p = q) \<and>
     (\<forall>c n p i. holds w c n i \<longrightarrow> \<not> pooled w p i) \<and>
     (\<forall>c n c' n' i. holds w c n i \<and> holds w c' n' i \<longrightarrow> c = c' \<and> n = n') \<and>
     (\<forall>c n i. holds w c n i \<longrightarrow> i < w_next_client w) \<and>
     (\<forall>p i. pooled w p i \<longrightarrow> i < w_next_client w)"

lemma own_invI:
  assumes "\<And>p. pool_inv (w_pools w p) (w_clients w)"
    and "\<And>p q i. pooled w p i \<Longrightarrow> pooled w q i \<Longrightarrow> p = q"
    and "\<And>c n p i. holds w c n i \<Longrightarrow> pooled w p i \<Longrightarrow> False"
    and "\<And>c n c' n' i. holds w c n i \<Longrightarrow> holds w c' n' i \<Longrightarrow> c = c' \<and> n = n'"
    and "\<And>c n i. holds w c n i \<Longrightarrow> i < w_next_client w"
    and "\<And>p i. pooled w p i \<Longrightarrow> i < w_next_client w"
  shows "own_inv w"
  using assms unfolding own_inv_def by blast

lemma own_invD:
  assumes "own_inv w"
  shows own_pool_inv: "pool_inv (w_pools w p) (w_clients w)"
    and own_pooled_once: "pooled w p i \<Longrightarrow> pooled w q i \<Longrightarrow> p = q"
    and own_held_not_pooled: "holds w c n i \<Longrightarrow> \<not> pooled w p i"
    and own_held_once: "holds w c n i \<Longrightarrow> holds w c' n' i \<Longrightarrow> c = c' \<and> n = n'"
    and own_held_known: "holds w c n i \<Longrightarrow> i < w_next_client w"
    and own_pooled_known: "pooled w p i \<Longrightarrow> i < w_next_client w"
  using assms unfolding own_inv_def by blast+

text \<open>Code that leaves pools and clients alone and gives no client to anybody.\<close>

definition quiet :: "'d world \<Rightarrow> 'd world \<Rightarrow> bool" where
  "quiet w w' \<longleftrightarrow>
     w_pools w' = w_pools w \<and> w_clients w' = w_clients w \<and> w_next_client w' = w_next_client w \<and>
     (\<forall>c n i. holds w' c n i \<longrightarrow> holds w c n i)"

lemma quiet_refl [simp]: "quiet w w"
  by (simp add: quiet_def)

lemma quiet_trans: "quiet u v \<Longrightarrow> quiet v w \<Longrightarrow> quiet u w"
  by (simp add: quiet_def)

lemma own_inv_quiet: "own_inv w \<Longrightarrow> quiet w w' \<Longrightarrow> own_inv w'"
proof -
  assume inv: "own_inv w" and q: "quiet w w'"
  from q have same: "w_pools w' = w_pools w" "w_clients w' = w_clients w" "w_next_client w' = w_next_client w"
    and less: "\<And>c n i. holds w' c n i \<Longrightarrow> holds w c n i"
    by (simp_all add: quiet_def)
  from inv show "own_inv w'"
    unfolding own_inv_def pooled_def same by (blast dest: less)
qed

lemma holds_start_op [simp]: "holds (start_op a w) = holds w"
  by (simp add: holds_def fun_eq_iff)

lemma quiet_start_op [simp]: "quiet u (start_op a w) = quiet u w" "quiet (start_op a w) u = quiet w u"
  by (simp_all add: quiet_def)

lemma own_inv_start_op [simp]: "own_inv (start_op a w) = own_inv w"
  by (simp add: own_inv_def pooled_def)

lemma quiet_put_ctx:
  assumes "w_contexts w c = Some cx0"
    and "\<And>n i d. sm_find (cx_module_data_map cx) n = Some (Some (Tcp_data d)) \<Longrightarrow> td_client d = Some i \<Longrightarrow>
      \<exists>d'. sm_find (cx_module_data_map cx0) n = Some (Some (Tcp_data d')) \<and> td_client d' = Some i"
  shows "quiet w (put_ctx c cx w)"
  using assms by (auto simp: quiet_def holds_def mdata_def)

lemma quiet_put_ctx_same:
  "w_contexts w c = Some cx0 \<Longrightarrow> cx_module_data_map cx = cx_module_data_map cx0 \<Longrightarrow>
     quiet w (put_ctx c cx w)"
  by (rule quiet_put_ctx) auto

section \<open>Quiet operations\<close>

lemma app_call_quiet: "yields (app_call c g w) (\<lambda>(r, w'). quiet w w' \<and> mdata w' = mdata w)"
proof (rule yieldsI, clarify)
  fix r w' assume "app_call c g w = Inr (r, w')"
  then obtain cx d d' where cx: "w_contexts w c = Some cx" and w': "w' = put_ctx c (cx\<lparr>cx_data := Some d'\<rparr>) w"
    by (auto simp: app_call_def get_ctx_def Let_def split_beta)
  have "quiet w w'" unfolding w' by (rule quiet_put_ctx_same [OF cx]) simp
  then show "quiet w w' \<and> mdata w' = mdata w" using cx by (auto simp: w' mdata_def fun_eq_iff)
qed

lemma app_do_quiet: "yields (app_do c g w) (\<lambda>w'. quiet w w' \<and> mdata w' = mdata w)"
  unfolding app_do_def by (rule yields_bind [OF app_call_quiet]) auto

lemma context_exit_quiet: "yields (context_exit c w) (quiet w)"
  by (rule yieldsI) (auto simp: context_exit_def get_ctx_def intro: quiet_put_ctx_same)

lemma get_module_data_quiet:
  "yields (get_module_data c n w)
     (\<lambda>(p, w'). quiet w w' \<and> (\<forall>d. p = Some d \<longrightarrow> w' = w \<and> mdata w c n = Some (Some d)))"
proof (rule yieldsI, clarify)
  fix p w' assume get: "get_module_data c n w = Inr (p, w')"
  then obtain cx where cx: "w_contexts w c = Some cx" by (auto simp: get_module_data_def get_ctx_def)
  have "quiet w w'"
  proof (cases "mdata w c n")
    case None
    with get get_module_data_absent [OF cx None] show ?thesis
      by (auto simp: sm_find_put intro!: quiet_put_ctx [OF cx] split: if_splits)
  next
    case (Some q)
    with get get_module_data_present [OF Some] show ?thesis by simp
  qed
  then show "quiet w w' \<and> (\<forall>d. p = Some d \<longrightarrow> w' = w \<and> mdata w c n = Some (Some d))"
    using get get_module_data_Inr [of c n w _ w'] by blast
qed

lemma put_module_data_quiet:
  assumes "\<And>t i. d = Tcp_data t \<Longrightarrow> td_client t = Some i \<Longrightarrow> holds w c n i"
  shows "yields (put_module_data c n d w) (quiet w)"
proof (rule yieldsI)
  fix w' assume "put_module_data c n d w = Inr w'"
  then obtain cx where cx: "w_contexts w c = Some cx"
    "w' = put_ctx c (cx\<lparr>cx_module_data_map := sm_put n (Some d) (cx_module_data_map cx)\<rparr>) w"
    by (rule put_module_data_Inr)
  show "quiet w w'"
    unfolding cx(2)
    by (rule quiet_put_ctx [OF cx(1)])
      (use assms cx(1) in \<open>auto simp: sm_find_put holds_def mdata_def split: if_splits\<close>)
qed

lemma tcp_get_quiet: "yields (tcp_get md c w) (\<lambda>(d, w'). w' = w \<and> mdata w c (md_name md) = Some (Some (Tcp_data d)))"
proof (rule yieldsI, clarify)
  fix d w' assume "tcp_get md c w = Inr (d, w')"
  then obtain p where get: "get_module_data c (md_name md) w = Inr (p, w')" and p: "as_tcp p = Some d"
    by (auto simp: tcp_get_def)
  from p have "p = Some (Tcp_data d)" by (cases p rule: as_tcp.cases) auto
  with get_module_data_Inr [of c "md_name md" w _ w'] get
  show "w' = w \<and> mdata w c (md_name md) = Some (Some (Tcp_data d))" by blast
qed

lemma tcp_modify_quiet:
  assumes "\<And>d. td_client (f d) = td_client d \<or> td_client (f d) = None"
  shows "yields (tcp_modify md c f w) (quiet w)"
  unfolding tcp_modify_def
proof (rule yields_bind [OF tcp_get_quiet], clarify)
  fix d assume "mdata w c (md_name md) = Some (Some (Tcp_data d))"
  then show "yields (put_module_data c (md_name md) (Tcp_data (f d)) w) (quiet w)"
    using assms [of d] by (intro put_module_data_quiet) (auto simp: holds_def)
qed

lemma init_loop_client:
  assumes "init_loop g mods m = Inr m'" "sm_find m' n = Some (Some (Tcp_data d))"
    and "\<forall>n d. sm_find m n = Some (Some (Tcp_data d)) \<longrightarrow> td_client d = None"
  shows "td_client d = None"
  using assms
proof (induction g mods m rule: init_loop.induct)
  case (2 g k p mods m)
  then obtain md where p: "p = Some md" by auto
  show ?case
  proof (cases "module_create_data (g k) md")
    case None
    with "2.IH"(1) [of md] "2.prems" p show ?thesis by simp
  next
    case (Some q)
    have "td_client t = None" if "q = Tcp_data t" for t
      using Some that by (cases "g k") (auto simp: module_create_data_def split: module_class.splits)
    then have "\<forall>n d. sm_find (sm_put k (Some q) m) n = Some (Some (Tcp_data d)) \<longrightarrow> td_client d = None"
      using "2.prems"(3) by (simp add: sm_find_put)
    with "2.IH"(2) [of md q] "2.prems" p Some show ?thesis by simp
  qed
qed auto

lemma context_new_init_quiet:
  assumes "context_new conn w = (c, w1)"
  shows "yields (context_init c w1) (quiet w)"
proof (rule yieldsI)
  fix w2 assume init: "context_init c w1 = Inr w2"
  then obtain m cx where m: "init_loop (w_garbage w c) (fsm_mod_map (w_fsm w)) sm_empty = Inr m"
    and w2: "w2 = w\<lparr>w_next_ctx := Suc c, w_contexts := (w_contexts w)(c \<mapsto> cx)\<rparr>"
    and cx: "cx_module_data_map cx = m"
    using assms by (auto simp: context_init_def context_new_def get_ctx_def Let_def put_ctx_def)
  have "td_client d = None" if "sm_find m n = Some (Some (Tcp_data d))" for n d
    using init_loop_client [OF m that] by (simp add: sm_find_empty)
  then show "quiet w w2" using cx by (auto simp: w2 quiet_def holds_def mdata_def split: if_splits)
qed

lemma reset_loop_client:
  assumes "reset_loop m = Inr m'" "sm_find m' n = Some (Some (Tcp_data d))"
  shows "td_client d = None"
  using assms
proof (induction m arbitrary: m' rule: reset_loop.induct)
  case (2 k p m)
  then obtain q where "p = Some q" by auto
  with 2 show ?case by (cases q) (auto split: if_splits)
qed auto

lemma context_reset_quiet: "yields (context_reset c w) (quiet w)"
  by (rule yieldsI)
    (auto simp: context_reset_def get_ctx_def my_rand_def quiet_def holds_def mdata_def put_ctx_def
      dest: reset_loop_client split: if_splits)

lemma next_module_quiet: "next_module md s w = (p, w') \<Longrightarrow> quiet w w'"
  by (auto simp: next_module_def quiet_def holds_def mdata_def split: prod.splits)

section \<open>What the interpreter preserves\<close>

text \<open>
  An invariant that quiet code keeps and that every module keeps is kept by the interpreter:
  the contract of \<open>Module::run\<close> for partial correctness.
\<close>

locale run_preserves =
  fixes mrun :: "'d module_run" and inv :: "'d world \<Rightarrow> bool"
  assumes inv_quiet: "inv w \<Longrightarrow> quiet w w' \<Longrightarrow> inv w'"
    and inv_run: "inv w \<Longrightarrow> yields (mrun md c s w) (\<lambda>(state, w'). inv w')"
begin

lemma quiet_bind: "inv w \<Longrightarrow> yields r (quiet w) \<Longrightarrow> (\<And>w'. inv w' \<Longrightarrow> yields (f w') P) \<Longrightarrow> yields (rbind r f) P"
  by (erule yields_bind) (blast intro: inv_quiet)

lemma interpreter_preserves:
  "inv w \<Longrightarrow> yields (fsm_run mrun n md c s w) inv"
  "inv w \<Longrightarrow> yields (end_request mrun n c w) inv"
  "inv w1 \<Longrightarrow> yields (handle_request mrun n c w1) inv"
proof (induction n arbitrary: md c s w w1)
  case (Suc n)
  {
    case 1
    have after: "yields (if state \<noteq> Mod_async then resume mrun n md state c w' else Inr w') inv"
      if "inv w'" for state w'
    proof -
      obtain p w'' where nx: "next_module md state w' = (p, w'')" by fastforce
      have w'': "inv w''" by (rule inv_quiet [OF that next_module_quiet [OF nx]])
      have "yields (rbind (context_exit c w'') (end_request mrun n c)) inv"
        by (rule quiet_bind [OF w'' context_exit_quiet]) (rule Suc.IH(2))
      with nx w'' Suc.IH(1,2) that show ?thesis
        by (auto simp: resume_def is_end_module_def split: option.split)
    qed
    show ?case
      unfolding fsm_run_resume
      by (rule yields_bind [OF inv_run [OF 1]]) (use after in auto)
  next
    case 2
    have "yields (rbind (context_init c' w') (handle_request mrun n c')) inv"
      if "context_new conn w = (c', w')" for conn c' w'
      by (rule quiet_bind [OF 2 context_new_init_quiet [OF that]]) (rule Suc.IH(3))
    with 2 show ?case
      by (auto simp: context_is_exit_def get_ctx_def deref_def split: option.split prod.split)
  next
    case 3
    show ?case
      unfolding handle_request.simps
      by (rule quiet_bind [OF 3 context_reset_quiet]) (auto split: option.split intro: Suc.IH(1))
  }
qed simp_all

lemma resume_preserves:
  assumes "inv w"
  shows "yields (resume mrun n md s c w) inv"
proof -
  obtain p w' where nx: "next_module md s w = (p, w')" by fastforce
  have w': "inv w'" by (rule inv_quiet [OF assms next_module_quiet [OF nx]])
  have "yields (rbind (context_exit c w') (end_request mrun n c)) inv"
    by (rule quiet_bind [OF w' context_exit_quiet]) (rule interpreter_preserves)
  with nx w' interpreter_preserves assms show ?thesis
    by (auto simp: resume_def is_end_module_def split: option.split)
qed

lemma app_resume_preserves:
  "inv w \<Longrightarrow> yields (rbind (app_do c g w) (\<lambda>w. resume mrun n md s c w)) inv"
  by (rule quiet_bind [OF _ yields_mono [OF app_do_quiet]]) (auto intro: resume_preserves)

lemma exit_resume_preserves:
  "inv w \<Longrightarrow> yields (rbind (context_exit c w) (\<lambda>w. resume mrun n md s c w)) inv"
  by (rule quiet_bind [OF _ context_exit_quiet]) (auto intro: resume_preserves)

lemma app_exit_resume_preserves:
  "inv w \<Longrightarrow> yields (rbind (app_do c g w) (\<lambda>w. rbind (context_exit c w) (\<lambda>w. resume mrun n md s c w))) inv"
  by (rule quiet_bind [OF _ yields_mono [OF app_do_quiet]]) (auto intro: exit_resume_preserves)

end

section \<open>Clients that move\<close>

lemma tcp_modify_Inr:
  assumes "tcp_modify md c f w = Inr w'"
  obtains d where "mdata w c (md_name md) = Some (Some (Tcp_data d))"
    "\<And>c' n'. mdata w' c' n' =
       (if c' = c \<and> n' = md_name md then Some (Some (Tcp_data (f d))) else mdata w c' n')"
    "w_pools w' = w_pools w" "w_clients w' = w_clients w" "w_next_client w' = w_next_client w"
proof -
  from assms obtain d w1 where get: "tcp_get md c w = Inr (d, w1)"
    and put: "put_module_data c (md_name md) (Tcp_data (f d)) w1 = Inr w'"
    by (auto simp: tcp_modify_def)
  from yieldsD [OF tcp_get_quiet get] have w1: "w1 = w" and d: "mdata w c (md_name md) = Some (Some (Tcp_data d))"
    by auto
  from put [unfolded w1] obtain cx where
    "w' = put_ctx c (cx\<lparr>cx_module_data_map := sm_put (md_name md) (Some (Tcp_data (f d))) (cx_module_data_map cx)\<rparr>) w"
    "\<And>c' n'. mdata w' c' n' =
       (if c' = c \<and> n' = md_name md then Some (Some (Tcp_data (f d))) else mdata w c' n')"
    by (rule put_module_data_Inr) blast
  with d show ?thesis by (intro that [of d]) simp_all
qed

lemma holds_world [simp]:
  "holds (w\<lparr>w_pools := ps\<rparr>) = holds w" "holds (w\<lparr>w_clients := hp\<rparr>) = holds w"
  "holds (w\<lparr>w_next_client := k\<rparr>) = holds w" "holds (w\<lparr>w_pending := as\<rparr>) = holds w"
  "holds (w\<lparr>w_next_conn := cn\<rparr>) = holds w"
  by (simp_all add: holds_def fun_eq_iff)

lemma pool_inv_peers: "pool_inv p h \<Longrightarrow> (\<And>i. tc_peer_id (h' i) = tc_peer_id (h i)) \<Longrightarrow> pool_inv p h'"
  by (rule pool_inv_heap)

lemma own_inv_clients:
  "own_inv w \<Longrightarrow> (\<And>i. tc_peer_id (hp i) = tc_peer_id (w_clients w i)) \<Longrightarrow> own_inv (w\<lparr>w_clients := hp\<rparr>)"
  unfolding own_inv_def pooled_def by (auto intro: pool_inv_peers)

text \<open>A client taken from a pool changes hands.\<close>

lemma own_inv_get:
  assumes inv: "own_inv w"
    and get: "get_client env peer (w_pools w pool) (w_clients w) = (client, p, hp)"
  defines "w1 \<equiv> w\<lparr>w_pools := (w_pools w)(pool := p), w_clients := hp\<rparr>"
  shows "own_inv w1" and "client = Some i \<Longrightarrow> (\<forall>q. \<not> pooled w1 q i) \<and> (\<forall>c n. \<not> holds w1 c n i) \<and>
    i < w_next_client w1"
proof -
  from inv have pi: "pool_inv (w_pools w q) (w_clients w)" for q by (simp add: own_inv_def)
  have peers: "tc_peer_id (hp i) = tc_peer_id (w_clients w i)" for i
    using get_client_heap [OF get] by (simp add: heap_kept_def)
  have "pool_inv (w_pools w1 q) hp" for q
    using get_client_inv [OF pi get] pool_inv_peers [OF pi peers] by (simp add: w1_def)
  moreover have sub: "pooled w1 q i \<Longrightarrow> pooled w q i" for q i
    using get_client_shrinks [OF get] by (auto simp: pooled_def w1_def split: if_splits)
  moreover have "w_clients w1 = hp" "w_next_client w1 = w_next_client w" "holds w1 = holds w"
    by (simp_all add: w1_def)
  ultimately show "own_inv w1"
    by (intro own_invI) (auto dest!: sub dest: own_invD(2-) [OF inv])
  assume c: "client = Some i"
  then have i: "pooled w pool i" "\<not> pooled w1 pool i"
    using get_client_takes(1,2) [OF pi get [unfolded c]] by (simp_all add: pooled_def w1_def)
  then have "\<not> pooled w1 q i" for q
    using own_pooled_once [OF inv i(1)] sub [of q i] by blast
  moreover have "\<not> holds w1 c n i" for c n
    using own_held_not_pooled [OF inv] i(1) by (auto simp: w1_def)
  ultimately show "(\<forall>q. \<not> pooled w1 q i) \<and> (\<forall>c n. \<not> holds w1 c n i) \<and> i < w_next_client w1"
    using own_pooled_known [OF inv i(1)] by (simp add: w1_def)
qed

text \<open>Giving an unowned client to a module.\<close>

lemma own_inv_hold:
  assumes inv: "own_inv w" and free: "\<And>i. client = Some i \<Longrightarrow>
      (\<forall>q. \<not> pooled w q i) \<and> (\<forall>c n. \<not> holds w c n i) \<and> i < w_next_client w"
    and mod: "tcp_modify md c (\<lambda>d. d\<lparr>td_client := client\<rparr>) w = Inr w'"
  shows "own_inv w'"
proof -
  from mod obtain d where md: "\<And>c' n'. mdata w' c' n' =
       (if c' = c \<and> n' = md_name md then Some (Some (Tcp_data (d\<lparr>td_client := client\<rparr>))) else mdata w c' n')"
    and same: "w_pools w' = w_pools w" "w_clients w' = w_clients w" "w_next_client w' = w_next_client w"
    by (rule tcp_modify_Inr) blast
  have h: "holds w' c' n' i \<longleftrightarrow>
      (if c' = c \<and> n' = md_name md then client = Some i else holds w c' n' i)" for c' n' i
    by (auto simp: holds_def md)
  have p: "pooled w' q i = pooled w q i" for q i by (simp add: pooled_def same)
  show ?thesis
    by (rule own_invI)
      (use free in \<open>auto simp: h p same own_pool_inv [OF inv] split: if_splits dest: own_invD(2-) [OF inv]\<close>)
qed

lemma tcp_take_client_own:
  assumes "own_inv w"
  shows "yields (tcp_take_client env md pool c peer w) (\<lambda>(client, w'). own_inv w')"
proof (rule yieldsI, clarify)
  fix client' w' assume take: "tcp_take_client env md pool c peer w = Inr (client', w')"
  obtain client p hp where get: "get_client env peer (w_pools w pool) (w_clients w) = (client, p, hp)"
    by (rule prod_cases3)
  let ?w1 = "w\<lparr>w_pools := (w_pools w)(pool := p), w_clients := hp\<rparr>"
  have "tcp_modify md c (\<lambda>d. d\<lparr>td_client := client\<rparr>) ?w1 = Inr w'"
    using take by (auto simp: tcp_take_client_def get)
  from own_inv_hold [OF own_inv_get [OF assms get] this] show "own_inv w'" .
qed

lemma client_new_own:
  assumes inv: "own_inv w" and new: "client_new env peer w = (i, w')"
  shows "own_inv w'" "(\<forall>q. \<not> pooled w' q i) \<and> (\<forall>c n. \<not> holds w' c n i) \<and> i < w_next_client w'"
proof -
  from new have i: "i = w_next_client w"
    and w': "w' = w\<lparr>w_clients := (w_clients w)(i := tcp_client_new env peer), w_next_client := Suc i\<rparr>"
    by (auto simp: client_new_def Let_def)
  have fresh: "\<not> pooled w q i" "\<not> holds w c n i" for q c n
    using inv i unfolding own_inv_def by blast+
  have same: "pooled w' q j = pooled w q j" "holds w' = holds w" for q j
    by (simp_all add: w' pooled_def)
  have "pool_inv (w_pools w q) ((w_clients w)(i := tcp_client_new env peer))" for q
    by (rule pool_inv_other) (use inv fresh in \<open>simp_all add: own_inv_def pooled_def\<close>)
  moreover have "w_pools w' = w_pools w" "w_next_client w' = Suc (w_next_client w)"
    "w_clients w' = (w_clients w)(i := tcp_client_new env peer)"
    by (simp_all add: w' i)
  ultimately show "own_inv w'"
    by (intro own_invI) (auto simp: same dest: own_invD(2-) [OF inv] intro: less_SucI)
  show "(\<forall>q. \<not> pooled w' q i) \<and> (\<forall>c n. \<not> holds w' c n i) \<and> i < w_next_client w'"
    using fresh by (simp add: same) (simp add: w')
qed

lemma tcp_give_client_own:
  assumes inv: "own_inv w"
  shows "yields (tcp_give_client env md pool c w) own_inv"
  unfolding tcp_give_client_def
proof (rule yields_bind [OF tcp_get_quiet], clarsimp split: prod.split)
  fix d p hp assume d: "mdata w c (md_name md) = Some (Some (Tcp_data d))"
    and rec: "recollect env (td_client d) (w_pools w pool) (w_clients w) = (p, hp)"
  let ?w1 = "w\<lparr>w_pools := (w_pools w)(pool := p), w_clients := hp\<rparr>"
  show "yields (tcp_modify md c (\<lambda>d. d\<lparr>td_client := None\<rparr>) ?w1) own_inv"
  proof (rule yieldsI)
    fix w' assume "tcp_modify md c (\<lambda>d. d\<lparr>td_client := None\<rparr>) ?w1 = Inr w'"
    then obtain d' where md: "\<And>c' n'. mdata w' c' n' = (if c' = c \<and> n' = md_name md
          then Some (Some (Tcp_data (d'\<lparr>td_client := None\<rparr>))) else mdata ?w1 c' n')"
      and same: "w_pools w' = w_pools ?w1" "w_clients w' = w_clients ?w1" "w_next_client w' = w_next_client ?w1"
      by (rule tcp_modify_Inr) blast
    have h: "holds w' c' n' i \<longleftrightarrow> \<not> (c' = c \<and> n' = md_name md) \<and> holds w c' n' i" for c' n' i
      by (auto simp: holds_def md)
    show "own_inv w'"
    proof (cases "td_client d")
      case None
      with rec have "p = w_pools w pool" "hp = w_clients w" by (simp_all add: recollect_def)
      then have "quiet w w'" using h by (simp add: quiet_def same)
      with inv show ?thesis by (rule own_inv_quiet)
    next
      case (Some i)
      note rec = rec [unfolded Some]
      have held: "holds w c (md_name md) i" using d Some by (simp add: holds_def)
      then have out: "\<not> pooled w q i" for q using inv by (auto simp: own_inv_def)
      have pi: "pool_inv (w_pools w q) (w_clients w)" for q using inv by (simp add: own_inv_def)
      have "pool_inv p hp" by (rule recollect_inv [OF pi _ rec]) (use out in \<open>simp add: pooled_def\<close>)
      moreover have "pool_inv (w_pools w q) hp" for q
        by (rule pool_inv_peers [OF pi]) (simp add: recollect_heap [OF rec] client_simps)
      moreover have pl: "pooled w' q j \<longleftrightarrow> pooled w q j \<or> q = pool \<and> j = i" for q j
        using recollect_clients [OF rec] by (auto simp: pooled_def same)
      ultimately show ?thesis
        using own_held_known [OF inv held] own_held_once [OF inv held]
        by (intro own_invI) (auto simp: h pl same out own_pool_inv [OF inv] dest: own_invD(2-) [OF inv])
    qed
  qed
qed

lemma tcp_close_client_own:
  assumes "own_inv w"
  shows "yields (tcp_close_client md c w) own_inv"
  unfolding tcp_close_client_def tcp_the_client_def
proof (rule yieldsI, clarsimp)
  fix d w' i assume "tcp_get md c w = Inr (d, w')"
  with yieldsD [OF tcp_get_quiet] have "w' = w" by blast
  with assms show "own_inv (w'\<lparr>w_clients := (w_clients w')(i := close (w_clients w' i))\<rparr>)"
    by (auto intro: own_inv_clients simp: client_simps)
qed

section \<open>Every module keeps it\<close>

abbreviation yields_quiet :: "'d world \<Rightarrow> ('r \<times> 'd world) res \<Rightarrow> bool" where
  "yields_quiet w r \<equiv> yields r (\<lambda>(x, w'). quiet w w')"

lemma yields_quiet_bind:
  assumes "yields_quiet w r" and "\<And>x w'. yields_quiet w' (f (x, w'))"
  shows "yields_quiet w (rbind r f)"
  by (rule yields_bind [OF assms(1)], clarify, rule yields_mono [OF assms(2)]) (auto intro: quiet_trans)

lemma app_call_yields_quiet: "yields_quiet w (app_call c g w)"
  by (rule yields_mono [OF app_call_quiet]) auto

lemma get_module_data_yields_quiet: "yields_quiet w (get_module_data c n w)"
  by (rule yields_mono [OF get_module_data_quiet]) auto

lemma own_bind:
  assumes "own_inv w" and "yields_quiet w r" and "\<And>x w'. own_inv w' \<Longrightarrow> yields (f (x, w')) P"
  shows "yields (rbind r f) P"
  by (rule yields_bind [OF assms(2)]) (auto intro: assms(3) own_inv_quiet [OF assms(1)])

lemma own_bind_world:
  assumes "own_inv w" and "yields r own_inv" and "\<And>w'. own_inv w' \<Longrightarrow> yields (f w') P"
  shows "yields (rbind r f) P"
  by (rule yields_bind [OF assms(2)]) (rule assms(3))

lemma timer_quiet:
  "yields_quiet w (request_timer md c w)" "yields_quiet w (response_timer md c w)"
  "yields_quiet w (tcp_timer md c w)"
proof -
  show "yields_quiet w (request_timer md c w)" "yields_quiet w (response_timer md c w)"
    unfolding request_timer_def response_timer_def
    by (rule yields_bind [OF get_module_data_yields_quiet], auto intro: yields_any)+
  show "yields_quiet w (tcp_timer md c w)"
    unfolding tcp_timer_def by (rule yields_bind [OF tcp_get_quiet]) auto
qed

lemma request_run_quiet: "yields_quiet w (request_run md h c s w)"
  unfolding request_run_def Let_def
  by (rule yields_any, rule yields_any, rule yields_bind [OF timer_quiet(1)]) auto

lemma response_run_quiet: "yields_quiet w (response_run md h c s w)"
  unfolding response_run_def Let_def
proof (rule yields_any, rule yields_quiet_bind [OF app_call_yields_quiet], unfold prod.case)
  fix cx :: "'a fsm_context" and resp w1
  show "yields_quiet w1 (case resp of
         None \<Rightarrow> Inr (Mod_Failed, w1)
       | Some buf \<Rightarrow>
           rbind (response_timer md c w1) (\<lambda>(timer, w).
             Inr (Mod_async, start_op (Async_write (Conn_socket (cx_conn cx)) buf (On_write_resp md c))
               (start_op (Async_wait timer (rs_get_write_resp_time_out_ms h) (On_write_time_out md c)) w))))"
    by (cases resp) (auto intro: yields_bind [OF timer_quiet(2)])
qed

lemma fork_loop_quiet: "yields (fork_loop md c is w) (quiet w)"
proof (induction "is" arbitrary: w)
  case (Cons i "is")
  show ?case
    unfolding fork_loop.simps
  proof (rule yields_bind [OF get_module_data_yields_quiet], clarify)
    fix p w' assume q: "quiet w w'"
    show "yields (rbind (deref (as_fork p)) (\<lambda>fork_num.
        if i \<ge> unat fork_num then Inl Out_of_bounds
        else fork_loop md c is (start_op (Async_wait (Module_timer c (md_name md) i) 0
                        (On_forked md c (Mod_Fork0 + word_of_nat i))) w'))) (quiet w)"
      using yields_mono [OF Cons.IH] q
      by (cases "as_fork p") (auto intro!: yields_mono [OF Cons.IH] intro: quiet_trans simp: quiet_def)
  qed
qed simp

lemma fork_run_quiet: "yields_quiet w (fork_run md g c s w)"
  unfolding fork_run_def
  by (rule yieldsI) (auto dest!: yieldsD [OF fork_loop_quiet])

lemma join_run_quiet: "yields_quiet w (join_run md g c s w)"
  unfolding join_run_def Let_def
proof (rule yields_quiet_bind [OF get_module_data_yields_quiet], unfold prod.case, rule yields_any)
  fix w1 d
  obtain j d' where arr: "join_arrive s d = (j, d')" by fastforce
  show "yields_quiet w1 (case join_arrive s d of (joined, d') \<Rightarrow>
     rbind (put_module_data c (md_name md) (Join_data d') w1) (\<lambda>w.
     rbind (app_get c g w) (\<lambda>k.
       if joined = k then Inr (Mod_async, start_op (Async_wait (Module_timer c (md_name md) 0) 0
           (On_joined md c (if jd_failed_join d' then Mod_Failed else Mod_Succeed))) w)
       else Inr (Mod_async, w))))"
    unfolding arr prod.case
    by (rule yields_bind [OF put_module_data_quiet]) (auto intro: yields_any)
qed

lemma tcp_lock_quiet: "yields (tcp_lock md c w) (quiet w)"
  unfolding tcp_lock_def
proof (rule yields_bind [OF tcp_get_quiet], clarify)
  fix d
  show "yields (if td_locked d then Inl Deadlock else tcp_modify md c (\<lambda>d. d\<lparr>td_locked := True\<rparr>) w) (quiet w)"
    using tcp_modify_quiet [of "\<lambda>d. d\<lparr>td_locked := True\<rparr>" md c w] by simp
qed

lemma tcp_unlock_quiet: "yields (tcp_unlock md c w) (quiet w)"
  unfolding tcp_unlock_def by (rule tcp_modify_quiet) simp

lemma with_tcp_lock_own:
  assumes "own_inv w" and body: "\<And>w'. own_inv w' \<Longrightarrow> yields (body w') (\<lambda>(r, w''). own_inv w'')"
  shows "yields (with_tcp_lock md c body w) (\<lambda>(r, w'). own_inv w')"
  unfolding with_tcp_lock_def
proof (rule yields_bind [OF tcp_lock_quiet])
  fix w1 assume "quiet w w1"
  then have "own_inv w1" by (rule own_inv_quiet [OF assms(1)])
  from body [OF this] show "yields (rbind (body w1) (\<lambda>(r, w).
      rbind (tcp_unlock md c w) (\<lambda>w. Inr (r, w)))) (\<lambda>(r, w'). own_inv w')"
    by (rule yields_bind, clarify, intro yields_bind [OF tcp_unlock_quiet]) (auto intro: own_inv_quiet)
qed

lemma in_tcp_lock_own:
  assumes "own_inv w" and body: "\<And>w'. own_inv w' \<Longrightarrow> yields (body w') own_inv"
  shows "yields (in_tcp_lock md c body w) own_inv"
  unfolding in_tcp_lock_def
  by (rule yields_bind [OF with_tcp_lock_own [OF assms(1)]]) (auto intro: yields_bind [OF body])

lemma tcp_the_client_quiet: "yields (tcp_the_client md c w) (\<lambda>(i, w'). w' = w)"
  unfolding tcp_the_client_def
  by (rule yields_bind [OF tcp_get_quiet], rule yieldsI) auto

lemma send_request_quiet: "yields_quiet w (send_request md h c w)"
  unfolding send_request_def
proof (rule yields_quiet_bind [OF app_call_yields_quiet], unfold prod.case)
  fix req w1
  show "yields_quiet w1 (rbind (tcp_the_client md c w1) (\<lambda>(i, w).
      let w = start_op (Async_write (Client_socket i) req (On_write_req md c req)) w in
     rbind (tcp_modify md c (\<lambda>d. d\<lparr>td_socket_event := Socket_Event_Opened\<rparr>) w) (\<lambda>w. Inr (Mod_async, w))))"
    by (rule yields_bind [OF tcp_the_client_quiet], clarsimp)
      (rule yields_bind [OF tcp_modify_quiet]; auto simp: quiet_def)
qed

lemma send_with_timer_quiet: "yields_quiet w (send_with_timer md h c w)"
  unfolding send_with_timer_def
proof (rule yields_bind [OF timer_quiet(3)], clarify)
  fix t w' assume "quiet w w'"
  then show "yields_quiet w (send_request md h c (start_op (Async_wait t (tm_get_time_out_ms h)
      (On_handle_time_out md c)) w'))"
    by (intro yields_mono [OF send_request_quiet]) (auto simp: quiet_def)
qed

lemma yields_quiet_own:
  assumes "own_inv w" "yields_quiet w r"
  shows "yields r (\<lambda>(x, w'). own_inv w')"
  by (rule yields_mono [OF assms(2)]) (auto intro: own_inv_quiet [OF assms(1)])

lemma tcp_connect_own:
  assumes inv: "own_inv w"
  shows "yields (tcp_connect env md h c peer ip port w) (\<lambda>(r, w'). own_inv w')"
proof -
  have "yields (if \<not> ev_socket_opens env then Inr (Mod_Failed, w1)
      else let (i, w) = client_new env peer w1 in
        rbind (tcp_modify md c (\<lambda>d. d\<lparr>td_client := Some i\<rparr>) w) (\<lambda>w.
          rbind (tcp_modify md c (\<lambda>d. d\<lparr>td_socket_event := Socket_Event_Opened\<rparr>)
            (start_op (Async_connect (Client_socket i) ip port (On_connect md c ip port)) w))
          (\<lambda>w. Inr (Mod_async, w)))) (\<lambda>(r, w'). own_inv w')" if w1: "own_inv w1" for w1
  proof -
    obtain i w2 where new: "client_new env peer w1 = (i, w2)" by fastforce
    note own = client_new_own [OF w1 new]
    have "own_inv w3" if "tcp_modify md c (\<lambda>d. d\<lparr>td_client := Some i\<rparr>) w2 = Inr w3" for w3
      using own_inv_hold [OF own(1) _ that] own(2) by simp
    then have "yields (tcp_modify md c (\<lambda>d. d\<lparr>td_client := Some i\<rparr>) w2) own_inv"
      by (rule yieldsI)
    then have "yields (rbind (tcp_modify md c (\<lambda>d. d\<lparr>td_client := Some i\<rparr>) w2) (\<lambda>w.
          rbind (tcp_modify md c (\<lambda>d. d\<lparr>td_socket_event := Socket_Event_Opened\<rparr>)
            (start_op (Async_connect (Client_socket i) ip port (On_connect md c ip port)) w))
          (\<lambda>w. Inr (Mod_async, w)))) (\<lambda>(r, w'). own_inv w')"
      by (rule yields_bind, intro yields_bind [OF tcp_modify_quiet]) (auto intro: own_inv_quiet)
    with w1 new show ?thesis by simp
  qed
  then show ?thesis
    unfolding tcp_connect_def Let_def
    by (auto simp: inv intro!: own_bind [OF inv timer_quiet(3)] own_inv_quiet [OF _ iffD2 [OF quiet_start_op(1) quiet_refl]])
qed

lemma tcp_run_own:
  assumes "own_inv w"
  shows "yields (tcp_run env md pool h c s w) (\<lambda>(r, w'). own_inv w')"
proof -
  have "yields (rbind (tcp_take_client env md pool c peer w1) (\<lambda>(client, w).
      case client of
        None \<Rightarrow> rbind (app_call c (tm_get_server_ip_port h) w) (\<lambda>(addr, w).
          case addr of
            None \<Rightarrow> Inr (Mod_Failed, w)
          | Some (ip, port) \<Rightarrow> tcp_connect env md h c peer ip port w)
      | Some _ \<Rightarrow> send_with_timer md h c w)) (\<lambda>(r, w'). own_inv w')" if w1: "own_inv w1" for peer w1
  proof (rule yields_bind [OF tcp_take_client_own [OF w1]], clarify)
    fix client and w2 :: "'a world" assume w2: "own_inv w2"
    show "yields (case client of
        None \<Rightarrow> rbind (app_call c (tm_get_server_ip_port h) w2) (\<lambda>(addr, w).
          case addr of
            None \<Rightarrow> Inr (Mod_Failed, w)
          | Some (ip, port) \<Rightarrow> tcp_connect env md h c peer ip port w)
      | Some _ \<Rightarrow> send_with_timer md h c w2) (\<lambda>(r, w'). own_inv w')"
      using yields_quiet_own [OF w2 send_with_timer_quiet]
      by (cases client) (auto intro!: own_bind [OF w2 app_call_yields_quiet] tcp_connect_own split: option.split)
  qed
  from with_tcp_lock_own [OF assms this] assms show ?thesis
    by (auto simp: tcp_run_def Let_def intro!: yields_any)
qed

lemma module_run_own:
  assumes "own_inv w"
  shows "yields (module_run env md c s w) (\<lambda>(state, w'). own_inv w')"
  using yields_quiet_own [OF assms app_call_yields_quiet [where g = "g :: 'a \<Rightarrow> ModState \<times> 'a" for g]]
    yields_quiet_own [OF assms request_run_quiet]
    yields_quiet_own [OF assms response_run_quiet] yields_quiet_own [OF assms fork_run_quiet]
    yields_quiet_own [OF assms join_run_quiet] tcp_run_own [OF assms]
  by (simp add: module_run_def simple_run_def split: module_class.split)

interpretation own: run_preserves "module_run env" own_inv for env
  by unfold_locales (erule (1) own_inv_quiet, erule module_run_own)

section \<open>Every handler keeps it\<close>

lemma cancel_timer_quiet:
  "yields_quiet w (request_cancel_timer env md c w)" "yields_quiet w (response_cancel_timer env md c w)"
  "yields_quiet w (cancel_time_out_timer env md c w)"
proof -
  show "yields_quiet w (request_cancel_timer env md c w)"
    unfolding request_cancel_timer_def by (rule yields_bind [OF timer_quiet(1)]) auto
  show "yields_quiet w (response_cancel_timer env md c w)"
    unfolding response_cancel_timer_def by (rule yields_bind [OF timer_quiet(2)]) auto
  show "yields_quiet w (cancel_time_out_timer env md c w)"
    unfolding cancel_time_out_timer_def by (rule yields_bind [OF timer_quiet(3)]) auto
qed

lemma read_accepted_quiet: "yields_quiet w (read_accepted c ec impl w)"
  using app_call_yields_quiet [where w = w and c = c and g = impl] by (simp add: read_accepted_def)

lemma read_failed_own:
  assumes "own_inv w"
  shows "yields (read_failed env (module_run env) n md g c ec w) own_inv"
proof -
  have "yields (rbind (request_cancel_timer env md c w) (\<lambda>(ok, w). if \<not> ok then Inr w
      else rbind (app_do c g w) (\<lambda>w. rbind (context_exit c w) (\<lambda>w. resume (module_run env) n md Mod_Failed c w)))) own_inv"
    by (rule own_bind [OF assms cancel_timer_quiet(1)]) (auto intro: own.app_exit_resume_preserves)
  with own.exit_resume_preserves [OF assms] show ?thesis by (simp add: read_failed_def)
qed

lemma on_read_version_own:
  assumes "own_inv w"
  shows "yields (on_read_version env (module_run env) n md h c buf len ec w) own_inv"
  unfolding on_read_version_def Let_def
proof (rule own_bind [OF assms read_accepted_quiet], unfold prod.case)
  fix ok and w1 :: "'a world" assume w1: "own_inv w1"
  have "yields (rbind (request_cancel_timer env md c w1) (\<lambda>(cancelled, w).
      if \<not> cancelled then Inr w
      else rbind (app_get c (rq_get_head_len h) w) (\<lambda>head_len.
           rbind (get_ctx c w) (\<lambda>cx.
           rbind (request_timer md c w) (\<lambda>(timer, w).
             Inr (start_op (Async_read (Conn_socket (cx_conn cx)) head_len (On_read_head md c head_len))
               (start_op (Async_wait timer (rq_get_read_head_and_body_time_out_ms h) (On_read_time_out 2 md c)) w))))))) own_inv"
    by (rule own_bind [OF w1 cancel_timer_quiet(1)])
      (auto intro!: yields_any intro: own_inv_quiet dest!: yieldsD [OF timer_quiet(1)])
  with read_failed_own [OF w1] show "yields (if \<not> ok
      then read_failed env (module_run env) n md (rq_on_read_version_failed h) c ec w1
      else rbind (request_cancel_timer env md c w1) (\<lambda>(cancelled, w).
      if \<not> cancelled then Inr w
      else rbind (app_get c (rq_get_head_len h) w) (\<lambda>head_len.
           rbind (get_ctx c w) (\<lambda>cx.
           rbind (request_timer md c w) (\<lambda>(timer, w).
             Inr (start_op (Async_read (Conn_socket (cx_conn cx)) head_len (On_read_head md c head_len))
               (start_op (Async_wait timer (rq_get_read_head_and_body_time_out_ms h) (On_read_time_out 2 md c)) w))))))) own_inv"
    by simp
qed

lemma on_read_head_own:
  assumes "own_inv w"
  shows "yields (on_read_head env (module_run env) n md h c buf len ec w) own_inv"
  unfolding on_read_head_def
  by (rule own_bind [OF assms read_accepted_quiet])
    (auto intro!: read_failed_own yields_any intro: own_inv_quiet)

lemma on_read_body_own:
  assumes "own_inv w"
  shows "yields (on_read_body env (module_run env) n md h c buf len ec w) own_inv"
  unfolding on_read_body_def
proof (rule own_bind [OF assms read_accepted_quiet], unfold prod.case)
  fix ok and w1 :: "'a world" assume w1: "own_inv w1"
  have "yields (rbind (request_cancel_timer env md c w1) (\<lambda>(cancelled, w).
      if \<not> cancelled then Inr w
      else rbind (app_get c (rq_get_succeed_state h) w) (\<lambda>state. resume (module_run env) n md state c w))) own_inv"
    by (rule own_bind [OF w1 cancel_timer_quiet(1)]) (auto intro!: yields_any own.resume_preserves)
  with read_failed_own [OF w1] show "yields (if \<not> ok
      then read_failed env (module_run env) n md (rq_on_read_body_failed h) c ec w1
      else rbind (request_cancel_timer env md c w1) (\<lambda>(cancelled, w).
      if \<not> cancelled then Inr w
      else rbind (app_get c (rq_get_succeed_state h) w) (\<lambda>state. resume (module_run env) n md state c w))) own_inv"
    by simp
qed

lemma app_do_own: "own_inv w \<Longrightarrow> yields (app_do c g w) own_inv"
  by (rule yields_mono [OF app_do_quiet]) (auto intro: own_inv_quiet)

lemma cancel_socket_own [simp]: "own_inv (cancel_socket so w) = own_inv w"
  by (simp add: own_inv_def pooled_def holds_def)

lemma cancel_own:
  "own_inv w \<Longrightarrow> yields (cancel_conn env c w) own_inv" "own_inv w \<Longrightarrow> yields (tcp_cancel_client md c w) own_inv"
  by (auto intro!: yieldsI dest!: cancel_conn_Inr tcp_cancel_client_Inr)

lemma time_out_own:
  "own_inv w \<Longrightarrow> yields (rbind (app_do c g w) (\<lambda>w. cancel_conn env c w)) own_inv"
  by (rule yields_bind [OF app_do_own]) (auto intro: cancel_own)

lemma on_read_time_out_own:
  "own_inv w \<Longrightarrow> yields (on_read_time_out env h flag c ec w) own_inv"
  "own_inv w \<Longrightarrow> yields (on_write_time_out env h' c ec w) own_inv"
  by (auto simp: on_read_time_out_def on_write_time_out_def intro!: time_out_own [simplified])

lemma on_write_resp_own:
  assumes "own_inv w"
  shows "yields (on_write_resp env (module_run env) n md h c ec w) own_inv"
proof -
  have "yields (rbind (response_cancel_timer env md c w) (\<lambda>(ok, w). if \<not> ok then Inr w
      else rbind (app_do c g w) (\<lambda>w. resume (module_run env) n md Mod_Succeed c w))) own_inv" for g
    by (rule own_bind [OF assms cancel_timer_quiet(2)]) (auto intro: own.app_resume_preserves)
  moreover have "yields (rbind (response_cancel_timer env md c w) (\<lambda>(ok, w). if \<not> ok then Inr w
      else rbind (app_do c g w) (\<lambda>w. rbind (context_exit c w) (\<lambda>w. resume (module_run env) n md Mod_Failed c w)))) own_inv" for g
    by (rule own_bind [OF assms cancel_timer_quiet(2)]) (auto intro: own.app_exit_resume_preserves)
  ultimately show ?thesis using own.exit_resume_preserves [OF assms] by (simp add: on_write_resp_def)
qed

lemma tcp_event_own:
  assumes "own_inv w" and body: "\<And>w'. own_inv w' \<Longrightarrow> yields (body w') own_inv"
  shows "yields (tcp_event md c body w) own_inv"
  unfolding tcp_event_def
proof (rule in_tcp_lock_own [OF assms(1)], rule yields_bind [OF tcp_get_quiet], clarify)
  fix d and w' :: "'a world" assume w': "own_inv w'"
  have "yields (rbind (tcp_modify md c (\<lambda>d. d\<lparr>td_socket_event := Socket_Event_Closed\<rparr>) w') body) own_inv"
    by (rule yields_bind [OF tcp_modify_quiet]) (auto intro: body own_inv_quiet [OF w'])
  with w' show "yields (if td_socket_event d \<noteq> Socket_Event_Opened then Inr w'
      else rbind (tcp_modify md c (\<lambda>d. d\<lparr>td_socket_event := Socket_Event_Closed\<rparr>) w') body) own_inv"
    by simp
qed

lemma tcp_failed_own:
  assumes w: "own_inv w" and failed: "\<And>w'. own_inv w' \<Longrightarrow> yields (on_failed w') own_inv"
  shows "yields (tcp_failed env (module_run env) n md on_failed c ec w) own_inv"
proof -
  have "yields (rbind (cancel_time_out_timer env md c w) (\<lambda>(ok, w). if \<not> ok then Inr w
      else rbind (on_failed w) (\<lambda>w. resume (module_run env) n md Mod_Failed c w))) own_inv"
    by (rule own_bind [OF w cancel_timer_quiet(3)])
      (auto intro: yields_bind [OF failed] own.resume_preserves)
  with own.resume_preserves [OF w] show ?thesis by (simp add: tcp_failed_def)
qed

lemma on_connect_own:
  assumes "own_inv w"
  shows "yields (on_connect env (module_run env) n md h c ip port ec w) own_inv"
  unfolding on_connect_def
proof (rule tcp_event_own [OF assms])
  fix w' :: "'a world" assume w': "own_inv w'"
  have "yields (rbind (send_with_timer md h c w1) (\<lambda>(_, w). Inr w)) own_inv" if "own_inv w1" for w1
    by (rule own_bind [OF that send_with_timer_quiet]) simp
  then have "yields (rbind (cancel_time_out_timer env md c w') (\<lambda>(ok, w). if \<not> ok then Inr w
      else rbind (send_with_timer md h c w) (\<lambda>(_, w). Inr w))) own_inv"
    by (intro own_bind [OF w' cancel_timer_quiet(3)]) simp
  with tcp_failed_own [OF w' app_do_own] show "yields (if ec_set ec
      then tcp_failed env (module_run env) n md (app_do c (tm_on_connect_failed h ip port)) c ec w'
      else rbind (cancel_time_out_timer env md c w') (\<lambda>(ok, w). if \<not> ok then Inr w
        else rbind (send_with_timer md h c w) (\<lambda>(_, w). Inr w))) own_inv"
    by simp
qed

lemma open_read_own:
  assumes "own_inv w"
  shows "yields (rbind (tcp_the_client md c w) (\<lambda>(i, w).
      tcp_modify md c (\<lambda>d. d\<lparr>td_socket_event := Socket_Event_Opened\<rparr>)
        (start_op (Async_read (Client_socket i) len hdl) w))) own_inv"
  by (rule yields_bind [OF tcp_the_client_quiet], clarify, rule yields_mono [OF tcp_modify_quiet])
    (auto intro: own_inv_quiet [OF assms])

lemma on_write_req_own:
  assumes "own_inv w"
  shows "yields (on_write_req env (module_run env) n md h c ec w) own_inv"
  unfolding on_write_req_def Let_def
  by (rule tcp_event_own [OF assms]) (auto intro!: tcp_failed_own app_do_own open_read_own)

lemma on_recv_resp_head_own:
  assumes "own_inv w"
  shows "yields (on_recv_resp_head env (module_run env) n md h c buf len ec w) own_inv"
  unfolding on_recv_resp_head_def
proof (rule tcp_event_own [OF assms])
  fix w' :: "'a world" assume w': "own_inv w'"
  have judge: "yields_quiet w' (if ec_set ec then Inr (False, w') else app_call c (tm_on_read_head_impl h buf len) w')"
    using app_call_yields_quiet [where w = w' and c = c and g = "tm_on_read_head_impl h buf len"] by simp
  show "yields (rbind (if ec_set ec then Inr (False, w') else app_call c (tm_on_read_head_impl h buf len) w')
      (\<lambda>(ok, w). if \<not> ok then
           tcp_failed env (module_run env) n md
             (\<lambda>w. rbind (tcp_close_client md c w) (\<lambda>w. app_do c (tm_on_read_head_failed h) w)) c ec w
         else
           rbind (app_get c (tm_get_resp_body_len h) w) (\<lambda>body_len.
           rbind (tcp_the_client md c w) (\<lambda>(i, w).
             tcp_modify md c (\<lambda>d. d\<lparr>td_socket_event := Socket_Event_Opened\<rparr>)
               (start_op (Async_read (Client_socket i) body_len
                            (On_recv_resp_body md c body_len)) w))))) own_inv"
  proof (rule own_bind [OF w' judge], unfold prod.case)
    fix ok and w1 :: "'a world" assume w1: "own_inv w1"
    have "yields (tcp_failed env (module_run env) n md
        (\<lambda>w. rbind (tcp_close_client md c w) (\<lambda>w. app_do c (tm_on_read_head_failed h) w)) c ec w1) own_inv"
      by (rule tcp_failed_own [OF w1]) (auto intro: yields_bind [OF tcp_close_client_own] app_do_own)
    moreover have "yields (rbind (app_get c (tm_get_resp_body_len h) w1) (\<lambda>body_len.
           rbind (tcp_the_client md c w1) (\<lambda>(i, w).
             tcp_modify md c (\<lambda>d. d\<lparr>td_socket_event := Socket_Event_Opened\<rparr>)
               (start_op (Async_read (Client_socket i) body_len
                            (On_recv_resp_body md c body_len)) w)))) own_inv"
      by (rule yields_any) (rule open_read_own [OF w1])
    ultimately show "yields (if \<not> ok then tcp_failed env (module_run env) n md
        (\<lambda>w. rbind (tcp_close_client md c w) (\<lambda>w. app_do c (tm_on_read_head_failed h) w)) c ec w1
      else rbind (app_get c (tm_get_resp_body_len h) w1) (\<lambda>body_len.
           rbind (tcp_the_client md c w1) (\<lambda>(i, w).
             tcp_modify md c (\<lambda>d. d\<lparr>td_socket_event := Socket_Event_Opened\<rparr>)
               (start_op (Async_read (Client_socket i) body_len
                            (On_recv_resp_body md c body_len)) w)))) own_inv"
      by simp
  qed
qed

lemma on_recv_resp_body_own:
  assumes "own_inv w"
  shows "yields (on_recv_resp_body env (module_run env) n md pool h c buf len ec w) own_inv"
  unfolding on_recv_resp_body_def
proof (rule tcp_event_own [OF assms])
  fix w' :: "'a world" assume w': "own_inv w'"
  have "yields (rbind (tcp_give_client env md pool c w1) (\<lambda>w.
      rbind (app_call c (tm_on_read_body_impl h buf len) w) (\<lambda>(ret, w).
        resume (module_run env) n md (if ret then Mod_Succeed else Mod_Failed) c w))) own_inv"
    if "own_inv w1" for w1
    by (rule yields_bind [OF tcp_give_client_own [OF that]], rule own_bind [OF _ app_call_yields_quiet])
      (auto intro: own.resume_preserves)
  then have "yields (rbind (cancel_time_out_timer env md c w') (\<lambda>(ok, w). if \<not> ok then Inr w
      else rbind (tcp_give_client env md pool c w) (\<lambda>w.
        rbind (app_call c (tm_on_read_body_impl h buf len) w) (\<lambda>(ret, w).
          resume (module_run env) n md (if ret then Mod_Succeed else Mod_Failed) c w)))) own_inv"
    by (intro own_bind [OF w' cancel_timer_quiet(3)]) simp
  with tcp_failed_own [OF w' app_do_own] show "yields (if ec_set ec
      then tcp_failed env (module_run env) n md (app_do c (tm_on_read_body_failed h)) c ec w'
      else rbind (cancel_time_out_timer env md c w') (\<lambda>(ok, w). if \<not> ok then Inr w
      else rbind (tcp_give_client env md pool c w) (\<lambda>w.
        rbind (app_call c (tm_on_read_body_impl h buf len) w) (\<lambda>(ret, w).
          resume (module_run env) n md (if ret then Mod_Succeed else Mod_Failed) c w)))) own_inv"
    by simp
qed

lemma tcp_time_out_own:
  "own_inv w \<Longrightarrow> yields (in_tcp_lock md c (\<lambda>w. if ec_set ec then Inr w
     else rbind (tcp_cancel_client md c w) (\<lambda>w. app_do c g w)) w) own_inv"
  by (rule in_tcp_lock_own) (auto intro: app_do_own yields_bind [OF cancel_own(2)])

lemma start_accept_own: "own_inv w \<Longrightarrow> own_inv (start_accept w)"
  by (simp add: start_accept_def Let_def) (simp add: own_inv_def pooled_def)

lemma on_accepted_own:
  assumes "own_inv w"
  shows "yields (on_accepted (module_run env) n conn ec w) own_inv"
proof -
  obtain c w1 where new: "context_new conn w = (c, w1)" by fastforce
  have "yields (rbind (context_init c w1) (\<lambda>w. rbind (handle_request (module_run env) n c w)
      (\<lambda>w. Inr (start_accept w)))) own_inv"
    by (rule own.quiet_bind [OF assms context_new_init_quiet [OF new]],
        rule yields_bind [OF own.interpreter_preserves(3)]) (auto intro: start_accept_own)
  with new show ?thesis by (simp add: on_accepted_def)
qed

lemmas handler_own =
  on_read_version_own on_read_head_own on_read_body_own on_read_time_out_own on_write_resp_own
  on_connect_own on_write_req_own on_recv_resp_head_own on_recv_resp_body_own tcp_time_out_own
  on_accepted_own own.resume_preserves

lemma dispatch_own: "own_inv w \<Longrightarrow> yields (dispatch env n hdl ec buf w) own_inv"
  by (cases hdl)
    (auto simp: on_handle_connect_time_out_def on_handle_time_out_def on_forked_def on_joined_def
      split: module_class.split intro!: handler_own)

section \<open>The event loop keeps it\<close>

lemma complete_own: "own_inv w \<Longrightarrow> yields (complete env n i ec buf w) own_inv"
  unfolding complete_def
  by (rule dispatch_own) (simp add: remove_op_def own_inv_def pooled_def)

lemma sweep_own:
  assumes inv: "own_inv w" and it: "iterates ks (w_pools w p)" and run: "sweep_pool env ks p w = Inr w'"
  shows "own_inv w'"
proof -
  from run obtain p' hp where chk: "check_clients env ks (w_pools w p) (w_clients w) = Inr (p', hp)"
    and w': "w' = w\<lparr>w_pools := (w_pools w)(p := p'), w_clients := hp\<rparr>"
    by (auto simp: sweep_pool_def)
  note sweep = check_clients_inv [OF own_pool_inv [OF inv] it chk]
  have peers: "tc_peer_id (hp i) = tc_peer_id (w_clients w i)" for i
    by (simp add: sweep(3) close_expired_def client_simps)
  have "pool_inv (w_pools w' q) hp" for q
    using sweep(1) pool_inv_peers [OF own_pool_inv [OF inv] peers] by (simp add: w')
  moreover have sub: "pooled w' q i \<Longrightarrow> pooled w q i" for q i
    using sweep(2) by (auto simp: w' pooled_def split: if_splits)
  moreover have "w_clients w' = hp" "w_next_client w' = w_next_client w" "holds w' = holds w"
    by (simp_all add: w')
  ultimately show ?thesis
    by (intro own_invI) (auto dest!: sub dest: own_invD(2-) [OF inv])
qed

definition no_clients :: "'d world \<Rightarrow> bool" where
  "no_clients w \<longleftrightarrow> w_contexts w = Map.empty \<and>
     (\<forall>p. pool_clients (w_pools w p) = {} \<and> pool_inv (w_pools w p) (w_clients w))"

lemma no_clients_own: "no_clients w \<Longrightarrow> own_inv w"
  by (rule own_invI) (auto simp: no_clients_def pooled_def holds_def mdata_def)

lemma step_own: "own_inv w \<Longrightarrow> loop_step E n w w' \<Longrightarrow> own_inv w'"
  by (erule loop_stepE) (auto dest: yieldsD [OF complete_own] intro: sweep_own)

interpretation own_machine: invariant no_clients "loop_step E n" own_inv for E n
  by unfold_locales (erule no_clients_own, erule (1) step_own)

text \<open>
  C7: No two exchanges share a back-end connection. Whatever the machine, the application, the
  order of completions and the answers of the system, in every reachable state a client is held
  by at most one module of one context, a client that is held waits in no pool, a client waits
  in at most one pool, and in a pool it waits once, under its own peer.
\<close>

theorem clients_never_shared:
  assumes "reach no_clients (loop_step E n) w"
  shows "(\<forall>c m c' m' i. holds w c m i \<and> holds w c' m' i \<longrightarrow> c = c' \<and> m = m') \<and>
     (\<forall>c m p i. holds w c m i \<longrightarrow> i \<notin> pool_clients (w_pools w p)) \<and>
     (\<forall>p q. p \<noteq> q \<longrightarrow> pool_clients (w_pools w p) \<inter> pool_clients (w_pools w q) = {}) \<and>
     (\<forall>p k i. distinct (pool_deque (w_pools w p) k) \<and>
        (Some i \<in> set (pool_deque (w_pools w p) k) \<longrightarrow> tc_peer_id (w_clients w i) = k))"
  using own_machine.inv_reach [OF assms] unfolding own_inv_def pooled_def pool_inv_def
  by (simp add: disjoint_iff) blast

end
