(* ===== verification/Join_Concurrency.thy ===== *)
theory Join_Concurrency
  imports Fork_Join_Module
begin

text \<open>
  \<open>JoinModule::run\<close> (module/join_module.cc) called by several threads at once for the same
  context, one call per branch of the fork. A step is one action of one thread: taking the
  mutex, \<open>failed_join\<close>, the load and the store of \<open>++module_joined_num_\<close> in \<open>module_joined\<close> (the counter
  is a plain \<open>uint16_t\<close>, so another thread may come between them), giving the mutex back, and the
  comparison after it, which reads the failure flag without the mutex. Thread \<open>i\<close> arrives with the
  state \<open>arr i\<close>.
\<close>

section \<open>The threads\<close>

datatype join_pc =
    Jp_start
  | Jp_locked
  | Jp_marked
  | Jp_loaded u16
  | Jp_counted u16
  | Jp_released u16
  | Jp_fired u16 ModState
  | Jp_passed u16

record join_threads =
  jt_data :: join_data
  jt_owner :: "nat option"
  jt_pc :: "nat \<Rightarrow> join_pc"

definition jt_set :: "nat \<Rightarrow> join_pc \<Rightarrow> join_threads \<Rightarrow> join_threads" where
  "jt_set i p s = s\<lparr>jt_pc := (jt_pc s)(i := p)\<rparr>"

inductive join_step :: "nat \<Rightarrow> u16 \<Rightarrow> (nat \<Rightarrow> ModState) \<Rightarrow> join_threads \<Rightarrow> join_threads \<Rightarrow> bool"
  for K active arr where
  js_lock: "i < K \<Longrightarrow> jt_pc s i = Jp_start \<Longrightarrow> jt_owner s = None \<Longrightarrow>
     join_step K active arr s (jt_set i Jp_locked s\<lparr>jt_owner := Some i\<rparr>)"
| js_mark: "i < K \<Longrightarrow> jt_pc s i = Jp_locked \<Longrightarrow>
     join_step K active arr s
       (jt_set i Jp_marked s\<lparr>jt_data := (if arr i \<noteq> Mod_Succeed then failed_join (jt_data s) else jt_data s)\<rparr>)"
| js_load: "i < K \<Longrightarrow> jt_pc s i = Jp_marked \<Longrightarrow>
     join_step K active arr s (jt_set i (Jp_loaded (jd_module_joined_num (jt_data s))) s)"
| js_store: "i < K \<Longrightarrow> jt_pc s i = Jp_loaded r \<Longrightarrow>
     module_joined (jt_data s\<lparr>jd_module_joined_num := r\<rparr>) = (v, d) \<Longrightarrow>
     join_step K active arr s (jt_set i (Jp_counted v) s\<lparr>jt_data := d\<rparr>)"
| js_unlock: "i < K \<Longrightarrow> jt_pc s i = Jp_counted v \<Longrightarrow>
     join_step K active arr s (jt_set i (Jp_released v) s\<lparr>jt_owner := None\<rparr>)"
| js_fire: "i < K \<Longrightarrow> jt_pc s i = Jp_released v \<Longrightarrow> v = active \<Longrightarrow>
     join_step K active arr s
       (jt_set i (Jp_fired v (if jd_failed_join (jt_data s) then Mod_Failed else Mod_Succeed)) s)"
| js_pass: "i < K \<Longrightarrow> jt_pc s i = Jp_released v \<Longrightarrow> v \<noteq> active \<Longrightarrow>
     join_step K active arr s (jt_set i (Jp_passed v) s)"

inductive_cases join_stepE: "join_step K active arr s t"

definition join_start :: "join_threads \<Rightarrow> bool" where
  "join_start s \<longleftrightarrow>
     jt_data s = \<lparr> jd_module_joined_num = 0, jd_failed_join = False \<rparr> \<and> jt_owner s = None \<and>
     (\<forall>i. jt_pc s i = Jp_start)"

section \<open>The invariant\<close>

text \<open>Where a thread is: the value it drew from the counter, whether it holds the mutex.\<close>

fun drawn :: "join_pc \<Rightarrow> u16 option" where
  "drawn (Jp_counted v) = Some v"
| "drawn (Jp_released v) = Some v"
| "drawn (Jp_fired v st) = Some v"
| "drawn (Jp_passed v) = Some v"
| "drawn _ = None"

fun inside :: "join_pc \<Rightarrow> bool" where
  "inside Jp_locked = True"
| "inside Jp_marked = True"
| "inside (Jp_loaded r) = True"
| "inside (Jp_counted v) = True"
| "inside _ = False"

definition marked :: "join_pc \<Rightarrow> bool" where
  "marked p \<longleftrightarrow> p \<noteq> Jp_start \<and> p \<noteq> Jp_locked"

fun finished :: "join_pc \<Rightarrow> bool" where
  "finished (Jp_fired v st) = True"
| "finished (Jp_passed v) = True"
| "finished _ = False"

definition counted :: "nat \<Rightarrow> join_threads \<Rightarrow> nat set" where
  "counted K s = {i. i < K \<and> drawn (jt_pc s i) \<noteq> None}"

definition outcome :: "nat \<Rightarrow> (nat \<Rightarrow> ModState) \<Rightarrow> ModState" where
  "outcome K arr = (if \<exists>i<K. arr i \<noteq> Mod_Succeed then Mod_Failed else Mod_Succeed)"

text \<open>
  The mutex belongs to the thread that is inside; what a thread has loaded is still the counter; the counter is the number of threads that
  have counted, and they drew the values \<open>1\<close> to that number, each once; the flag is set when
  a failed arrival has been marked; a thread that fired drew \<open>active\<close> and saw the outcome of all.
\<close>

definition join_inv :: "nat \<Rightarrow> u16 \<Rightarrow> (nat \<Rightarrow> ModState) \<Rightarrow> join_threads \<Rightarrow> bool" where
  "join_inv K active arr s \<longleftrightarrow>
     (\<forall>i<K. inside (jt_pc s i) \<longleftrightarrow> jt_owner s = Some i) \<and>
     (\<forall>j. jt_owner s = Some j \<longrightarrow> j < K) \<and>
     (\<forall>i<K. \<forall>r. jt_pc s i = Jp_loaded r \<longrightarrow> r = jd_module_joined_num (jt_data s)) \<and>
     unat (jd_module_joined_num (jt_data s)) = card (counted K s) \<and>
     (\<forall>i\<in>counted K s. \<forall>v. drawn (jt_pc s i) = Some v \<longrightarrow> 1 \<le> unat v \<and> unat v \<le> card (counted K s)) \<and>
     inj_on (\<lambda>i. drawn (jt_pc s i)) (counted K s) \<and>
     (jd_failed_join (jt_data s) \<longleftrightarrow> (\<exists>i<K. marked (jt_pc s i) \<and> arr i \<noteq> Mod_Succeed)) \<and>
     (\<forall>i<K. \<forall>v st. jt_pc s i = Jp_fired v st \<longrightarrow> v = active \<and> st = outcome K arr) \<and>
     (\<forall>i<K. \<forall>v. jt_pc s i = Jp_passed v \<longrightarrow> v \<noteq> active)"

lemma jt_set_fields [simp]:
  "jt_pc (jt_set i p s) = (jt_pc s)(i := p)" "jt_data (jt_set i p s) = jt_data s"
  "jt_owner (jt_set i p s) = jt_owner s"
  by (simp_all add: jt_set_def)

lemma counted_finite [simp]: "finite (counted K s)" and counted_le: "card (counted K s) \<le> K"
proof -
  have sub: "counted K s \<subseteq> {..<K}" by (auto simp: counted_def)
  then show "finite (counted K s)" using finite_subset by blast
  show "card (counted K s) \<le> K" using card_mono [OF _ sub] by simp
qed

lemma counted_all: "card (counted K s) = K \<Longrightarrow> counted K s = {..<K}"
  by (rule card_subset_eq) (auto simp: counted_def)

lemma drawn_marked: "drawn p = Some v \<Longrightarrow> marked p"
  by (cases p) (auto simp: marked_def)

text \<open>A thread that does not draw leaves the counter's part of the invariant alone.\<close>

lemma counted_same:
  assumes "\<And>j. drawn (jt_pc t j) = drawn (jt_pc s j)"
  shows "counted K t = counted K s"
    and "inj_on (\<lambda>j. drawn (jt_pc t j)) A = inj_on (\<lambda>j. drawn (jt_pc s j)) A"
  using assms by (simp_all add: counted_def)

lemma join_inv_lock:
  assumes "join_inv K active arr s" "i < K" "jt_pc s i = Jp_start" "jt_owner s = None"
  shows "join_inv K active arr (jt_set i Jp_locked s\<lparr>jt_owner := Some i\<rparr>)"
proof -
  let ?t = "jt_set i Jp_locked s\<lparr>jt_owner := Some i\<rparr>"
  have dr: "drawn (jt_pc ?t j) = drawn (jt_pc s j)" for j using assms(3) by (simp add: jt_set_def)
  have mk: "marked (jt_pc ?t j) = marked (jt_pc s j)" for j using assms(3) by (simp add: jt_set_def marked_def)
  show ?thesis
    using assms(1) unfolding join_inv_def counted_same [of ?t s, OF dr] dr mk
    using assms(2-4) by (auto simp: jt_set_def)
qed

lemma join_inv_mark:
  assumes "join_inv K active arr s" "i < K" "jt_pc s i = Jp_locked"
  shows "join_inv K active arr
    (jt_set i Jp_marked s\<lparr>jt_data := (if arr i \<noteq> Mod_Succeed then failed_join (jt_data s) else jt_data s)\<rparr>)"
    (is "join_inv _ _ _ ?t")
proof -
  have dr: "drawn (jt_pc ?t j) = drawn (jt_pc s j)" for j using assms(3) by (simp add: jt_set_def)
  have mk: "marked (jt_pc ?t j) \<longleftrightarrow> j = i \<or> marked (jt_pc s j)" for j by (simp add: jt_set_def marked_def)
  have num: "jd_module_joined_num (jt_data ?t) = jd_module_joined_num (jt_data s)"
    and flag: "jd_failed_join (jt_data ?t) \<longleftrightarrow> jd_failed_join (jt_data s) \<or> arr i \<noteq> Mod_Succeed"
    by (auto simp: jt_set_def failed_join_def)
  have own: "inside (jt_pc ?t j) = inside (jt_pc s j)" "jt_owner ?t = jt_owner s" for j
    using assms(3) by (simp_all add: jt_set_def)
  show ?thesis
    using assms(1) unfolding join_inv_def counted_same [of ?t s, OF dr] dr mk num flag own
    using assms(2,3) by (auto simp: jt_set_def)
qed

lemma join_inv_unlock:
  assumes "join_inv K active arr s" "i < K" "jt_pc s i = Jp_counted v"
  shows "join_inv K active arr (jt_set i (Jp_released v) s\<lparr>jt_owner := None\<rparr>)" (is "join_inv _ _ _ ?t")
proof -
  have dr: "drawn (jt_pc ?t j) = drawn (jt_pc s j)" for j using assms(3) by (simp add: jt_set_def)
  have mk: "marked (jt_pc ?t j) = marked (jt_pc s j)" for j using assms(3) by (simp add: jt_set_def marked_def)
  have "jt_owner s = Some i" using assms by (auto simp: join_inv_def)
  then show ?thesis
    using assms(1) unfolding join_inv_def counted_same [of ?t s, OF dr] dr mk
    using assms(2,3) by (auto simp: jt_set_def)
qed

lemma join_inv_pass:
  assumes "join_inv K active arr s" "i < K" "jt_pc s i = Jp_released v" "v \<noteq> active"
  shows "join_inv K active arr (jt_set i (Jp_passed v) s)" (is "join_inv _ _ _ ?t")
proof -
  have dr: "drawn (jt_pc ?t j) = drawn (jt_pc s j)" for j using assms(3) by (simp add: jt_set_def)
  have mk: "marked (jt_pc ?t j) = marked (jt_pc s j)" for j using assms(3) by (simp add: jt_set_def marked_def)
  have own: "inside (jt_pc ?t j) = inside (jt_pc s j)" for j using assms(3) by (simp add: jt_set_def)
  show ?thesis
    using assms(1) unfolding join_inv_def counted_same [of ?t s, OF dr] dr mk own
    using assms(2-4) by (auto simp: jt_set_def)
qed

lemma join_inv_load:
  assumes "join_inv K active arr s" "i < K" "jt_pc s i = Jp_marked"
  shows "join_inv K active arr (jt_set i (Jp_loaded (jd_module_joined_num (jt_data s))) s)" (is "join_inv _ _ _ ?t")
proof -
  have dr: "drawn (jt_pc ?t j) = drawn (jt_pc s j)" for j using assms(3) by (simp add: jt_set_def)
  have mk: "marked (jt_pc ?t j) = marked (jt_pc s j)" for j using assms(3) by (simp add: jt_set_def marked_def)
  have own: "inside (jt_pc ?t j) = inside (jt_pc s j)" for j using assms(3) by (simp add: jt_set_def)
  show ?thesis
    using assms(1) unfolding join_inv_def counted_same [of ?t s, OF dr] dr mk own
    using assms(2,3) by (auto simp: jt_set_def)
qed

text \<open>The thread that drew the last value knows that every thread has marked its arrival.\<close>

lemma join_flag_final:
  assumes inv: "join_inv K active arr s" and K: "unat active = K" and "i < K"
    and v: "drawn (jt_pc s i) = Some active"
  shows "counted K s = {..<K}" and "jd_failed_join (jt_data s) \<longleftrightarrow> (\<exists>i<K. arr i \<noteq> Mod_Succeed)"
proof -
  have "i \<in> counted K s" using assms by (simp add: counted_def)
  with inv v K have "K \<le> card (counted K s)" by (auto simp: join_inv_def)
  with counted_le [of K s] show all: "counted K s = {..<K}" by (intro counted_all) simp
  have "marked (jt_pc s j)" if "j < K" for j
  proof -
    from that all have "j \<in> counted K s" by simp
    then obtain u where "drawn (jt_pc s j) = Some u" by (auto simp: counted_def)
    then show ?thesis by (rule drawn_marked)
  qed
  with inv show "jd_failed_join (jt_data s) \<longleftrightarrow> (\<exists>i<K. arr i \<noteq> Mod_Succeed)"
    unfolding join_inv_def by blast
qed

lemma join_inv_fire:
  assumes inv: "join_inv K active arr s" and K: "unat active = K"
    and i: "i < K" "jt_pc s i = Jp_released active"
  shows "join_inv K active arr
    (jt_set i (Jp_fired active (if jd_failed_join (jt_data s) then Mod_Failed else Mod_Succeed)) s)"
proof -
  have out: "(if jd_failed_join (jt_data s) then Mod_Failed else Mod_Succeed) = outcome K arr"
    using join_flag_final(2) [OF inv K i(1)] i(2) by (simp add: outcome_def)
  let ?t = "jt_set i (Jp_fired active (outcome K arr)) s"
  have dr: "drawn (jt_pc ?t j) = drawn (jt_pc s j)" for j using i(2) by (simp add: jt_set_def)
  have mk: "marked (jt_pc ?t j) = marked (jt_pc s j)" for j using i(2) by (simp add: jt_set_def marked_def)
  have own: "inside (jt_pc ?t j) = inside (jt_pc s j)" for j using i(2) by (simp add: jt_set_def)
  show ?thesis
    using inv unfolding out join_inv_def counted_same [of ?t s, OF dr] dr mk own
    using i by (auto simp: jt_set_def)
qed

lemma join_inv_store:
  assumes inv: "join_inv K active arr s" and K: "unat active = K"
    and i: "i < K" "jt_pc s i = Jp_loaded r"
    and draw: "module_joined (jt_data s\<lparr>jd_module_joined_num := r\<rparr>) = (v, d)"
  shows "join_inv K active arr (jt_set i (Jp_counted v) s\<lparr>jt_data := d\<rparr>)"
proof -
  define t where "t = jt_set i (Jp_counted v) s\<lparr>jt_data := d\<rparr>"
  let ?n = "card (counted K s)"
  have "r = jd_module_joined_num (jt_data s)" using inv i by (simp add: join_inv_def)
  with draw have v: "v = jd_module_joined_num (jt_data s) + 1" and d: "d = jt_data s\<lparr>jd_module_joined_num := v\<rparr>"
    by (auto simp: module_joined_def Let_def)
  have alone: "jt_pc s j \<noteq> Jp_loaded u" if "j < K" "j \<noteq> i" for j u
  proof
    assume "jt_pc s j = Jp_loaded u"
    then have "inside (jt_pc s j)" "inside (jt_pc s i)" using i(2) by simp_all
    with inv that i(1) show False unfolding join_inv_def by (metis option.inject)
  qed
  have num: "unat (jd_module_joined_num (jt_data s)) = ?n" using inv by (simp add: join_inv_def)
  have new: "i \<notin> counted K s" using i(2) by (simp add: counted_def)
  have "insert i (counted K s) \<subseteq> {..<K}" using i(1) by (auto simp: counted_def)
  from card_mono [OF _ this] new have "?n < K" by simp
  moreover have "K < 65536" using unsigned_less [of active, where 'a = nat] K by simp
  ultimately have uv: "unat v = Suc ?n" unfolding v using num by (simp add: unat_word_ariths)
  have dr: "drawn (jt_pc t j) = (if j = i then Some v else drawn (jt_pc s j))" for j
    by (simp add: t_def jt_set_def)
  have cnt: "counted K t = insert i (counted K s)" using i(1) unfolding counted_def dr by auto
  have card: "card (counted K t) = Suc ?n" using new by (simp add: cnt)
  have less: "unat u \<le> ?n \<and> 1 \<le> unat u" if "j \<in> counted K s" "drawn (jt_pc s j) = Some u" for j u
    using inv that unfolding join_inv_def by blast
  have inj: "inj_on (\<lambda>j. drawn (jt_pc t j)) (counted K t)"
  proof -
    have "drawn (jt_pc s j) \<noteq> Some v" if "j \<in> counted K s" for j
      using less [OF that, of v] uv by auto
    moreover have "inj_on (\<lambda>j. drawn (jt_pc s j)) (counted K s)" using inv by (simp add: join_inv_def)
    ultimately show ?thesis
      unfolding cnt dr inj_on_def using new by (metis insert_iff)
  qed
  have rng: "\<forall>j\<in>counted K t. \<forall>u. drawn (jt_pc t j) = Some u \<longrightarrow> 1 \<le> unat u \<and> unat u \<le> card (counted K t)"
    unfolding card unfolding cnt dr using less uv new by (auto simp: le_SucI)
  have "marked (jt_pc t j) = marked (jt_pc s j)" "inside (jt_pc t j) = inside (jt_pc s j)"
    "jt_pc t j = Jp_fired u st \<longleftrightarrow> jt_pc s j = Jp_fired u st"
    "jt_pc t j = Jp_passed u \<longleftrightarrow> jt_pc s j = Jp_passed u"
    "unat (jd_module_joined_num (jt_data t)) = card (counted K t)"
    "jd_failed_join (jt_data t) = jd_failed_join (jt_data s)" "jt_owner t = jt_owner s" for j u st
    using i(2) uv by (simp_all add: card) (simp_all add: t_def jt_set_def marked_def d)
  moreover have "jt_pc t j \<noteq> Jp_loaded u" if "j < K" for j u
    using alone [OF that] by (simp add: t_def jt_set_def)
  ultimately show ?thesis using inv inj rng unfolding t_def [symmetric] join_inv_def by simp
qed

lemma join_step_inv:
  assumes "join_inv K active arr s" "unat active = K" "join_step K active arr s t"
  shows "join_inv K active arr t"
  using assms(3)
proof cases
  case (js_lock i)
  with join_inv_lock [OF assms(1)] show ?thesis by simp
next
  case (js_mark i)
  with join_inv_mark [OF assms(1), of i] show ?thesis by simp
next
  case (js_load i)
  with join_inv_load [OF assms(1)] show ?thesis by simp
next
  case (js_store i r v d)
  with join_inv_store [OF assms(1,2)] show ?thesis by simp
next
  case (js_unlock i v)
  with join_inv_unlock [OF assms(1)] show ?thesis by simp
next
  case (js_fire i v)
  with join_inv_fire [OF assms(1,2), of i] show ?thesis by simp
next
  case (js_pass i v)
  with join_inv_pass [OF assms(1)] show ?thesis by simp
qed

lemma join_start_inv: "join_start s \<Longrightarrow> join_inv K active arr s"
  by (auto simp: join_start_def join_inv_def counted_def marked_def)

text \<open>When all have finished, the values \<open>1\<close> to \<open>K\<close> are all drawn, so somebody drew \<open>active\<close>.\<close>

lemma all_finished_fires:
  assumes inv: "join_inv K active arr s" and K: "unat active = K"
    and fin: "\<forall>i<K. finished (jt_pc s i)" and "active \<noteq> 0"
  shows "\<exists>i<K. \<exists>v st. jt_pc s i = Jp_fired v st"
proof -
  have drawn: "\<exists>v. drawn (jt_pc s i) = Some v" if "i < K" for i
    using fin that by (cases "jt_pc s i") auto
  then have all: "counted K s = {..<K}" by (auto simp: counted_def)
  let ?f = "\<lambda>i. unat (the (drawn (jt_pc s i)))"
  have inj_d: "inj_on (\<lambda>i. drawn (jt_pc s i)) {..<K}" using inv all by (simp add: join_inv_def)
  have "inj_on ?f {..<K}"
  proof (rule inj_onI)
    fix i j assume i: "i \<in> {..<K}" and j: "j \<in> {..<K}" and eq: "?f i = ?f j"
    obtain v u where "drawn (jt_pc s i) = Some v" "drawn (jt_pc s j) = Some u"
      using drawn i j by fastforce
    with eq have "drawn (jt_pc s i) = drawn (jt_pc s j)" by (simp add: word_unat_eq_iff)
    with inj_d i j show "i = j" by (auto dest: inj_onD)
  qed
  moreover have "?f ` {..<K} \<subseteq> {1..K}"
    using inv drawn unfolding join_inv_def all by fastforce
  ultimately have "?f ` {..<K} = {1..K}"
    by (intro card_subset_eq) (simp_all add: card_image)
  moreover have "K \<in> {1..K}"
  proof -
    have "unat active \<noteq> 0" using assms(4) by (simp add: unat_eq_zero)
    then show ?thesis using K by simp
  qed
  ultimately have "K \<in> ?f ` {..<K}" by simp
  then obtain i where i: "i < K" "?f i = K" by auto
  obtain v where v: "drawn (jt_pc s i) = Some v" using drawn [OF i(1)] by blast
  with i(2) K have "v = active" by (simp add: word_unat_eq_iff)
  moreover have "finished (jt_pc s i)" using fin i(1) by blast
  moreover have "jt_pc s i \<noteq> Jp_passed active" using inv i(1) unfolding join_inv_def by blast
  ultimately show ?thesis
    using v i(1) by (cases "jt_pc s i") auto
qed

text \<open>A join whose active number is the number of arriving branches.\<close>

definition join_machine_inv :: "u16 \<Rightarrow> (nat \<Rightarrow> ModState) \<Rightarrow> join_threads \<Rightarrow> bool" where
  "join_machine_inv active arr s = join_inv (unat active) active arr s"

interpretation join_machine:
  invariant join_start "join_step (unat active) active arr" "join_machine_inv active arr" for active arr
  by unfold_locales (auto simp: join_machine_inv_def intro: join_start_inv join_step_inv)

section \<open>Properties\<close>

text \<open>
  C8: The join fires at most once, and with the right state, under every interleaving of the
  branches, where the load and the store of the counter's increment are separate actions, so that the
  mutex around them is what keeps arrivals from being lost. When as many branches arrive as the join expects (any number a \<open>uint16_t\<close> holds), at
  most one of the concurrent calls of \<open>run\<close> starts the continuation; it does so with
  \<open>Mod_Failed\<close> if any branch ended in another state than \<open>Mod_Succeed\<close>, else with
  \<open>Mod_Succeed\<close>, although it reads the failure flag after giving the mutex back; and by then
  every branch has counted. Once every call has finished and there was at least one, exactly one
  has fired.
\<close>

theorem join_fires_once:
  assumes "reach join_start (join_step (unat active) active arr) s"
  shows "(\<forall>i<unat active. \<forall>v st. jt_pc s i = Jp_fired v st \<longrightarrow>
            st = outcome (unat active) arr \<and> counted (unat active) s = {..<unat active} \<and>
            (\<forall>j<unat active. \<forall>v' st'. jt_pc s j = Jp_fired v' st' \<longrightarrow> j = i)) \<and>
         (active \<noteq> 0 \<and> (\<forall>i<unat active. finished (jt_pc s i)) \<longrightarrow>
            (\<exists>!i. i < unat active \<and> (\<exists>v st. jt_pc s i = Jp_fired v st)))"
proof -
  let ?K = "unat active"
  have inv: "join_inv ?K active arr s"
    using join_machine.inv_reach [OF assms] by (simp add: join_machine_inv_def)
  have once: "j = i" if "i < ?K" "j < ?K" "jt_pc s i = Jp_fired v st" "jt_pc s j = Jp_fired v' st'" for i j v v' st st'
  proof -
    have "v = active" "v' = active" using inv that by (auto simp: join_inv_def)
    with that have "i \<in> counted ?K s" "j \<in> counted ?K s" "drawn (jt_pc s i) = drawn (jt_pc s j)"
      by (auto simp: counted_def)
    with inv show ?thesis unfolding join_inv_def by (metis inj_onD)
  qed
  have "st = outcome ?K arr \<and> counted ?K s = {..<?K}" if "i < ?K" "jt_pc s i = Jp_fired v st" for i v st
  proof -
    have "v = active" "st = outcome ?K arr" using inv that by (auto simp: join_inv_def)
    then show ?thesis using join_flag_final(1) [OF inv refl that(1)] that(2) by simp
  qed
  moreover have "\<exists>i<?K. \<exists>v st. jt_pc s i = Jp_fired v st"
    if fin: "\<forall>i<?K. finished (jt_pc s i)" and "active \<noteq> 0"
    by (rule all_finished_fires [OF inv refl fin that(2)])
  ultimately show ?thesis using once by blast
qed

text \<open>The actions a thread has left, and those of all threads.\<close>

fun pc_left :: "join_pc \<Rightarrow> nat" where
  "pc_left Jp_start = 6"
| "pc_left Jp_locked = 5"
| "pc_left Jp_marked = 4"
| "pc_left (Jp_loaded r) = 3"
| "pc_left (Jp_counted v) = 2"
| "pc_left (Jp_released v) = 1"
| "pc_left _ = 0"

definition work_left :: "nat \<Rightarrow> join_threads \<Rightarrow> nat" where
  "work_left K s = (\<Sum>i<K. pc_left (jt_pc s i))"

lemma work_left_le: "work_left K s \<le> 6 * K"
proof -
  have "pc_left p \<le> 6" for p by (cases p) simp_all
  then have "work_left K s \<le> (\<Sum>i<K. 6)" unfolding work_left_def by (intro sum_mono) simp
  then show ?thesis by simp
qed

lemma work_left_set:
  assumes "i < K" "pc_left p < pc_left (jt_pc s i)" "jt_pc t = (jt_pc s)(i := p)"
  shows "work_left K t < work_left K s"
proof -
  have "work_left K t = pc_left p + (\<Sum>j\<in>{..<K} - {i}. pc_left (jt_pc s j))"
    unfolding work_left_def assms(3) using assms(1) by (subst sum.remove [of _ i]) auto
  moreover have "work_left K s = pc_left (jt_pc s i) + (\<Sum>j\<in>{..<K} - {i}. pc_left (jt_pc s j))"
    unfolding work_left_def using assms(1) by (subst sum.remove [of _ i]) auto
  ultimately show ?thesis using assms(2) by simp
qed

text \<open>
  C25: The join cannot hang. In every state the threads can reach, as long as one of them has not
  finished, some thread can act (the mutex is held only by a thread that can go on), and every
  action brings the threads closer to the end: no interleaving of \<open>K\<close> calls is longer than
  six actions per call.
\<close>

theorem join_terminates:
  assumes "reach join_start (join_step (unat active) active arr) s"
  shows "((\<exists>i<unat active. \<not> finished (jt_pc s i)) \<longrightarrow> (\<exists>t. join_step (unat active) active arr s t)) \<and>
    (\<forall>t. join_step (unat active) active arr s t \<longrightarrow> work_left (unat active) t < work_left (unat active) s) \<and>
    work_left (unat active) s \<le> 6 * unat active"
proof (intro conjI impI allI work_left_le)
  let ?K = "unat active"
  have inv: "join_inv ?K active arr s"
    using join_machine.inv_reach [OF assms] by (simp add: join_machine_inv_def)
  have in_steps: "\<exists>t. join_step ?K active arr s t" if "i < ?K" "inside (jt_pc s i)" for i
  proof (cases "jt_pc s i")
    case (Jp_loaded r)
    with that(1) js_store [OF that(1) Jp_loaded surjective_pairing] show ?thesis by blast
  qed (use that join_step.js_mark [of i ?K s] join_step.js_load [of i ?K s] join_step.js_unlock [of i ?K s] in auto)
  assume "\<exists>i<?K. \<not> finished (jt_pc s i)"
  then obtain i where i: "i < ?K" "\<not> finished (jt_pc s i)" by blast
  show "\<exists>t. join_step ?K active arr s t"
  proof (cases "jt_pc s i")
    case Jp_start
    show ?thesis
    proof (cases "jt_owner s")
      case None
      with i(1) Jp_start show ?thesis by (blast intro: js_lock)
    next
      case (Some j)
      with inv have "j < ?K" "inside (jt_pc s j)" by (auto simp: join_inv_def)
      then show ?thesis by (rule in_steps)
    qed
  next
    case (Jp_released v)
    with i(1) show ?thesis by (cases "v = active") (blast intro: js_fire js_pass)+
  qed (use i in_steps [OF i(1)] in auto)
next
  fix t assume "join_step (unat active) active arr s t"
  then show "work_left (unat active) t < work_left (unat active) s"
    by cases (auto intro!: work_left_set simp: jt_set_def)
qed

section \<open>Interleavings and sequences\<close>

text \<open>
  The calls of \<open>run\<close> one after the other, in a given order of the branches: the data they leave
  and the continuations they start.
\<close>

definition seq_arrival ::
  "u16 \<Rightarrow> (nat \<Rightarrow> ModState) \<Rightarrow> nat \<Rightarrow> join_data \<times> ModState list \<Rightarrow> join_data \<times> ModState list" where
  "seq_arrival active arr i st =
     (let (joined, d) = join_arrive (arr i) (fst st)
      in (d, if joined = active
             then snd st @ [if jd_failed_join d then Mod_Failed else Mod_Succeed] else snd st))"

definition seq_join :: "u16 \<Rightarrow> (nat \<Rightarrow> ModState) \<Rightarrow> nat list \<Rightarrow> join_data \<times> ModState list" where
  "seq_join active arr ks =
     fold (seq_arrival active arr) ks (\<lparr> jd_module_joined_num = 0, jd_failed_join = False \<rparr>, [])"

lemma seq_join_snoc: "seq_join active arr (ks @ [i]) = seq_arrival active arr i (seq_join active arr ks)"
  by (simp add: seq_join_def)

lemma seq_join_prefix:
  assumes "length ks < unat active"
  shows "seq_join active arr ks =
    (\<lparr> jd_module_joined_num = word_of_nat (length ks), jd_failed_join = (\<exists>i\<in>set ks. arr i \<noteq> Mod_Succeed) \<rparr>, [])"
  using assms
proof (induction ks rule: rev_induct)
  case (snoc i ks)
  have "(word_of_nat (length ks) :: u16) + 1 \<noteq> active"
  proof
    assume eq: "(word_of_nat (length ks) :: u16) + 1 = active"
    define k where "k = Suc (length ks)"
    have k: "k < unat active" "(word_of_nat k :: u16) = active"
      using eq snoc.prems by (simp_all add: k_def add.commute)
    have "unat (word_of_nat k :: u16) = k"
      using k(1) unsigned_less [of active, where 'a = nat] by (simp add: unsigned_of_nat take_bit_nat_eq_self)
    with k show False by simp
  qed
  with snoc show ?case
    by (auto simp: seq_join_snoc seq_arrival_def join_arrive_def module_joined_def failed_join_def Let_def add.commute)
qed (simp add: seq_join_def)

lemma seq_join_all:
  assumes "length ks = unat active" and "active \<noteq> 0"
  shows "seq_join active arr ks =
    (\<lparr> jd_module_joined_num = active, jd_failed_join = (\<exists>i\<in>set ks. arr i \<noteq> Mod_Succeed) \<rparr>,
     [if \<exists>i\<in>set ks. arr i \<noteq> Mod_Succeed then Mod_Failed else Mod_Succeed])"
proof -
  have "ks \<noteq> []" using assms by (auto simp: unat_eq_zero)
  then obtain ks' i where ks: "ks = ks' @ [i]" by (metis append_butlast_last_id)
  have "(word_of_nat (length ks') :: u16) + 1 = active"
  proof -
    have "(word_of_nat (unat active) :: u16) = active" by simp
    moreover have "unat active = Suc (length ks')" using assms(1) ks by simp
    ultimately show ?thesis by (simp add: add.commute)
  qed
  with seq_join_prefix [of ks' active arr] assms(1) ks show ?thesis
    by (auto simp: seq_join_snoc seq_arrival_def join_arrive_def module_joined_def failed_join_def Let_def)
qed

text \<open>
  C21: Concurrent arrivals at a join are as good as arrivals one after the other: when the calls of
  \<open>run\<close> have all finished, under any interleaving of their actions (the load and the store of the
  counter's increment are two), the module's data are those
  that the calls leave when they are made in sequence, in whatever order of the branches, and the
  same single continuation has been started.
\<close>

theorem join_equals_sequential:
  assumes "reach join_start (join_step (unat active) active arr) s"
    and "\<forall>i<unat active. finished (jt_pc s i)" and "active \<noteq> 0"
    and "distinct ks" and "set ks = {..<unat active}"
  shows "fst (seq_join active arr ks) = jt_data s \<and>
    (\<exists>st. snd (seq_join active arr ks) = [st] \<and>
      {st'. \<exists>i<unat active. \<exists>v. jt_pc s i = Jp_fired v st'} = {st})"
proof -
  let ?K = "unat active"
  have inv: "join_inv ?K active arr s"
    using join_machine.inv_reach [OF assms(1)] by (simp add: join_machine_inv_def)
  have len: "length ks = ?K" using distinct_card [OF assms(4)] assms(5) by simp
  have drawn: "drawn (jt_pc s i) \<noteq> None" if "i < ?K" for i
    using assms(2) that by (cases "jt_pc s i") auto
  then have all: "counted ?K s = {..<?K}" by (auto simp: counted_def)
  with inv have "unat (jd_module_joined_num (jt_data s)) = ?K" by (simp add: join_inv_def)
  then have num: "jd_module_joined_num (jt_data s) = active" by (simp add: word_unat_eq_iff)
  have "marked (jt_pc s i)" if "i < ?K" for i using drawn [OF that] drawn_marked by blast
  with inv have flag: "jd_failed_join (jt_data s) \<longleftrightarrow> (\<exists>i\<in>set ks. arr i \<noteq> Mod_Succeed)"
    using assms(5) unfolding join_inv_def by auto
  have data: "jt_data s = \<lparr> jd_module_joined_num = active, jd_failed_join = (\<exists>i\<in>set ks. arr i \<noteq> Mod_Succeed) \<rparr>"
    using num flag by (cases "jt_data s") simp
  have fired: "\<exists>i<?K. \<exists>v st. jt_pc s i = Jp_fired v st"
    by (rule all_finished_fires [OF inv refl assms(2,3)])
  have out: "st = outcome ?K arr" if "i < ?K" "jt_pc s i = Jp_fired v st" for i v st
    using inv that unfolding join_inv_def by blast
  have "outcome ?K arr = (if \<exists>i\<in>set ks. arr i \<noteq> Mod_Succeed then Mod_Failed else Mod_Succeed)"
    using assms(5) by (auto simp: outcome_def)
  with seq_join_all [OF len assms(3), of arr] have
    seq: "seq_join active arr ks = (jt_data s, [outcome ?K arr])" using data by simp
  have "{st'. \<exists>i<?K. \<exists>v. jt_pc s i = Jp_fired v st'} = {outcome ?K arr}"
    using fired out by blast
  with seq show ?thesis by simp
qed

end
