(* ===== verification/Sample_Machine.thy ===== *)
theory Sample_Machine
  imports Server_Behaviour Request_Progress Client_Ownership Join_Concurrency
begin

text \<open>
  A small server on the model's own definitions: a request module, a \<open>TcpModule\<close>, and a
  response module that is the end of the machine. It shows that the hypotheses of the
  server-wide theorems can be met, and the theorems are applied to it.
\<close>

section \<open>The machine\<close>

definition req_hooks :: "nat request_hooks" where
  "req_hooks = \<lparr> rq_get_version_len = (\<lambda>d. 1), rq_get_head_len = (\<lambda>d. 4), rq_get_body_len = (\<lambda>d. 8),
     rq_get_read_version_time_out_ms = get_read_version_time_out_ms,
     rq_get_read_head_and_body_time_out_ms = get_read_head_and_body_time_out_ms,
     rq_on_read_version_failed = id, rq_on_read_head_failed = id, rq_on_read_body_failed = id,
     rq_on_read_version_time_out = id, rq_on_read_head_and_body_time_out = id,
     rq_on_read_version_impl = (\<lambda>b n d. (True, d)), rq_on_read_head_impl = (\<lambda>b n d. (True, d)),
     rq_on_read_body_impl = (\<lambda>b n d. (True, length b)), rq_get_succeed_state = (\<lambda>d. Mod_Succeed) \<rparr>"

definition resp_hooks :: "nat response_hooks" where
  "resp_hooks = \<lparr> rs_get_resp = (\<lambda>d. (Some [], d)), rs_on_write_resp_failed = id,
     rs_on_write_resp_time_out = id, rs_on_write_resp_succeed = id,
     rs_get_write_resp_time_out_ms = get_write_resp_time_out_ms \<rparr>"

definition back_hooks :: "nat tcp_hooks" where
  "back_hooks = \<lparr> tm_get_connect_time_out_ms = get_connect_time_out_ms, tm_get_time_out_ms = get_time_out_ms,
     tm_get_resp_head_len = 256, tm_on_send_req_failed = id, tm_on_read_head_failed = id,
     tm_on_read_body_failed = id, tm_on_connect_failed = (\<lambda>ip port. id),
     tm_on_read_head_impl = (\<lambda>b n d. (True, d)), tm_on_read_body_impl = (\<lambda>b n d. (True, d)),
     tm_on_handle_time_out_impl = id, tm_get_client_type_id = (\<lambda>d. 3),
     tm_get_server_ip_port = (\<lambda>d. (Some (''10.0.0.1'', 80), d)), tm_get_request = (\<lambda>d. ([], d)),
     tm_get_resp_body_len = (\<lambda>d. 16) \<rparr>"

definition req_mod :: "nat module" where
  "req_mod = \<lparr> md_addr = 0, md_name = ''req'', md_class = RequestModule req_hooks \<rparr>"

definition back_mod :: "nat module" where
  "back_mod = \<lparr> md_addr = 1, md_name = ''back'', md_class = TcpModule 0 back_hooks \<rparr>"

definition resp_mod :: "nat module" where
  "resp_mod = \<lparr> md_addr = 2, md_name = ''resp'', md_class = ResponseModule resp_hooks \<rparr>"

definition sample_fsm :: "nat fsm" where
  "sample_fsm =
     set_end_module resp_mod (set_start_module req_mod
       (link_module req_mod resp_mod Mod_else
         (link_module back_mod resp_mod Mod_else
           (link_module req_mod back_mod Mod_Succeed
             (add_module resp_mod (add_module back_mod (add_module req_mod fsm_empty)))))))"

definition sample_rank :: "string \<Rightarrow> nat" where
  "sample_rank n = (if n = ''req'' then 2 else if n = ''back'' then 1 else 0)"

definition sample_world :: "nat world" where
  "sample_world = start_accept
     \<lparr> w_fsm = sample_fsm, w_fsm_data_factory = Some 0, w_fsm_data_reset = (\<lambda>d. 0),
       w_contexts = Map.empty, w_next_ctx = 0, w_next_conn = 0, w_pools = (\<lambda>p. pool_new 20 1000),
       w_clients = (\<lambda>i. tcp_client_new quiet_env 0), w_next_client = 0, w_pending = [], w_cancelled = [],
       w_garbage = (\<lambda>c n. (Socket_Event_Opened, 7, True)), w_rand = (\<lambda>k. 42), w_rand_pos = 0 \<rparr>"

text \<open>
  Playing a script: each entry completes the pending operation at a position, with an error code
  and the bytes that were read.
\<close>

fun play :: "(nat \<times> error_code \<times> bytes) list \<Rightarrow> nat world \<Rightarrow> nat world res" where
  "play [] w = Inr w"
| "play ((i, ec, buf) # script) w =
     (if i < length (w_pending w) then rbind (complete quiet_env 6 i ec buf w) (play script)
      else Inl Out_of_bounds)"

text \<open>A connection is accepted, a request is read, and the back-end connects.\<close>

definition exchange :: "(nat \<times> error_code \<times> bytes) list" where
  "exchange = [(0, no_error, []), (1, no_error, []), (3, no_error, []), (3, no_error, [1, 2]), (4, no_error, [])]"

section \<open>It is well formed\<close>

lemmas sample_mods = req_mod_def back_mod_def resp_mod_def

lemma sample_find:
  "sm_find (fsm_mod_map sample_fsm) n =
     (if n = ''req'' then Some (Some req_mod) else if n = ''back'' then Some (Some back_mod)
      else if n = ''resp'' then Some (Some resp_mod) else None)"
  by (simp add: sample_fsm_def add_module_map sm.find_ins fsm_empty_def sm_find_empty sample_mods)

lemma sample_links:
  "link_of sample_fsm n s = Some t \<Longrightarrow>
     (n = ''req'' \<and> t \<in> {''back'', ''resp''}) \<or> (n = ''back'' \<and> t = ''resp'')"
  by (auto simp: sample_fsm_def link_module_link_of sample_mods split: if_splits)

lemma sample_registered: "registered sample_fsm md \<longleftrightarrow> md \<in> {req_mod, back_mod, resp_mod}"
  by (auto simp: registered_def sample_find sample_mods split: if_splits)

lemma sample_registry: "registry_ok (fsm_mod_map sample_fsm)"
proof -
  have "registry_ok (fsm_mod_map (fsm_empty :: nat fsm))"
    by (simp add: fsm_empty_def registry_ok_def sm_empty_def sm_wf_def)
  then show ?thesis by (simp add: sample_fsm_def add_module_registry)
qed

lemma sample_wf: "fsm_wf sample_rank sample_fsm"
proof -
  have "links_ok sample_rank sample_fsm"
    unfolding links_ok_def using sample_links by (force simp: sample_find sample_rank_def)
  moreover have "start_ok sample_fsm"
    unfolding start_ok_def by (intro exI [of _ req_mod] exI [of _ req_hooks])
      (simp add: sample_registered, simp add: sample_fsm_def set_start_module_def set_end_module_def sample_mods)
  moreover have "forks_ok sample_fsm"
    by (auto simp: forks_ok_def sample_registered sample_mods)
  moreover have "fsm_end_mod sample_fsm \<noteq> None" by (simp add: sample_fsm_def set_end_module_def)
  ultimately show ?thesis by (simp add: fsm_wf_def sample_registry)
qed

lemma sample_stack: "stack_ok sample_rank 6 sample_fsm"
  by (auto simp: stack_ok_def sample_registered sample_rank_def sample_mods)

lemma sample_start: "server_start sample_rank 6 sample_world"
  using sample_wf sample_stack
  by (simp add: server_start_def sample_world_def start_accept_def Let_def start_op_def pool_inv_new pool_clients_new)

section \<open>The theorems on the sample server\<close>

lemma sample_fields [simp]:
  "w_fsm sample_world = sample_fsm" "w_fsm_data_factory sample_world = Some 0"
  "w_contexts sample_world = Map.empty" "w_next_ctx sample_world = 0"
  "w_pools sample_world p = pool_new 20 1000"
  "w_pending sample_world = [Async_accept 0 (On_accepted 0)]"
  by (simp_all add: sample_world_def start_accept_def Let_def start_op_def)

lemma sample_reach: "reach (server_start sample_rank 6) (loop_step any_env 6) sample_world"
  by (rule reach_init) (rule sample_start)

theorem context_starts_fresh_witness:
  "\<exists>w2 w3 cx. context_init 0 (snd (context_new 5 sample_world)) = Inr w2 \<and> context_reset 0 w2 = Inr w3 \<and>
     w_contexts w3 0 = Some cx \<and> cx_conn cx = 5 \<and>
     sm_find (cx_module_data_map cx) ''back'' =
       Some (Some (Tcp_data \<lparr> td_client = None, td_socket_event = Socket_Event_None, td_locked = False \<rparr>))"
proof -
  have new: "context_new 5 sample_world = (0, snd (context_new 5 sample_world))"
    by (simp add: context_new_def Let_def)
  from context_starts_fresh [OF _ _ new] obtain w2 w3 cx where
    *: "context_init 0 (snd (context_new 5 sample_world)) = Inr w2" "context_reset 0 w2 = Inr w3"
      "w_contexts w3 = (w_contexts sample_world)(0 \<mapsto> cx)" "begins 5 sample_world cx"
    using sample_registry by auto
  from *(4) have "cx_conn cx = 5" "sm_find (cx_module_data_map cx) ''back'' = map_option Some (fresh_data back_mod)"
    by (simp_all add: begins_def sample_find)
  with * show ?thesis by (auto simp: fresh_data_def back_mod_def)
qed

theorem next_module_as_built_witness:
  "fsm_used [(req_mod, Mod_Timeout), (resp_mod, Mod_start)]
     (fsm_built [Add_module req_mod, Link_module req_mod resp_mod Mod_else, Add_module resp_mod]) =
   fsm_built [Add_module req_mod, Link_module req_mod resp_mod Mod_else, Add_module resp_mod]"
  using next_module_as_built [THEN conjunct2, of "[Add_module req_mod, Link_module req_mod resp_mod Mod_else, Add_module resp_mod]"]
  by (simp add: sample_mods)

definition ghost_mod :: "nat module" where
  "ghost_mod = \<lparr> md_addr = 9, md_name = ''ghost'', md_class = ResponseModule resp_hooks \<rparr>"

definition ghost_world :: "nat world" where
  "ghost_world = sample_world\<lparr>w_fsm := link_module resp_mod ghost_mod Mod_else sample_fsm\<rparr>"

theorem unregistered_target_breaks_init_witness:
  "\<exists>w'. next_module resp_mod Mod_Succeed ghost_world = (None, w') \<and>
     context_init 0 (snd (context_new 5 w')) = Inl Null_deref"
proof -
  have none: "link_of sample_fsm ''resp'' s = None" for s
    using sample_links [of "''resp''" s] by (cases "link_of sample_fsm ''resp'' s") auto
  have r: "route (w_fsm ghost_world) (md_name resp_mod) Mod_Succeed = Some ''ghost''"
    by (simp add: route_def ghost_world_def link_module_link_of none resp_mod_def ghost_mod_def)
  have t: "sm_find (fsm_mod_map (w_fsm ghost_world)) ''ghost'' = None"
    by (simp add: ghost_world_def sample_find)
  obtain p w' where nx: "next_module resp_mod Mod_Succeed ghost_world = (p, w')" by fastforce
  then have "w_next_ctx w' = 0"
    by (auto simp: next_module_def ghost_world_def split: prod.splits)
  then have new: "context_new 5 w' = (0, snd (context_new 5 w'))" by (simp add: context_new_def Let_def)
  from unregistered_target_breaks_init [OF r t nx new] nx show ?thesis by (simp add: ghost_world_def)
qed

lemma play_reaches:
  assumes "play script w = Inr w'" and "reach start (loop_step E 6) w" and "E quiet_env"
  shows "reach start (loop_step E 6) w'"
  using assms(1,2)
proof (induction script arbitrary: w)
  case (Cons a script)
  obtain i ec buf where a: "a = (i, ec, buf)" using prod_cases3 by blast
  with Cons.prems(1) obtain w1 where
    w1: "i < length (w_pending w)" "complete quiet_env 6 i ec buf w = Inr w1" "play script w1 = Inr w'"
    by (cases "complete quiet_env 6 i ec buf w") (auto split: if_splits)
  have "loop_step E 6 w w1" 
    using step_complete [of i w E quiet_env 6 ec buf w1] w1 assms(3) by simp
  with Cons.IH [OF w1(3)] Cons.prems(2) show ?case by (blast intro: reach_step)
qed simp

lemmas play_reach = play_reaches [where E = any_env, OF _ _ TrueI]

text \<open>The state after the exchange has begun, evaluated: the back-end module holds client 0.\<close>

lemma exchange_state:
  "\<exists>w. play exchange sample_world = Inr w \<and> length (w_pending w) = 6 \<and>
     mdata w 0 ''back'' = Some (Some (Tcp_data \<lparr> td_client = Some 0,
       td_socket_event = Socket_Event_Opened, td_locked = False \<rparr>))"
proof -
  have "case play exchange sample_world of Inl e \<Rightarrow> False | Inr w \<Rightarrow> length (w_pending w) = 6 \<and>
     mdata w 0 ''back'' = Some (Some (Tcp_data \<lparr> td_client = Some 0,
       td_socket_event = Socket_Event_Opened, td_locked = False \<rparr>))"
    by code_simp
  then show ?thesis by (cases "play exchange sample_world") auto
qed

theorem server_does_not_crash_witness:
  "\<exists>w w'. play exchange sample_world = Inr w \<and> complete quiet_env 6 5 (other_error 104) [] w = Inr w'"
proof -
  obtain w where w: "play exchange sample_world = Inr w" "length (w_pending w) = 6"
      "mdata w 0 ''back'' = Some (Some (Tcp_data \<lparr> td_client = Some 0,
         td_socket_event = Socket_Event_Opened, td_locked = False \<rparr>))"
    using exchange_state by blast
  have "case play exchange sample_world of Inl e \<Rightarrow> False
     | Inr w \<Rightarrow> (case op_handler (w_pending w ! 5) of On_write_req m c r \<Rightarrow> md_name m = ''back'' \<and> c = 0
               | _ \<Rightarrow> False)"
    by code_simp
  then obtain m r where "op_handler (w_pending w ! 5) = On_write_req m 0 r" "md_name m = ''back''"
    using w(1) by (cases "op_handler (w_pending w ! 5)") auto
  then have kept: "\<not> orphans (op_handler (w_pending w ! 5)) w" using w(3) by (auto simp: orphaned_def)
  from server_does_not_crash [OF play_reach [OF w(1) sample_reach], of 5 quiet_env "other_error 104" "[]"] w(1,2) kept
  show ?thesis by auto
qed

theorem split_server_never_crashes_witness:
  "\<exists>w w'. play exchange sample_world = Inr w \<and> complete quiet_env 6 5 (other_error 104) [] w = Inr w' \<and>
     exch_open (exch_at w 0 ''back'')"
proof -
  obtain w where w: "play exchange sample_world = Inr w" "length (w_pending w) = 6"
    using exchange_state by blast
  have "case play exchange sample_world of Inl e \<Rightarrow> False
     | Inr w \<Rightarrow> exchange_of (op_handler (w_pending w ! 5)) = Some (0, ''back'')"
    by code_simp
  then have open_op: "exchange_of (op_handler (w_pending w ! 5)) = Some (0, ''back'')" using w(1) by simp
  have "split_start sample_rank 6 sample_world"
    using sample_start by (auto simp: split_start_def forks_split_def sample_registered sample_mods)
  note reached = play_reach [OF w(1) reach_init [of "split_start sample_rank 6", OF this]]
  from split_server_never_crashes [OF reached, of 5 quiet_env "other_error 104" "[]"] w open_op
  show ?thesis by auto
qed

theorem sweep_does_not_crash_witness:
  "\<exists>w'. sweep_pool quiet_env [] 0 sample_world = Inr w'"
  by (rule sweep_does_not_crash [OF sample_reach])
    (simp add: iterates_def pool_new_def pool_call_later_def)

theorem quiescent_server_state_witness:
  "\<exists>w d. play exchange sample_world = Inr w \<and> mdata w 0 ''back'' = Some (Some (Tcp_data d)) \<and>
     td_client d = Some 0 \<and> \<not> td_locked d"
proof -
  obtain w where w: "play exchange sample_world = Inr w"
      "mdata w 0 ''back'' = Some (Some (Tcp_data \<lparr> td_client = Some 0,
         td_socket_event = Socket_Event_Opened, td_locked = False \<rparr>))"
    using exchange_state by blast
  note unlocked = quiescent_server_state [OF play_reach [OF w(1) sample_reach], THEN conjunct1, rule_format, OF w(2)]
  show ?thesis
    by (intro exI conjI, rule w(1), rule w(2)) (simp, rule unlocked)
qed



theorem clients_never_shared_witness:
  "\<exists>w. play exchange sample_world = Inr w \<and> holds w 0 ''back'' 0 \<and> 0 \<notin> pool_clients (w_pools w 0)"
proof -
  obtain w where w: "play exchange sample_world = Inr w"
      "mdata w 0 ''back'' = Some (Some (Tcp_data \<lparr> td_client = Some 0,
         td_socket_event = Socket_Event_Opened, td_locked = False \<rparr>))"
    using exchange_state by blast
  then have held: "holds w 0 ''back'' 0" by (simp add: holds_def)
  have "reach no_clients (loop_step any_env 6) sample_world"
    by (rule reach_init) (simp add: no_clients_def pool_inv_new pool_clients_new)
  from clients_never_shared [OF play_reach [OF w(1) this], THEN conjunct2, THEN conjunct1, rule_format, OF held]
  have "0 \<notin> pool_clients (w_pools w 0)" .
  with w(1) held show ?thesis by (intro exI [of _ w] conjI)
qed

theorem end_request_keeps_alive_witness:
  "\<exists>w w'. play exchange sample_world = Inr w \<and> end_request (module_run quiet_env) 6 0 w = Inr w' \<and>
     w_contexts w' 1 \<noteq> None \<and> length (w_pending w') = length (w_pending w) + 2"
proof -
  obtain w where w: "play exchange sample_world = Inr w" using exchange_state by blast
  have "case play exchange sample_world of Inl e \<Rightarrow> False
     | Inr w \<Rightarrow> w_next_ctx w = 1 \<and> (case w_contexts w 0 of None \<Rightarrow> False | Some cx \<Rightarrow> \<not> cx_exit cx)"
    by code_simp
  then obtain cx where cx: "w_next_ctx w = 1" "w_contexts w 0 = Some cx" "\<not> cx_exit cx"
    using w by (cases "w_contexts w 0") auto
  from end_request_keeps_alive [OF play_reach [OF w sample_reach] cx(2), of quiet_env] cx w show ?thesis
    by (fastforce simp: first_ops_def)
qed

theorem time_outs_only_cancel_witness:
  "\<exists>w w'. play exchange sample_world = Inr w \<and> complete quiet_env 6 4 no_error [] w = Inr w' \<and>
     steady (remove_op 4 w) w' \<and> w_cancelled w' = [Client_socket 0]"
proof -
  obtain w where w: "play exchange sample_world = Inr w" "length (w_pending w) = 6"
    using exchange_state by blast
  have "case play exchange sample_world of Inl e \<Rightarrow> False | Inr w \<Rightarrow> is_time_out (op_handler (w_pending w ! 4)) \<and>
      w_cancelled w = [] \<and> map_option (fst o snd) (time_out_of (op_handler (w_pending w ! 4)) w) = Some [Client_socket 0]"
    by code_simp
  then have t: "is_time_out (op_handler (w_pending w ! 4))" "w_cancelled w = []"
    "map_option (fst o snd) (time_out_of (op_handler (w_pending w ! 4)) w) = Some [Client_socket 0]"
    using w(1) by simp_all
  have "w_cancelled (remove_op 4 w) = []" using t(2) by (simp add: remove_op_def)
  with time_outs_only_cancel [OF play_reach [OF w(1) sample_reach] _ t(1), of quiet_env no_error "[]"] w t(3)
  show ?thesis by (auto simp: told_def)
qed

text \<open>A run that accepts connections for ever: the last pending operation is always an accept.\<close>

definition accepting :: "nat world \<Rightarrow> bool" where
  "accepting w \<longleftrightarrow> reach (server_start sample_rank 6) (loop_step any_env 6) w \<and> w_pending w \<noteq> [] \<and>
     (\<exists>conn. op_handler (last (w_pending w)) = On_accepted conn)"

lemma accepting_step:
  assumes "accepting w"
  shows "\<exists>w'. accepting w' \<and> turn any_env 6 (Some (length (w_pending w) - 1)) w w'"
proof -
  let ?i = "length (w_pending w) - 1"
  from assms obtain conn where w: "reach (server_start sample_rank 6) (loop_step any_env 6) w"
    "w_pending w \<noteq> []" "op_handler (last (w_pending w)) = On_accepted conn"
    by (auto simp: accepting_def)
  then have i: "?i < length (w_pending w)" "op_handler (w_pending w ! ?i) = On_accepted conn"
    by (simp_all add: last_conv_nth)
  have inv: "winv sample_rank {} w" "stack_ok sample_rank 6 (w_fsm w)"
    using server_machine.inv_reach [OF w(1)] by (simp_all add: server_inv_def)
  from complete_cases [OF inv i(1), of quiet_env no_error "[]"] i(2) obtain w' where
    w': "complete quiet_env 6 ?i no_error [] w = Inr w'" by (auto dest: returnsD)
  have t: "turn any_env 6 (Some ?i) w w'" using i(1) w' by (auto simp: turn_def)
  have "\<exists>w''. w' = start_accept w''" using w' i(2) by (auto simp: complete_def on_accepted_def split: prod.splits)
  then have "accepting w'"
    using reach_step [OF w(1) turn_step [OF t]] by (auto simp: accepting_def start_accept_def Let_def)
  with t show ?thesis by blast
qed

theorem requests_worked_off_witness:
  "\<exists>run act. run 0 = sample_world \<and> (\<forall>k. turn any_env 6 (act k) (run k) (run (Suc k))) \<and>
     finite {k. serves (act k) 0 (run k)}"
proof -
  have "accepting sample_world" using sample_reach by (simp add: accepting_def)
  then obtain run where run: "run 0 = sample_world" "\<And>k. accepting (run k) \<and>
      turn any_env 6 (Some (length (w_pending (run k)) - 1)) (run k) (run (Suc k))"
    using dependent_nat_choice [of "\<lambda>k w. accepting w \<and> (k = 0 \<longrightarrow> w = sample_world)"
        "\<lambda>k w w'. turn any_env 6 (Some (length (w_pending w) - 1)) w w'"] accepting_step by auto
  let ?act = "\<lambda>k. Some (length (w_pending (run k)) - 1)"
  have "reach (server_start sample_rank 6) (loop_step any_env 6) (run 0)" using run(1) sample_reach by simp
  from requests_worked_off [of sample_rank 6 run ?act 0, OF this] run
  have "finite {k. serves (?act k) 0 (run k)}" by simp
  with run show ?thesis by (intro exI [of _ run] exI [of _ ?act]) simp
qed

theorem destroy_deletes_once_witness:
  "case fsm_destroy (fold add_module [req_mod, back_mod, resp_mod\<lparr>md_name := ''req''\<rparr>] fsm_empty) of
     (f, freed) \<Rightarrow> fsm_mod_map f = sm_empty \<and> distinct freed \<and> 2 \<notin> set freed"
proof -
  let ?mds = "[req_mod, back_mod, resp_mod\<lparr>md_name := ''req''\<rparr>]"
  have "case fsm_destroy (fold add_module ?mds fsm_empty) of (f, freed) \<Rightarrow>
     fsm_mod_map f = sm_empty \<and> distinct freed \<and>
     set freed = md_addr ` {md. map_of (map (\<lambda>md. (md_name md, md)) ?mds) (md_name md) = Some md}"
    by (rule destroy_deletes_once) (auto simp: sample_mods)
  then show ?thesis by (auto simp: sample_mods split: if_splits prod.splits)
qed

section \<open>Fork and join\<close>

definition fork_mod :: "nat module" where
  "fork_mod = \<lparr> md_addr = 3, md_name = ''fork'', md_class = ForkModule 8 (\<lambda>d. 2) \<rparr>"

definition join_mod :: "nat module" where
  "join_mod = \<lparr> md_addr = 4, md_name = ''join'', md_class = JoinModule 8 (\<lambda>d. 2) \<rparr>"

definition fj_context :: "nat fsm_context" where
  "fj_context = \<lparr> cx_exit = False, cx_conn = 0, cx_data = Some 0,
     cx_module_data_map = [(''fork'', Some (Fork_data 8)),
       (''join'', Some (Join_data \<lparr> jd_module_joined_num = 1, jd_failed_join = True \<rparr>))], cx_uuid = 1 \<rparr>"

definition fj_world :: "nat world" where
  "fj_world = put_ctx 0 fj_context sample_world"

lemma fj_data:
  "w_contexts fj_world 0 = Some fj_context" "cx_data fj_context = Some 0"
  "mdata fj_world 0 (md_name fork_mod) = Some (Some (Fork_data 8))"
  "mdata fj_world 0 (md_name join_mod) =
     Some (Some (Join_data \<lparr> jd_module_joined_num = 1, jd_failed_join = True \<rparr>))"
  by (simp_all add: fj_world_def fj_context_def mdata_def fork_mod_def join_mod_def)

theorem fork_run_spec_witness:
  "\<exists>w'. fork_run fork_mod (\<lambda>d. 2) 0 Mod_Succeed fj_world = Inr (Mod_async, w') \<and>
     w_pending w' = w_pending fj_world @ [fork_op fork_mod 0 0, fork_op fork_mod 0 1]"
  using fork_run_spec [OF fj_data(1-3), of "\<lambda>d. 2" Mod_Succeed]
  by (simp add: upt_rec)

theorem join_run_spec_witness:
  "\<exists>w'. join_run join_mod (\<lambda>d. 2) 0 Mod_Succeed fj_world = Inr (Mod_async, w') \<and>
     w_pending w' = w_pending fj_world @
       [Async_wait (Module_timer 0 ''join'' 0) 0 (On_joined join_mod 0 Mod_Failed)]"
  using join_run_spec [OF fj_data(1,2,4), of "\<lambda>d. 2" Mod_Succeed]
  by (auto simp: Let_def join_mod_def)

text \<open>One branch that arrives with \<open>Mod_Failed\<close>.\<close>

definition lone_start :: join_threads where
  "lone_start = \<lparr> jt_data = \<lparr> jd_module_joined_num = 0, jd_failed_join = False \<rparr>, jt_owner = None,
     jt_pc = (\<lambda>_. Jp_start) \<rparr>"

lemma lone_reach:
  "reach join_start (join_step (unat (1 :: u16)) 1 (\<lambda>_. Mod_Failed))
     \<lparr> jt_data = \<lparr> jd_module_joined_num = 1, jd_failed_join = True \<rparr>, jt_owner = None,
       jt_pc = (\<lambda>_. Jp_start)(0 := Jp_fired 1 Mod_Failed) \<rparr>"
proof -
  let ?st = "\<lambda>n b ow p. \<lparr> jt_data = \<lparr> jd_module_joined_num = n, jd_failed_join = b \<rparr>, jt_owner = ow,
     jt_pc = (\<lambda>_. Jp_start)(0 := p) \<rparr>"
  let ?step = "join_step (unat (1 :: u16)) 1 (\<lambda>_. Mod_Failed)"
  have 0: "reach join_start ?step (?st 0 False None Jp_start)"
    by (rule reach_init) (simp add: join_start_def)
  have "?step (?st 0 False None Jp_start) (?st 0 False (Some 0) Jp_locked)"
    using js_lock [of 0 "unat (1 :: u16)" "?st 0 False None Jp_start" 1 "\<lambda>_. Mod_Failed"] by (simp add: jt_set_def)
  note 1 = reach_step [OF 0 this]
  have "?step (?st 0 False (Some 0) Jp_locked) (?st 0 True (Some 0) Jp_marked)"
    using js_mark [of 0 "unat (1 :: u16)" "?st 0 False (Some 0) Jp_locked" 1 "\<lambda>_. Mod_Failed"]
    by (simp add: jt_set_def failed_join_def)
  note 2 = reach_step [OF 1 this]
  have "?step (?st 0 True (Some 0) Jp_marked) (?st 0 True (Some 0) (Jp_loaded 0))"
    using js_load [of 0 "unat (1 :: u16)" "?st 0 True (Some 0) Jp_marked" 1 "\<lambda>_. Mod_Failed"]
    by (simp add: jt_set_def)
  note 2 = reach_step [OF 2 this]
  have "?step (?st 0 True (Some 0) (Jp_loaded 0)) (?st 1 True (Some 0) (Jp_counted 1))"
    using js_store [of 0 "unat (1 :: u16)" "?st 0 True (Some 0) (Jp_loaded 0)" 0 1
        "\<lparr> jd_module_joined_num = 1, jd_failed_join = True \<rparr>" 1 "\<lambda>_. Mod_Failed"]
    by (simp add: jt_set_def module_joined_def)
  note 3 = reach_step [OF 2 this]
  have "?step (?st 1 True (Some 0) (Jp_counted 1)) (?st 1 True None (Jp_released 1))"
    using js_unlock [of 0 "unat (1 :: u16)" "?st 1 True (Some 0) (Jp_counted 1)" 1 1 "\<lambda>_. Mod_Failed"]
    by (simp add: jt_set_def)
  note 4 = reach_step [OF 3 this]
  have "?step (?st 1 True None (Jp_released 1)) (?st 1 True None (Jp_fired 1 Mod_Failed))"
    using js_fire [of 0 "unat (1 :: u16)" "?st 1 True None (Jp_released 1)" 1 1 "\<lambda>_. Mod_Failed"]
    by (simp add: jt_set_def)
  from reach_step [OF 4 this] show ?thesis by simp
qed

theorem join_fires_once_witness: "outcome (unat (1 :: u16)) (\<lambda>_. Mod_Failed) = Mod_Failed"
  using join_fires_once [OF lone_reach] by simp

theorem join_equals_sequential_witness:
  "fst (seq_join 1 (\<lambda>_. Mod_Failed) [0]) = \<lparr> jd_module_joined_num = 1, jd_failed_join = True \<rparr> \<and>
   snd (seq_join 1 (\<lambda>_. Mod_Failed) [0]) = [Mod_Failed]"
  using join_equals_sequential [OF lone_reach, of "[0]"] by (auto simp: lessThan_Suc)

theorem join_terminates_witness: "\<exists>t. join_step (unat (1 :: u16)) 1 (\<lambda>_. Mod_Failed) lone_start t"
proof -
  have "reach join_start (join_step (unat (1 :: u16)) 1 (\<lambda>_. Mod_Failed)) lone_start"
    by (rule reach_init) (simp add: lone_start_def join_start_def)
  from join_terminates [OF this] show ?thesis by (auto simp: lone_start_def)
qed

end
