(* ===== verification/Token_Net.thy ===== *)
theory Token_Net
  imports Run_Contract "HOL-Library.Multiset"
begin

text \<open>
  What the framework promises about control, without any of its mechanics: a request is a set
  of marks that move through the machine. A mark is a module that is at work or one that has
  ended in a state; a fork turns one mark into several, a join holds marks back until the last
  one is in, and a mark at the end module ends the request. The step relation \<open>net_step\<close> says
  which moves there are. A machine is balanced when weights can be given to its modules that
  every move conserves; then no request is ever lost or doubled.
\<close>

section \<open>Numbers of branches\<close>

text \<open>
  How many branches the forks open and the joins wait for is the application's choice, made from
  the data of the request: the numbers that data announce.
\<close>

definition nums_of :: "'d fsm \<Rightarrow> 'd \<Rightarrow> string \<Rightarrow> nat" where
  "nums_of f d n =
     (case module_of f n of
        None \<Rightarrow> 0
      | Some md \<Rightarrow>
          (case md_class md of
             ForkModule k g \<Rightarrow> unat (g d)
           | JoinModule k g \<Rightarrow> unat (g d)
           | _ \<Rightarrow> 0))"

lemma module_of_registered:
  assumes "registry_ok (fsm_mod_map f)" and "module_of f n = Some md"
  shows "registered f md" "md_name md = n"
proof -
  from assms(2) have find: "sm_find (fsm_mod_map f) n = Some (Some md)"
    by (auto simp: module_of_def bind_eq_Some_conv)
  then have "sm_find (fsm_mod_map f) n \<noteq> None" by simp
  from registered_entry [OF assms(1) this] obtain md' where
    "sm_find (fsm_mod_map f) n = Some (Some md')" "registered f md'" "md_name md' = n" .
  with find show "registered f md" "md_name md = n" by simp_all
qed

lemma nums_of_registered:
  assumes "registered f md" and "md_class md = ForkModule k g \<or> md_class md = JoinModule k g"
  shows "nums_of f d (md_name md) = unat (g d)"
  using assms by (auto simp: nums_of_def module_of_def registered_def)

lemma nums_of_bound: "nums_of f d n < 2 ^ 16"
proof -
  have "unat (x :: u16) < 2 ^ 16" for x using unsigned_less [of x, where 'a = nat] by simp
  then show ?thesis by (auto simp: nums_of_def split: option.split module_class.split)
qed

text \<open>
  The methods of the application that a module calls while it is at work, and those its timers
  call at any time: whether they leave the numbers alone.
\<close>

definition keeps_nums :: "'d fsm \<Rightarrow> ('d \<Rightarrow> 'd) \<Rightarrow> bool" where
  "keeps_nums f g \<longleftrightarrow> (\<forall>d. nums_of f (g d) = nums_of f d)"

fun class_keeps :: "'d fsm \<Rightarrow> 'd module_class \<Rightarrow> bool" where
  "class_keeps f (SimpleModule g) \<longleftrightarrow> keeps_nums f (\<lambda>d. snd (g d))"
| "class_keeps f (RequestModule h) \<longleftrightarrow>
     keeps_nums f (rq_on_read_version_failed h) \<and> keeps_nums f (rq_on_read_head_failed h) \<and>
     keeps_nums f (rq_on_read_body_failed h) \<and>
     (\<forall>b n. keeps_nums f (\<lambda>d. snd (rq_on_read_version_impl h b n d)) \<and>
            keeps_nums f (\<lambda>d. snd (rq_on_read_head_impl h b n d)) \<and>
            keeps_nums f (\<lambda>d. snd (rq_on_read_body_impl h b n d)))"
| "class_keeps f (ResponseModule h) \<longleftrightarrow>
     keeps_nums f (\<lambda>d. snd (rs_get_resp h d)) \<and> keeps_nums f (rs_on_write_resp_failed h) \<and>
     keeps_nums f (rs_on_write_resp_succeed h)"
| "class_keeps f (TcpModule p h) \<longleftrightarrow>
     keeps_nums f (tm_on_send_req_failed h) \<and> keeps_nums f (tm_on_read_head_failed h) \<and>
     keeps_nums f (tm_on_read_body_failed h) \<and> (\<forall>ip port. keeps_nums f (tm_on_connect_failed h ip port)) \<and>
     (\<forall>b n. keeps_nums f (\<lambda>d. snd (tm_on_read_head_impl h b n d)) \<and>
            keeps_nums f (\<lambda>d. snd (tm_on_read_body_impl h b n d))) \<and>
     keeps_nums f (\<lambda>d. snd (tm_get_server_ip_port h d)) \<and> keeps_nums f (\<lambda>d. snd (tm_get_request h d))"
| "class_keeps f cls \<longleftrightarrow> True"

fun timers_keep :: "'d fsm \<Rightarrow> 'd module_class \<Rightarrow> bool" where
  "timers_keep f (RequestModule h) \<longleftrightarrow>
     keeps_nums f (rq_on_read_version_time_out h) \<and> keeps_nums f (rq_on_read_head_and_body_time_out h)"
| "timers_keep f (ResponseModule h) \<longleftrightarrow> keeps_nums f (rs_on_write_resp_time_out h)"
| "timers_keep f (TcpModule p h) \<longleftrightarrow>
     keeps_nums f (tm_on_handle_time_out_impl h) \<and> (\<forall>ip port. keeps_nums f (tm_on_connect_failed h ip port))"
| "timers_keep f cls \<longleftrightarrow> True"

section \<open>The net\<close>

datatype 'd mark = Busy "'d module" | Ended "'d module" ModState

text \<open>
  For every context its marks, the arrivals its joins have counted, the numbers its data announce,
  whether it is to exit and its connection; the next context; the connections that are waited for and the next connection.
\<close>

record 'd net =
  n_marks :: "ctx_id \<Rightarrow> 'd mark multiset"
  n_joined :: "ctx_id \<Rightarrow> string \<Rightarrow> u16"
  n_num :: "ctx_id \<Rightarrow> string \<Rightarrow> nat"
  n_exit :: "ctx_id \<Rightarrow> bool"
  n_conn :: "ctx_id \<rightharpoonup> conn_id"
  n_next :: ctx_id
  n_waiting :: "conn_id multiset"
  n_next_conn :: conn_id

definition put_marks :: "ctx_id \<Rightarrow> 'd mark multiset \<Rightarrow> 'd net \<Rightarrow> 'd net" where
  "put_marks c M N = N\<lparr>n_marks := (n_marks N)(c := M + n_marks N c)\<rparr>"

abbreviation put_mark :: "ctx_id \<Rightarrow> 'd mark \<Rightarrow> 'd net \<Rightarrow> 'd net" where
  "put_mark c t \<equiv> put_marks c {#t#}"

definition set_exit :: "ctx_id \<Rightarrow> 'd net \<Rightarrow> 'd net" where
  "set_exit c N = N\<lparr>n_exit := (n_exit N)(c := True)\<rparr>"

definition set_joined :: "ctx_id \<Rightarrow> string \<Rightarrow> u16 \<Rightarrow> 'd net \<Rightarrow> 'd net" where
  "set_joined c n k N = N\<lparr>n_joined := (n_joined N)(c := (n_joined N c)(n := k))\<rparr>"

definition renum :: "ctx_id \<Rightarrow> (string \<Rightarrow> nat) \<Rightarrow> 'd net \<Rightarrow> 'd net" where
  "renum c num N = N\<lparr>n_num := (n_num N)(c := num)\<rparr>"

text \<open>A new context on a connection, its only mark at the start module.\<close>

definition open_ctx :: "'d module \<Rightarrow> conn_id \<Rightarrow> (string \<Rightarrow> nat) \<Rightarrow> 'd net \<Rightarrow> 'd net" where
  "open_ctx start k num N =
     (let c = n_next N
      in put_mark c (Busy start)
           (N\<lparr>n_joined := (n_joined N)(c := \<lambda>_. 0), n_num := (n_num N)(c := num), n_exit := (n_exit N)(c := False),
              n_conn := (n_conn N)(c \<mapsto> k), n_next := Suc c\<rparr>))"

definition at_end :: "'d fsm \<Rightarrow> 'd module \<Rightarrow> bool" where
  "at_end f md \<longleftrightarrow> (\<exists>e. fsm_end_mod f = Some e \<and> same_module md e)"

text \<open>
  The states a module of a class may end in, when the data then announce the numbers \<open>num\<close>: what
  it answers goes with the data it leaves.
\<close>

fun may_end :: "'d fsm \<Rightarrow> 'd module_class \<Rightarrow> ModState \<Rightarrow> (string \<Rightarrow> nat) \<Rightarrow> bool" where
  "may_end f (SimpleModule g) s num \<longleftrightarrow> s \<noteq> Mod_async \<and> (\<exists>d. fst (g d) = s \<and> nums_of f (snd (g d)) = num)"
| "may_end f (RequestModule h) s num \<longleftrightarrow>
     s = Mod_Failed \<or> s = Mod_Timeout \<or> (\<exists>d. rq_get_succeed_state h d = s \<and> nums_of f d = num)"
| "may_end f (ForkModule k g) s num \<longleftrightarrow> False"
| "may_end f (JoinModule k g) s num \<longleftrightarrow> False"
| "may_end f cls s num \<longleftrightarrow> True"

fun may_stop :: "'d module_class \<Rightarrow> bool" where
  "may_stop (SimpleModule g) \<longleftrightarrow> (\<exists>d. fst (g d) = Mod_async)"
| "may_stop cls \<longleftrightarrow> False"

fun may_exit :: "'d module_class \<Rightarrow> bool" where
  "may_exit (RequestModule h) = True"
| "may_exit (ResponseModule h) = True"
| "may_exit cls = False"

definition fork_marks :: "'d module \<Rightarrow> nat \<Rightarrow> 'd mark multiset" where
  "fork_marks md k = mset (map (\<lambda>i. Ended md (Mod_Fork0 + word_of_nat i)) [0 ..< k])"

inductive net_step :: "'d fsm \<Rightarrow> 'd net \<Rightarrow> 'd net \<Rightarrow> bool" for f where
  ns_end: "may_end f (md_class md) s (n_num N c) \<Longrightarrow> net_step f (put_mark c (Busy md) N) (put_mark c (Ended md s) N)"
| ns_stop: "may_stop (md_class md) \<Longrightarrow> net_step f (put_mark c (Busy md) N) N"
| ns_fork: "md_class md = ForkModule k g \<Longrightarrow>
     net_step f (put_mark c (Busy md) N) (put_marks c (fork_marks md (n_num N c (md_name md))) N)"
| ns_join: "md_class md = JoinModule k g \<Longrightarrow> j = n_joined N c (md_name md) + 1 \<Longrightarrow>
     s = Mod_Succeed \<or> s = Mod_Failed \<Longrightarrow> N' = set_joined c (md_name md) j N \<Longrightarrow>
     net_step f (put_mark c (Busy md) N) (if unat j = n_num N c (md_name md) then put_mark c (Ended md s) N' else N')"
| ns_renum: "\<not> class_keeps f (md_class md) \<Longrightarrow>
     net_step f (put_mark c (Busy md) N) (put_mark c (Busy md) (renum c (nums_of f d) N))"
| ns_late: "registered f md \<Longrightarrow> \<not> timers_keep f (md_class md) \<Longrightarrow> net_step f N (renum c (nums_of f d) N)"
| ns_route: "\<not> at_end f md \<Longrightarrow> route f (md_name md) s = Some (md_name md') \<Longrightarrow> registered f md' \<Longrightarrow>
     net_step f (put_mark c (Ended md s) N) (put_mark c (Busy md') N)"
| ns_abandon: "\<not> at_end f md \<Longrightarrow> route f (md_name md) s = None \<Longrightarrow>
     net_step f (put_mark c (Ended md s) N) (set_exit c N)"
| ns_exit: "may_exit (md_class md) \<Longrightarrow>
     net_step f (put_mark c (Busy md) N) (put_mark c (Busy md) (set_exit c N))"
| ns_finish: "at_end f md \<Longrightarrow> \<not> n_exit N c \<Longrightarrow> n_conn N c = Some k \<Longrightarrow> fsm_start_mod f = Some start \<Longrightarrow>
     net_step f (put_mark c (Ended md s) N) (open_ctx start k (nums_of f d) N)"
| ns_close: "at_end f md \<Longrightarrow> n_exit N c \<Longrightarrow> net_step f (put_mark c (Ended md s) N) N"
| ns_accept: "fsm_start_mod f = Some start \<Longrightarrow>
     net_step f (N\<lparr>n_waiting := add_mset k (n_waiting N)\<rparr>) (open_ctx start k (nums_of f d) N)"
| ns_listen: "net_step f N (N\<lparr>n_waiting := add_mset (n_next_conn N) (n_waiting N),
     n_next_conn := Suc (n_next_conn N)\<rparr>)"

inductive_cases net_stepE: "net_step f N N'"

lemma put_marks_fields [simp]:
  "n_marks (put_marks c M N) = (n_marks N)(c := M + n_marks N c)"
  "n_joined (put_marks c M N) = n_joined N" "n_num (put_marks c M N) = n_num N" "n_exit (put_marks c M N) = n_exit N"
  "n_conn (put_marks c M N) = n_conn N" "n_next (put_marks c M N) = n_next N"
  "n_waiting (put_marks c M N) = n_waiting N" "n_next_conn (put_marks c M N) = n_next_conn N"
  by (simp_all add: put_marks_def)

lemma put_marks_put: "put_marks c M (put_marks c M' N) = put_marks c (M + M') N"
  by (simp add: put_marks_def add.assoc)

lemma put_marks_empty [simp]: "put_marks c {#} N = N"
  by (simp add: put_marks_def)

lemma set_exit_fields [simp]:
  "n_marks (set_exit c N) = n_marks N" "n_joined (set_exit c N) = n_joined N" "n_num (set_exit c N) = n_num N"
  "n_exit (set_exit c N) = (n_exit N)(c := True)" "n_conn (set_exit c N) = n_conn N"
  "n_next (set_exit c N) = n_next N" "n_waiting (set_exit c N) = n_waiting N"
  "n_next_conn (set_exit c N) = n_next_conn N"
  by (simp_all add: set_exit_def)

lemma set_joined_fields [simp]:
  "n_marks (set_joined c n k N) = n_marks N"
  "n_joined (set_joined c n k N) = (n_joined N)(c := (n_joined N c)(n := k))"
  "n_num (set_joined c n k N) = n_num N" "n_exit (set_joined c n k N) = n_exit N" "n_conn (set_joined c n k N) = n_conn N"
  "n_next (set_joined c n k N) = n_next N" "n_waiting (set_joined c n k N) = n_waiting N"
  "n_next_conn (set_joined c n k N) = n_next_conn N"
  by (simp_all add: set_joined_def)

lemma open_ctx_fields [simp]:
  "n_marks (open_ctx start k num N) = (n_marks N)(n_next N := add_mset (Busy start) (n_marks N (n_next N)))"
  "n_joined (open_ctx start k num N) = (n_joined N)(n_next N := \<lambda>_. 0)"
  "n_num (open_ctx start k num N) = (n_num N)(n_next N := num)"
  "n_exit (open_ctx start k num N) = (n_exit N)(n_next N := False)"
  "n_conn (open_ctx start k num N) = (n_conn N)(n_next N \<mapsto> k)"
  "n_next (open_ctx start k num N) = Suc (n_next N)"
  "n_waiting (open_ctx start k num N) = n_waiting N" "n_next_conn (open_ctx start k num N) = n_next_conn N"
  by (simp_all add: open_ctx_def Let_def)

lemma renum_fields [simp]:
  "n_marks (renum c num N) = n_marks N" "n_joined (renum c num N) = n_joined N"
  "n_num (renum c num N) = (n_num N)(c := num)" "n_exit (renum c num N) = n_exit N"
  "n_conn (renum c num N) = n_conn N" "n_next (renum c num N) = n_next N"
  "n_waiting (renum c num N) = n_waiting N" "n_next_conn (renum c num N) = n_next_conn N"
  by (simp_all add: renum_def)

lemma renum_same [simp]: "renum c (n_num N c) N = N" "renum c num (renum c num' N) = renum c num N"
  by (simp_all add: renum_def)

lemma renum_put: "renum c num (put_marks c M N) = put_marks c M (renum c num N)"
  by (simp add: renum_def put_marks_def)

end
