(* ===== verification/Net_Balance.thy ===== *)
theory Net_Balance
  imports Token_Net
begin

text \<open>
  Weights for the modules of a machine that every move of the net conserves, and what follows
  from them: every connection that was accepted has exactly one context at work, until one of its
  contexts has been told to exit.
\<close>

section \<open>Weights\<close>

definition join_names :: "'d fsm \<Rightarrow> string set" where
  "join_names f = {md_name md | md. registered f md \<and> is_join (md_class md)}"

text \<open>
  The value of a mark under a valuation \<open>p\<close> of the modules. A branch of a fork has the value of
  the module it leads to; a join that has fired has that of all its arrivals, unless the arrivals
  go on being counted at the join itself (the joins in \<open>A\<close>).
\<close>

fun mark_val :: "'d fsm \<Rightarrow> (string \<Rightarrow> nat) \<Rightarrow> string set \<Rightarrow> (string \<Rightarrow> nat) \<Rightarrow> 'd mark \<Rightarrow> nat" where
  "mark_val f num A p (Busy md) = p (md_name md)"
| "mark_val f num A p (Ended md s) =
     (case md_class md of
        ForkModule k g \<Rightarrow> (case route f (md_name md) s of Some t \<Rightarrow> p t | None \<Rightarrow> 0)
      | JoinModule k g \<Rightarrow> if md_name md \<in> A then 0 else num (md_name md) * p (md_name md)
      | _ \<Rightarrow> p (md_name md))"

definition absorbed :: "'d fsm \<Rightarrow> (string \<Rightarrow> nat) \<Rightarrow> string set \<Rightarrow> (string \<Rightarrow> nat) \<Rightarrow> (string \<Rightarrow> u16) \<Rightarrow> nat" where
  "absorbed f num A p J =
     (\<Sum>j\<in>join_names f. if j \<in> A \<or> unat (J j) < num j then unat (J j) * p j else 0)"

definition tot ::
  "'d fsm \<Rightarrow> (string \<Rightarrow> nat) \<Rightarrow> string set \<Rightarrow> (string \<Rightarrow> nat) \<Rightarrow> 'd mark multiset \<Rightarrow> (string \<Rightarrow> u16) \<Rightarrow> nat" where
  "tot f num A p M J = (\<Sum>t\<in>#M. mark_val f num A p t) + absorbed f num A p J"

abbreviation worth ::
  "'d fsm \<Rightarrow> (string \<Rightarrow> nat) \<Rightarrow> string set \<Rightarrow> (string \<Rightarrow> nat) \<Rightarrow> ctx_id \<Rightarrow> 'd net \<Rightarrow> nat" where
  "worth f num A p c N \<equiv> tot f num A p (n_marks N c) (n_joined N c)"

text \<open>The states in which a module ends.\<close>

definition ended_ok :: "'d fsm \<Rightarrow> (string \<Rightarrow> nat) \<Rightarrow> 'd module \<Rightarrow> ModState \<Rightarrow> bool" where
  "ended_ok f num md s \<longleftrightarrow>
     (case md_class md of
        ForkModule k g \<Rightarrow> (\<exists>i < num (md_name md). s = Mod_Fork0 + word_of_nat i)
      | JoinModule k g \<Rightarrow> s = Mod_Succeed \<or> s = Mod_Failed
      | cls \<Rightarrow> may_end f cls s num)"

text \<open>
  A valuation flows through the modules in \<open>L\<close>: a link keeps the value of the mark or lets go of
  all there is (\<open>need\<close>); a fork divides its value among its branches.
\<close>

definition link_flows :: "nat \<Rightarrow> (string \<Rightarrow> nat) \<Rightarrow> nat \<Rightarrow> string option \<Rightarrow> bool" where
  "link_flows need p v target \<longleftrightarrow>
     (case target of None \<Rightarrow> v = 0 \<or> v = need | Some t \<Rightarrow> p t = v \<or> (v = need \<and> p t = 0))"

definition flows ::
  "'d fsm \<Rightarrow> (string \<Rightarrow> nat) \<Rightarrow> (string \<Rightarrow> bool) \<Rightarrow> string set \<Rightarrow> (string \<Rightarrow> nat) \<Rightarrow> nat \<Rightarrow> bool" where
  "flows f num L A p need \<longleftrightarrow>
     (\<forall>md s. registered f md \<and> L (md_name md) \<and> ended_ok f num md s \<longrightarrow>
        link_flows need p (mark_val f num A p (Ended md s))
          (if at_end f md then None else route f (md_name md) s)) \<and>
     (\<forall>md. registered f md \<and> L (md_name md) \<and> is_fork (md_class md) \<longrightarrow>
        (\<Sum>t\<in>#fork_marks md (num (md_name md)). mark_val f num A p t) = p (md_name md)) \<and>
     (\<forall>start. fsm_start_mod f = Some start \<longrightarrow> p (md_name start) = 0 \<or> p (md_name start) = need)"

text \<open>No module ends nowhere, and no timer changes the numbers.\<close>

definition never_stops :: "'d fsm \<Rightarrow> bool" where
  "never_stops f \<longleftrightarrow>
     (\<forall>md. registered f md \<longrightarrow> \<not> may_stop (md_class md))"

definition timers_ok :: "'d fsm \<Rightarrow> bool" where
  "timers_ok f \<longleftrightarrow> (\<forall>md. registered f md \<longrightarrow> timers_keep f (md_class md))"

text \<open>
  A certificate gives, for each choice of the numbers of branches and arrivals, the modules a
  request with these numbers may come to (they are live), a weight for every module and, for every
  join, a valuation that tells how much of what it waits for is still to come from a module.
\<close>

record certificate =
  ct_live :: "(string \<Rightarrow> nat) \<Rightarrow> string \<Rightarrow> bool"
  ct_weight :: "(string \<Rightarrow> nat) \<Rightarrow> string \<Rightarrow> nat"
  ct_pot :: "(string \<Rightarrow> nat) \<Rightarrow> string \<Rightarrow> string \<Rightarrow> nat"

definition whole :: "certificate \<Rightarrow> 'd fsm \<Rightarrow> (string \<Rightarrow> nat) \<Rightarrow> nat" where
  "whole ct f num = (case fsm_start_mod f of Some start \<Rightarrow> ct_weight ct num (md_name start) | None \<Rightarrow> 0)"

abbreviation need_of :: "certificate \<Rightarrow> (string \<Rightarrow> nat) \<Rightarrow> string \<Rightarrow> nat" where
  "need_of ct num j \<equiv> num j * ct_pot ct num j j"

definition live_joins :: "certificate \<Rightarrow> 'd fsm \<Rightarrow> (string \<Rightarrow> nat) \<Rightarrow> string set" where
  "live_joins ct f num = {j \<in> join_names f. ct_live ct num j}"

definition lives :: "certificate \<Rightarrow> 'd fsm \<Rightarrow> (string \<Rightarrow> nat) \<Rightarrow> bool" where
  "lives ct f num \<longleftrightarrow>
     (\<forall>start. fsm_start_mod f = Some start \<longrightarrow> ct_live ct num (md_name start)) \<and>
     (\<forall>md s t. registered f md \<and> ct_live ct num (md_name md) \<and> ended_ok f num md s \<and> \<not> at_end f md \<and>
        route f (md_name md) s = Some t \<longrightarrow> ct_live ct num t) \<and>
     (\<forall>md. registered f md \<and> ct_live ct num (md_name md) \<and> (is_fork (md_class md) \<or> is_join (md_class md)) \<longrightarrow>
        0 < num (md_name md)) \<and>
     (\<forall>md s. registered f md \<and> ct_live ct num (md_name md) \<and> is_fork (md_class md) \<and> ended_ok f num md s \<longrightarrow>
        \<not> at_end f md \<and> (\<exists>t. route f (md_name md) s = Some t \<and> 0 < ct_weight ct num t))"

definition balanced_at :: "(string \<Rightarrow> nat) \<Rightarrow> certificate \<Rightarrow> 'd fsm \<Rightarrow> (string \<Rightarrow> nat) \<Rightarrow> bool" where
  "balanced_at rank ct f num \<longleftrightarrow>
     lives ct f num \<and>
     (\<forall>md. registered f md \<and> ct_live ct num (md_name md) \<longrightarrow> 0 < ct_weight ct num (md_name md)) \<and>
     flows f num (ct_live ct num) {} (ct_weight ct num) (whole ct f num) \<and>
     (\<forall>j\<in>live_joins ct f num. flows f num (ct_live ct num) {j} (ct_pot ct num j) (need_of ct num j) \<and>
        0 < ct_pot ct num j j \<and>
        (\<forall>j'\<in>live_joins ct f num. ct_pot ct num j j' \<noteq> 0 \<and> j' \<noteq> j \<longrightarrow> rank j < rank j'))"

lemma livesD:
  assumes "lives ct f num"
  shows "fsm_start_mod f = Some start \<Longrightarrow> ct_live ct num (md_name start)"
    "registered f md \<Longrightarrow> ct_live ct num (md_name md) \<Longrightarrow> ended_ok f num md s \<Longrightarrow> \<not> at_end f md \<Longrightarrow>
       route f (md_name md) s = Some t \<Longrightarrow> ct_live ct num t"
    "registered f md \<Longrightarrow> ct_live ct num (md_name md) \<Longrightarrow> is_fork (md_class md) \<or> is_join (md_class md) \<Longrightarrow>
       0 < num (md_name md)"
    "registered f md \<Longrightarrow> ct_live ct num (md_name md) \<Longrightarrow> is_fork (md_class md) \<Longrightarrow> ended_ok f num md s \<Longrightarrow>
       \<not> at_end f md \<and> (\<exists>t. route f (md_name md) s = Some t \<and> 0 < ct_weight ct num t)"
  using assms unfolding lives_def by blast+

text \<open>
  A module that may change the numbers stands before all forks and joins: the whole request is
  there, and all that any join will wait for.
\<close>

definition settles :: "certificate \<Rightarrow> 'd fsm \<Rightarrow> (string \<Rightarrow> nat) \<Rightarrow> string \<Rightarrow> bool" where
  "settles ct f num n \<longleftrightarrow>
     ct_live ct num n \<and> ct_weight ct num n = whole ct f num \<and>
     (\<forall>j\<in>live_joins ct f num. ct_pot ct num j n = need_of ct num j)"

definition balanced :: "(string \<Rightarrow> nat) \<Rightarrow> certificate \<Rightarrow> 'd fsm \<Rightarrow> bool" where
  "balanced rank ct f \<longleftrightarrow>
     never_stops f \<and> timers_ok f \<and> (\<forall>d. balanced_at rank ct f (nums_of f d)) \<and>
     (\<forall>md d. registered f md \<and> \<not> class_keeps f (md_class md) \<longrightarrow> settles ct f (nums_of f d) (md_name md))"

section \<open>What the marks are worth\<close>

lemma join_names_finite [simp]: "finite (join_names f)"
proof -
  have "join_names f \<subseteq> fst ` set (fsm_mod_map f)"
    by (force simp: join_names_def registered_def dest: sm_find_in_set)
  then show ?thesis by (rule finite_subset) simp
qed

lemma tot_add: "tot f num A p (M + M') J = (\<Sum>t\<in>#M. mark_val f num A p t) + tot f num A p M' J"
  by (simp add: tot_def)

lemma tot_add_mset [simp]: "tot f num A p (add_mset t M) J = mark_val f num A p t + tot f num A p M J"
  by (simp add: tot_def)

lemma tot_new: "tot f num A p {#t#} (\<lambda>_. 0) = mark_val f num A p t"
  by (simp add: tot_def absorbed_def)

lemma tot_empty [simp]: "tot f num A p {#} (\<lambda>_. 0) = 0"
  by (simp add: tot_def absorbed_def)

lemma absorbed_le:
  assumes "j \<in> join_names f" and "j \<in> A"
  shows "unat (J j) * p j \<le> absorbed f num A p J"
proof -
  have "(\<Sum>i\<in>{j}. if i \<in> A \<or> unat (J i) < num i then unat (J i) * p i else 0) \<le> absorbed f num A p J"
    unfolding absorbed_def by (rule sum_mono2) (use assms in auto)
  with assms show ?thesis by simp
qed

text \<open>An arrival moves its value from the mark to the join, and from the join when it fires.\<close>

lemma absorbed_arrive:
  assumes "j \<in> join_names f" and room: "unat (J j) < num j" "num j < 2 ^ 16"
  shows "absorbed f num A p (J(j := J j + 1)) + (if j \<notin> A \<and> unat (J j) + 1 = num j then num j * p j else 0) =
    p j + absorbed f num A p J"
proof -
  let ?v = "\<lambda>J i. if i \<in> A \<or> unat (J i) < num i then unat (J i) * p i else 0"
  have u: "unat (J j + 1) = unat (J j) + 1"
    using room by (simp add: unat_word_ariths)
  have split: "absorbed f num A p K = ?v K j + (\<Sum>i\<in>join_names f - {j}. ?v K i)" for K
    unfolding absorbed_def using assms(1) by (simp add: sum.remove)
  have "(\<Sum>i\<in>join_names f - {j}. ?v (J(j := J j + 1)) i) = (\<Sum>i\<in>join_names f - {j}. ?v J i)"
    by (rule sum.cong) auto
  moreover have "?v (J(j := J j + 1)) j + (if j \<notin> A \<and> unat (J j) + 1 = num j then num j * p j else 0) = p j + ?v J j"
    using room(1) by (simp del: One_nat_def add: u add_mult_distrib)
      (metis Suc_eq_plus1 mult_Suc)
  ultimately show ?thesis unfolding split [of "J(j := J j + 1)"] split [of J] by simp
qed

section \<open>Moves conserve the weights\<close>

fun mark_ok :: "'d fsm \<Rightarrow> (string \<Rightarrow> nat) \<Rightarrow> 'd mark \<Rightarrow> bool" where
  "mark_ok f num (Busy md) \<longleftrightarrow> registered f md"
| "mark_ok f num (Ended md s) \<longleftrightarrow> registered f md \<and> ended_ok f num md s"

fun mark_name :: "'d mark \<Rightarrow> string" where
  "mark_name (Busy md) = md_name md"
| "mark_name (Ended md s) = md_name md"

text \<open>
  Marks are of registered modules; a join that a mark comes to has room for it; nothing is known
  of contexts and connections that have not been made.
\<close>

definition net_wf :: "'d fsm \<Rightarrow> 'd net \<Rightarrow> bool" where
  "net_wf f N \<longleftrightarrow>
     (\<forall>c. \<forall>t\<in>#n_marks N c. mark_ok f (n_num N c) t) \<and>
     (\<forall>c<n_next N. \<exists>d. n_num N c = nums_of f d) \<and>
     (\<forall>c\<ge>n_next N. n_marks N c = {#} \<and> n_joined N c = (\<lambda>_. 0) \<and> n_conn N c = None)"

definition has_room :: "'d fsm \<Rightarrow> ctx_id \<Rightarrow> 'd net \<Rightarrow> bool" where
  "has_room f c N \<longleftrightarrow>
     (\<forall>md. Busy md \<in># n_marks N c \<and> is_join (md_class md) \<longrightarrow>
        unat (n_joined N c (md_name md)) < n_num N c (md_name md))"

lemma fork_marks_ok:
  assumes "registered f md" "is_fork (md_class md)" "t \<in># fork_marks md (num (md_name md))"
  shows "mark_ok f num t"
  using assms by (cases "md_class md") (auto simp: fork_marks_def ended_ok_def)

lemma net_wf_put:
  assumes "net_wf f (put_marks c M N)" and "t \<in># M"
  shows "mark_ok f (n_num N c) t" "c < n_next N"
proof -
  show "mark_ok f (n_num N c) t" using assms by (auto simp: net_wf_def dest: spec [of _ c])
  show "c < n_next N"
  proof (rule ccontr)
    assume "\<not> c < n_next N"
    with assms(1) have "M + n_marks N c = {#}" by (auto simp: net_wf_def dest: spec [of _ c])
    with assms(2) show False by simp
  qed
qed

lemma net_wf_base: "net_wf f (put_marks c M N) \<Longrightarrow> net_wf f N"
  by (auto simp: net_wf_def split: if_splits)

lemma net_wf_change:
  "net_wf f N \<Longrightarrow> c < n_next N \<Longrightarrow> (\<And>t. t \<in># M \<Longrightarrow> mark_ok f (n_num N c) t) \<Longrightarrow> net_wf f (put_marks c M N)"
  by (auto simp: net_wf_def)

lemma net_wf_aside [simp]:
  "net_wf f (set_exit c N) = net_wf f N"
  "c < n_next N \<Longrightarrow> net_wf f N \<Longrightarrow> net_wf f (set_joined c n k N)"
  "net_wf f (N\<lparr>n_waiting := W\<rparr>) = net_wf f N"
  "net_wf f (N\<lparr>n_waiting := W, n_next_conn := m\<rparr>) = net_wf f N"
  by (auto simp: net_wf_def)

lemma net_wf_open:
  "net_wf f N \<Longrightarrow> registered f start \<Longrightarrow> net_wf f (open_ctx start k (nums_of f d) N)"
  by (auto simp: net_wf_def less_Suc_eq)

lemma net_wf_renum:
  assumes "net_wf f N" and "n_marks N c = {#}"
  shows "net_wf f (renum c (nums_of f d) N)"
  using assms by (auto simp: net_wf_def)

lemma may_end_ok: "may_end f (md_class md) s num \<Longrightarrow> ended_ok f num md s"
  by (cases "md_class md") (auto simp: ended_ok_def)

text \<open>What the moves other than a change of numbers do.\<close>

lemma net_wf_step:
  assumes wf: "net_wf f N" and start: "start_ok f" and step: "net_step f N N'"
    and same: "\<And>c. c < n_next N \<Longrightarrow> n_num N' c = n_num N c"
  shows "net_wf f N'"
proof -
  have go: "net_wf f (put_marks c M' N0)" if "N = put_mark c t N0" "\<And>t. t \<in># M' \<Longrightarrow> mark_ok f (n_num N0 c) t" for c t N0 M'
    using that wf net_wf_put [of f c "{#t#}" N0 t] net_wf_base [of f c "{#t#}" N0]
    by (auto intro: net_wf_change)
  have base: "net_wf f N0 \<and> c < n_next N0 \<and> mark_ok f (n_num N0 c) t" if "N = put_mark c t N0" for c t N0
    using that wf net_wf_put [of f c "{#t#}" N0 t] net_wf_base [of f c "{#t#}" N0] by auto
  from step show ?thesis
  proof cases
    case (ns_fork md k g c N0)
    with base [OF ns_fork(1)] fork_marks_ok [of f md] show ?thesis
      unfolding ns_fork(2) by (intro go [OF ns_fork(1)]) auto
  next
    case (ns_join md k g j N0 c s N1)
    with base [OF ns_join(1)] show ?thesis by (auto simp: ended_ok_def intro!: net_wf_change)
  next
    case (ns_end md s c N0)
    with base [OF ns_end(1)] show ?thesis by (auto intro!: net_wf_change may_end_ok)
  next
    case (ns_exit md c N0)
    with base [OF ns_exit(1)] show ?thesis by (auto intro!: net_wf_change)
  next
    case (ns_finish md N0 c k start s d)
    with base [OF ns_finish(1)] start show ?thesis by (auto simp: start_ok_def intro: net_wf_open)
  next
    case (ns_accept start k N0 d)
    with wf start show ?thesis by (auto simp: start_ok_def intro: net_wf_open)
  next
    case (ns_renum md c N0 d)
    then have "N' = N"
      using base [OF ns_renum(1)] same [of c] renum_same(1) [of c N0] by simp
    with wf show ?thesis by simp
  next
    case (ns_late md c d)
    show ?thesis
    proof (cases "c < n_next N")
      case True
      with ns_late same [of c] renum_same(1) [of c N] have "N' = N" by simp
      with wf show ?thesis by simp
    next
      case False
      with wf ns_late show ?thesis by (auto simp: net_wf_def)
    qed
  qed (use base wf in \<open>auto intro!: net_wf_change\<close>)
qed

lemma net_wf_fresh: "net_wf f N \<Longrightarrow> n_marks N (n_next N) = {#}"
  by (simp add: net_wf_def)

lemma net_wf_mark: "net_wf f N \<Longrightarrow> t \<in># n_marks N c \<Longrightarrow> mark_ok f (n_num N c) t"
  unfolding net_wf_def by blast

lemma net_wf_num: "net_wf f N \<Longrightarrow> c < n_next N \<Longrightarrow> \<exists>d. n_num N c = nums_of f d"
  unfolding net_wf_def by blast

lemma net_wf_made: "net_wf f N \<Longrightarrow> n_marks N c \<noteq> {#} \<Longrightarrow> c < n_next N"
  unfolding net_wf_def by (meson not_le_imp_less)


text \<open>A total is all or nothing, and stays so when a mark passes a link.\<close>

abbreviation all_or_none :: "nat \<Rightarrow> nat \<Rightarrow> bool" where
  "all_or_none need v \<equiv> v = 0 \<or> v = need"

lemma flows_link:
  "flows f num L A p need \<Longrightarrow> mark_ok f num (Ended md s) \<Longrightarrow> L (md_name md) \<Longrightarrow>
     link_flows need p (mark_val f num A p (Ended md s)) (if at_end f md then None else route f (md_name md) s)"
  by (simp add: flows_def)

lemma flows_start:
  "flows f num L A p need \<Longrightarrow> fsm_start_mod f = Some start \<Longrightarrow> all_or_none need (p (md_name start))"
  by (auto simp: flows_def)

lemma flows_fork:
  "flows f num L A p need \<Longrightarrow> registered f md \<Longrightarrow> L (md_name md) \<Longrightarrow> is_fork (md_class md) \<Longrightarrow>
     (\<Sum>t\<in>#fork_marks md (num (md_name md)). mark_val f num A p t) = p (md_name md)"
  by (simp add: flows_def)

lemma link_lets_go: "link_flows need p v None \<Longrightarrow> all_or_none need (v + r) \<Longrightarrow> all_or_none need r"
  by (auto simp: link_flows_def)

lemma link_passes: "link_flows need p v (Some t) \<Longrightarrow> all_or_none need (v + r) \<Longrightarrow> all_or_none need (p t + r)"
  by (auto simp: link_flows_def)

lemma join_conserves:
  assumes md: "registered f md" "md_class md = JoinModule k g"
    and room: "unat (J (md_name md)) < num (md_name md)" "num (md_name md) < 2 ^ 16"
  shows "(if unat (J (md_name md) + 1) = num (md_name md) then mark_val f num A p (Ended md s) else 0) +
      tot f num A p M (J(md_name md := J (md_name md) + 1)) = p (md_name md) + tot f num A p M J"
proof -
  let ?j = "md_name md"
  have names: "?j \<in> join_names f" using md by (auto simp: join_names_def)
  have "unat (J ?j + 1) = unat (J ?j) + 1" using room by (simp add: unat_word_ariths)
  with absorbed_arrive [of ?j f J num A p, OF names room] md(2) show ?thesis by (auto simp: tot_def)
qed

lemma total_step:
  assumes fl: "flows f num L A p need" and wf: "net_wf f N" and num: "num = n_num N c"
    and live: "\<And>t. t \<in># n_marks N c \<Longrightarrow> L (mark_name t)"
    and bound: "\<And>n. num n < 2 ^ 16" and room: "has_room f c N"
    and stops: "never_stops f" and step: "net_step f N N'" and same: "n_num N' c = num"
    and all: "all_or_none need (worth f num A p c N)"
  shows "all_or_none need (worth f num A p c N')"
proof -
  have reg: "mark_ok f (n_num N0 c') t" if "N = put_mark c' t N0" for c' t N0
    using that wf net_wf_put [of f c' "{#t#}" N0 t] by auto
  have ok: "mark_ok f num t" if "N = put_mark c t N0" for t N0
    using reg [OF that] that num by simp
  have on: "L (mark_name t)" if "N = put_mark c t N0" for t N0
    using live [of t] that by simp
  have at: "all_or_none need (mark_val f num A p t + worth f num A p c N0)" if "N = put_mark c t N0" for t N0
    using all that by (simp add: tot_add)
  have fresh: "worth f num A p (n_next N) N = 0" using wf by (simp add: net_wf_def)
  have let_go: "all_or_none need (worth f num A p c N0)"
    if "N = put_mark c' (Ended md s) N0" "at_end f md \<or> route f (md_name md) s = None" for c' md s N0
  proof (cases "c' = c")
    case True
    with that have N: "N = put_mark c (Ended md s) N0" by simp
    from flows_link [OF fl ok [OF N]] on [OF N] that(2) have
      "link_flows need p (mark_val f num A p (Ended md s)) None" by (auto split: if_splits)
    from link_lets_go [OF this at [OF N]] show ?thesis .
  qed (use all that in auto)
  from step show ?thesis
  proof cases
    case (ns_end md s N0 c')
    have "mark_val f num A p (Ended md s) = p (md_name md)"
      using ns_end(3) by (cases "md_class md") auto
    with at [of "Busy md"] all show ?thesis by (cases "c' = c") (auto simp: ns_end tot_add)
  next
    case (ns_stop md c')
    with reg [OF ns_stop(1)] stops show ?thesis by (auto simp: never_stops_def)
  next
    case (ns_fork md k g c' N0)
    show ?thesis
    proof (cases "c' = c")
      case True
      with ok [of "Busy md" N0] on [of "Busy md" N0] ns_fork have
        md: "registered f md" "L (md_name md)" "is_fork (md_class md)" by auto
      from flows_fork [OF fl md] at [of "Busy md" N0] True num show ?thesis
        by (auto simp: ns_fork tot_add)
    qed (use all in \<open>auto simp: ns_fork\<close>)
  next
    case (ns_join md k g j N0 c' s N1)
    show ?thesis
    proof (cases "c' = c")
      case True
      have N: "N = put_mark c (Busy md) N0" using ns_join(1) True by simp
      have md: "registered f md" using ok [OF N] by simp
      have n: "n_num N0 c = num" using num by (simp add: N)
      have "unat (n_joined N0 c (md_name md)) < num (md_name md)"
        using room ns_join(3) num by (auto simp: has_room_def N)
      from join_conserves [OF md ns_join(3), of "n_joined N0 c" num, OF this bound, of A p s "n_marks N0 c"]
        at [OF N] True n
      show ?thesis by (auto simp: ns_join tot_add split: if_splits)
    next
      case False
      with all show ?thesis by (auto simp: ns_join)
    qed
  next
    case (ns_route md s md' c' N0)
    show ?thesis
    proof (cases "c' = c")
      case True
      then have N: "N = put_mark c (Ended md s) N0" using ns_route(1) by simp
      with flows_link [OF fl ok [OF N]] on [OF N] ns_route have
        "link_flows need p (mark_val f num A p (Ended md s)) (Some (md_name md'))" by simp
      from link_passes [OF this at [OF N]] True show ?thesis by (simp add: ns_route tot_add)
    qed (use all in \<open>auto simp: ns_route\<close>)
  next
    case (ns_abandon md s c' N0)
    with let_go [of c' md s N0] show ?thesis by simp
  next
    case (ns_finish md N0 c' k start s d)
    have "all_or_none need (worth f num A p c N0)" using let_go [of c' md s N0] ns_finish by simp
    moreover have "n_marks N0 (n_next N0) = {#}"
      by (rule net_wf_fresh [OF net_wf_base]) (use wf ns_finish(1) in simp)
    ultimately show ?thesis
      using flows_start [OF fl ns_finish(6)] by (auto simp: ns_finish)
  next
    case (ns_close md c' s)
    with let_go [of c' md s N'] show ?thesis by simp
  next
    case (ns_accept start k N0 d)
    have "n_marks N0 (n_next N0) = {#}" using wf by (simp add: ns_accept net_wf_def)
    with flows_start [OF fl ns_accept(3)] all show ?thesis by (auto simp: ns_accept)
  qed (use all in auto)
qed

section \<open>Every connection is served\<close>

text \<open>
  The invariant: the weight of a context is that of a whole request or nothing; what a join waits
  for is there as a whole or not at all; a connection has at most one context with marks, and has
  one unless one of its contexts is to exit; connections that are waited for have no context yet.
\<close>

definition serving :: "'d net \<Rightarrow> conn_id \<Rightarrow> ctx_id \<Rightarrow> bool" where
  "serving N k c \<longleftrightarrow> n_conn N c = Some k \<and> n_marks N c \<noteq> {#}"

definition conns_but :: "conn_id set \<Rightarrow> 'd net \<Rightarrow> bool" where
  "conns_but K N \<longleftrightarrow>
     (\<forall>k c c'. serving N k c \<and> serving N k c' \<longrightarrow> c = c') \<and>
     (\<forall>k c. n_conn N c = Some k \<and> k \<notin> K \<longrightarrow>
        (\<exists>c'. n_conn N c' = Some k \<and> (n_marks N c' \<noteq> {#} \<or> n_exit N c'))) \<and>
     (\<forall>k c. n_conn N c = Some k \<longrightarrow> k < n_next_conn N \<and> k \<notin># n_waiting N) \<and>
     (\<forall>k\<in>#n_waiting N. k < n_next_conn N \<and> count (n_waiting N) k = 1)"

abbreviation conns_ok :: "'d net \<Rightarrow> bool" where
  "conns_ok \<equiv> conns_but {}"

definition net_live :: "certificate \<Rightarrow> 'd fsm \<Rightarrow> 'd net \<Rightarrow> bool" where
  "net_live ct f N \<longleftrightarrow>
     (\<forall>c. \<forall>t\<in>#n_marks N c. ct_live ct (n_num N c) (mark_name t)) \<and>
     (\<forall>c. \<forall>j\<in>join_names f. n_joined N c j = 0 \<or> ct_live ct (n_num N c) j)"

definition weighed :: "certificate \<Rightarrow> 'd fsm \<Rightarrow> 'd net \<Rightarrow> bool" where
  "weighed ct f N \<longleftrightarrow>
     net_wf f N \<and> net_live ct f N \<and>
     (\<forall>c. all_or_none (whole ct f (n_num N c)) (worth f (n_num N c) {} (ct_weight ct (n_num N c)) c N)) \<and>
     (\<forall>c. \<forall>j\<in>live_joins ct f (n_num N c). all_or_none (need_of ct (n_num N c) j)
        (worth f (n_num N c) {j} (ct_pot ct (n_num N c) j) c N))"

abbreviation weight_at :: "certificate \<Rightarrow> 'd fsm \<Rightarrow> ctx_id \<Rightarrow> 'd net \<Rightarrow> nat" where
  "weight_at ct f c N \<equiv> worth f (n_num N c) {} (ct_weight ct (n_num N c)) c N"

abbreviation pot_at :: "certificate \<Rightarrow> 'd fsm \<Rightarrow> string \<Rightarrow> ctx_id \<Rightarrow> 'd net \<Rightarrow> nat" where
  "pot_at ct f j c N \<equiv> worth f (n_num N c) {j} (ct_pot ct (n_num N c) j) c N"

lemma weighed_wf: "weighed ct f N \<Longrightarrow> net_wf f N"
  by (simp add: weighed_def)

lemma weighed_weight: "weighed ct f N \<Longrightarrow> all_or_none (whole ct f (n_num N c)) (weight_at ct f c N)"
  unfolding weighed_def by blast

lemma weighed_pot:
  "weighed ct f N \<Longrightarrow> j \<in> live_joins ct f (n_num N c) \<Longrightarrow> all_or_none (need_of ct (n_num N c) j) (pot_at ct f j c N)"
  unfolding weighed_def by blast

lemma weighed_live:
  "weighed ct f N \<Longrightarrow> t \<in># n_marks N c \<Longrightarrow> ct_live ct (n_num N c) (mark_name t)"
  "weighed ct f N \<Longrightarrow> j \<in> join_names f \<Longrightarrow> n_joined N c j \<noteq> 0 \<Longrightarrow> j \<in> live_joins ct f (n_num N c)"
  unfolding weighed_def net_live_def live_joins_def by blast+

lemma bal_at:
  assumes "balanced rank ct f" and "net_wf f N" and "c < n_next N"
  shows "balanced_at rank ct f (n_num N c)" "n_num N c n < 2 ^ 16"
proof -
  obtain d where d: "n_num N c = nums_of f d" using net_wf_num [OF assms(2,3)] by blast
  with assms(1) show "balanced_at rank ct f (n_num N c)" by (simp add: balanced_def)
  show "n_num N c n < 2 ^ 16" unfolding d by (rule nums_of_bound)
qed

lemma balanced_atD:
  assumes "balanced_at rank ct f num"
  shows "registered f md \<Longrightarrow> ct_live ct num (md_name md) \<Longrightarrow> is_join (md_class md) \<Longrightarrow> 0 < num (md_name md)"
    "registered f md \<Longrightarrow> ct_live ct num (md_name md) \<Longrightarrow> 0 < ct_weight ct num (md_name md)"
    "flows f num (ct_live ct num) {} (ct_weight ct num) (whole ct f num)"
    "j \<in> live_joins ct f num \<Longrightarrow> flows f num (ct_live ct num) {j} (ct_pot ct num j) (need_of ct num j)"
    "j \<in> live_joins ct f num \<Longrightarrow> 0 < ct_pot ct num j j"
    "j \<in> live_joins ct f num \<Longrightarrow> j' \<in> live_joins ct f num \<Longrightarrow> ct_pot ct num j j' \<noteq> 0 \<Longrightarrow> j' \<noteq> j \<Longrightarrow> rank j < rank j'"
    "j \<in> live_joins ct f num \<Longrightarrow> 0 < num j"
    "lives ct f num"
proof -
  show lives: "lives ct f num" using assms by (simp add: balanced_at_def)
  then show "0 < num (md_name md)" if "registered f md" "ct_live ct num (md_name md)" "is_join (md_class md)" for md
    using livesD(3) [OF lives that(1,2)] that(3) by blast
  then show "j \<in> live_joins ct f num \<Longrightarrow> 0 < num j" by (auto simp: live_joins_def join_names_def)
qed (use assms in \<open>simp_all add: balanced_at_def\<close>)

lemma bal_room:
  assumes bal: "balanced rank ct f" and inv: "weighed ct f N"
  shows "has_room f c N"
  unfolding has_room_def
proof (intro allI impI)
  fix md assume md: "Busy md \<in># n_marks N c \<and> is_join (md_class md)"
  let ?num = "n_num N c"
  let ?j = "md_name md" and ?u = "unat (n_joined N c (md_name md))"
  have "mark_ok f ?num (Busy md)" using net_wf_mark [OF weighed_wf [OF inv]] md by blast
  with md have names: "?j \<in> join_names f" by (auto simp: join_names_def)
  with weighed_live(1) [OF inv, of "Busy md" c] md have j: "?j \<in> live_joins ct f ?num" by (simp add: live_joins_def)
  obtain M where M: "n_marks N c = add_mset (Busy md) M" using md by (meson mset_add)
  have "c < n_next N" by (rule net_wf_made [OF weighed_wf [OF inv]]) (simp add: M)
  note at = bal_at [OF bal weighed_wf [OF inv] this]
  have "ct_pot ct ?num ?j ?j + ?u * ct_pot ct ?num ?j ?j \<le> pot_at ct f ?j c N"
    using absorbed_le [OF names, of "{?j}" "n_joined N c" "ct_pot ct ?num ?j" ?num] by (simp add: M tot_def)
  also have "\<dots> \<le> ?num ?j * ct_pot ct ?num ?j ?j"
    using weighed_pot [OF inv j] by auto
  finally have "(?u + 1) * ct_pot ct ?num ?j ?j \<le> ?num ?j * ct_pot ct ?num ?j ?j" by simp
  moreover have "0 < ct_pot ct ?num ?j ?j" by (rule balanced_atD(5) [OF at(1) j])
  ultimately show "?u < ?num ?j" by (metis Suc_eq_plus1 less_eq_Suc_le mult_le_cancel2)
qed

text \<open>A mark has weight, and without marks there is none: no join holds a part of a request.\<close>

lemma mark_weight:
  assumes "balanced_at rank ct f num" and "mark_ok f num t" and "ct_live ct num (mark_name t)"
  shows "0 < mark_val f num {} (ct_weight ct num) t"
proof (cases t)
  case (Busy md)
  with assms show ?thesis by (simp add: balanced_at_def)
next
  case (Ended md s)
  with assms have md: "registered f md" "ct_live ct num (md_name md)" "ended_ok f num md s"
    "0 < ct_weight ct num (md_name md)"
    by (simp_all add: balanced_at_def)
  show ?thesis
  proof (cases "md_class md")
    case (ForkModule k g)
    then have "is_fork (md_class md)" by simp
    with livesD(4) [OF balanced_atD(8) [OF assms(1)] md(1,2) _ md(3)] obtain t where
      "route f (md_name md) s = Some t" "0 < ct_weight ct num t" by blast
    then show ?thesis by (simp add: Ended ForkModule)
  next
    case (JoinModule k g)
    with balanced_atD(1) [OF assms(1) md(1,2)] md(4) show ?thesis by (simp add: Ended)
  qed (use md(4) Ended in auto)
qed

lemma no_marks_no_weight:
  assumes bal: "balanced rank ct f" and inv: "weighed ct f N" and none: "n_marks N c = {#}"
  shows "weight_at ct f c N = 0"
proof (rule ccontr)
  let ?J = "\<lambda>j. unat (n_joined N c j)" and ?num = "n_num N c"
  define P where "P = {j \<in> join_names f. 0 < ?J j \<and> ?J j < ?num j}"
  assume "weight_at ct f c N \<noteq> 0"
  then have some: "absorbed f ?num {} (ct_weight ct ?num) (n_joined N c) \<noteq> 0" by (simp add: tot_def none)
  have "c < n_next N"
  proof (rule ccontr)
    assume "\<not> c < n_next N"
    with weighed_wf [OF inv] have "n_joined N c = (\<lambda>_. 0)" by (simp add: net_wf_def)
    with some show False by (auto simp: absorbed_def split: if_splits)
  qed
  note at = bal_at(1) [OF bal weighed_wf [OF inv] this]
  from some have "P \<noteq> {}" by (auto simp: absorbed_def P_def split: if_splits)
  moreover have fin: "finite P" by (simp add: P_def)
  ultimately have "Max (rank ` P) \<in> rank ` P" by (intro Max_in) auto
  then obtain j where j: "j \<in> P" and top: "rank j = Max (rank ` P)" by auto
  have max: "rank j' \<le> rank j" if "j' \<in> P" for j'
    unfolding top using that fin by (intro Max_ge) auto
  from j have jn: "j \<in> join_names f" and part: "0 < ?J j" "?J j < ?num j" by (auto simp: P_def)
  have live: "j' \<in> live_joins ct f ?num" if "j' \<in> join_names f" "?J j' \<noteq> 0" for j'
    by (rule weighed_live(2) [OF inv that(1)]) (use that(2) in auto)
  have names: "j \<in> live_joins ct f ?num" by (rule live [OF jn]) (use part in simp)
  note pos = balanced_atD(5) [OF at names] and up = balanced_atD(6) [OF at names]
  have "(if j' \<in> {j} \<or> ?J j' < ?num j' then ?J j' * ct_pot ct ?num j j' else 0) = 0"
    if "j' \<in> join_names f - {j}" for j'
    using that up [of j'] max [of j'] live [of j'] by (cases "?J j' = 0"; cases "ct_pot ct ?num j j' = 0") (auto simp: P_def)
  then have "absorbed f ?num {j} (ct_pot ct ?num j) (n_joined N c) = ?J j * ct_pot ct ?num j j"
    unfolding absorbed_def using jn by (subst sum.remove [of _ j]) (simp_all add: sum.neutral)
  then have "pot_at ct f j c N = ?J j * ct_pot ct ?num j j" by (simp add: tot_def none)
  with weighed_pot [OF inv names] part pos show False by auto
qed

lemma marks_weight:
  assumes "balanced rank ct f" and "weighed ct f N"
  shows "n_marks N c \<noteq> {#} \<longleftrightarrow> weight_at ct f c N \<noteq> 0"
proof
  assume some: "n_marks N c \<noteq> {#}"
  then obtain t M where t: "n_marks N c = add_mset t M" by (meson multiset_cases)
  note wf = weighed_wf [OF assms(2)]
  have "mark_ok f (n_num N c) t" by (rule net_wf_mark [OF wf]) (simp add: t)
  from mark_weight [OF bal_at(1) [OF assms(1) wf net_wf_made [OF wf some]] this weighed_live(1) [OF assms(2)]]
  show "weight_at ct f c N \<noteq> 0" by (simp add: t)
next
  assume "weight_at ct f c N \<noteq> 0"
  then show "n_marks N c \<noteq> {#}" using no_marks_no_weight [OF assms, of c] by metis
qed

text \<open>A mark that has the weight of the whole request is the only one.\<close>

lemma only_mark:
  assumes bal: "balanced rank ct f" and inv: "weighed ct f N" and N: "N = put_mark c t N0"
    and all: "mark_val f (n_num N c) {} (ct_weight ct (n_num N c)) t = whole ct f (n_num N c)"
  shows "n_marks N0 c = {#}"
proof (rule ccontr)
  let ?num = "n_num N c"
  note wf = weighed_wf [OF inv]
  have "n_marks N c \<noteq> {#}" by (simp add: N)
  note at = bal_at(1) [OF bal wf net_wf_made [OF wf this]]
  assume "n_marks N0 c \<noteq> {#}"
  then obtain t' M where t': "n_marks N0 c = add_mset t' M" by (meson multiset_cases)
  have ok: "mark_ok f ?num t" "mark_ok f ?num t'"
    by (rule net_wf_mark [OF wf]; simp add: N t')+
  have "all_or_none (whole ct f ?num) (mark_val f ?num {} (ct_weight ct ?num) t +
      (mark_val f ?num {} (ct_weight ct ?num) t' + tot f ?num {} (ct_weight ct ?num) M (n_joined N c)))"
    using weighed_weight [OF inv, of c] by (simp add: N t' ac_simps)
  moreover have "ct_live ct ?num (mark_name t)" "ct_live ct ?num (mark_name t')"
    by (rule weighed_live(1) [OF inv]; simp add: N t')+
  ultimately show False using mark_weight [OF at ok(1)] mark_weight [OF at ok(2)] all by simp
qed

text \<open>So is one that lets go of the request at the end.\<close>

lemma last_mark:
  assumes bal: "balanced rank ct f" and inv: "weighed ct f N" and N: "N = put_mark c (Ended md s) N0"
    and out: "at_end f md \<or> route f (md_name md) s = None"
  shows "n_marks N0 c = {#}"
proof (rule only_mark [OF bal inv N])
  let ?num = "n_num N c"
  note wf = weighed_wf [OF inv]
  have "n_marks N c \<noteq> {#}" by (simp add: N)
  note at = bal_at(1) [OF bal wf net_wf_made [OF wf this]]
  have ok: "mark_ok f ?num (Ended md s)" by (rule net_wf_mark [OF wf, of _ c]) (simp add: N)
  have on: "ct_live ct ?num (md_name md)" using weighed_live(1) [OF inv, of "Ended md s" c] by (simp add: N)
  from flows_link [OF balanced_atD(3) [OF at] ok on] mark_weight [OF at ok] on out
  show "mark_val f ?num {} (ct_weight ct ?num) (Ended md s) = whole ct f ?num"
    by (auto simp: link_flows_def split: if_splits)
qed

text \<open>
  Where the numbers change, the request is one mark and no join has counted an arrival: any numbers
  will do.
\<close>

lemma settled:
  assumes bal: "balanced rank ct f" and inv: "weighed ct f N" and N: "N = put_mark c (Busy md) N0"
    and sets: "\<not> class_keeps f (md_class md)"
  shows "n_marks N0 c = {#}" "\<forall>j\<in>join_names f. n_joined N0 c j = 0"
proof -
  let ?num = "n_num N c"
  note wf = weighed_wf [OF inv]
  have made: "c < n_next N" by (rule net_wf_made [OF wf]) (simp add: N)
  note at = bal_at(1) [OF bal wf made]
  have reg: "registered f md" using net_wf_mark [OF wf, of "Busy md" c] by (simp add: N)
  obtain d where "?num = nums_of f d" using net_wf_num [OF wf made] by blast
  with bal reg sets have settle: "settles ct f ?num (md_name md)" by (simp add: balanced_def)
  then show none: "n_marks N0 c = {#}" by (intro only_mark [OF bal inv N]) (simp add: settles_def)
  have "unat (n_joined N0 c j) = 0" if jn: "j \<in> join_names f" for j
  proof (cases "j \<in> live_joins ct f ?num")
    case False
    with weighed_live(2) [OF inv jn, of c] have "n_joined N c j = 0" by blast
    then show ?thesis by (simp add: N)
  next
    case j: True
    have "all_or_none (need_of ct ?num j)
        (need_of ct ?num j + absorbed f ?num {j} (ct_pot ct ?num j) (n_joined N0 c))"
      using weighed_pot [OF inv j] settle j none by (simp add: N tot_def settles_def)
    moreover have "0 < need_of ct ?num j" using balanced_atD(5,7) [OF at j] by simp
    ultimately have "absorbed f ?num {j} (ct_pot ct ?num j) (n_joined N0 c) = 0" by simp
    with absorbed_le [OF jn, of "{j}" "n_joined N0 c" "ct_pot ct ?num j" ?num] balanced_atD(5) [OF at j]
    show ?thesis by simp
  qed
  then show "\<forall>j\<in>join_names f. n_joined N0 c j = 0" by (simp add: unat_eq_0)
qed

lemma weighed_renum:
  assumes bal: "balanced rank ct f" and inv: "weighed ct f N" and N: "N = put_mark c (Busy md) N0"
    and sets: "\<not> class_keeps f (md_class md)" and N': "N' = put_mark c (Busy md) (renum c (nums_of f d) N0)"
  shows "weighed ct f N'"
proof -
  note wf = weighed_wf [OF inv]
  note one = settled [OF bal inv N sets]
  have base: "net_wf f N0" using wf net_wf_base unfolding N by blast
  have c: "c < n_next N0" and reg: "registered f md"
    using net_wf_put [of f c "{#Busy md#}" N0 "Busy md"] wf by (simp_all add: N)
  have wf': "net_wf f N'" unfolding N'
    by (rule net_wf_change [OF net_wf_renum [OF base one(1)]]) (use c reg in auto)
  have at: "balanced_at rank ct f (nums_of f d)" "settles ct f (nums_of f d) (md_name md)"
    using bal reg sets by (simp_all add: balanced_def)
  have live': "net_live ct f N'"
    using one at(2) inv by (auto simp: weighed_def net_live_def N N' settles_def)
  have "absorbed f num A p (n_joined N0 c) = 0" for num A p
    using one(2) by (simp add: absorbed_def sum.neutral)
  then have "worth f (nums_of f d) A p c N' = p (md_name md)" for A p
    using one by (simp add: N' tot_def)
  moreover have "worth f num A p c' N' = worth f num A p c' N" "n_num N' c' = n_num N c'" if "c' \<noteq> c" for c' num A p
    using that by (simp_all add: N N')
  moreover have "n_num N' c = nums_of f d" by (simp add: N')
  ultimately have
    "all_or_none (whole ct f (n_num N' c')) (weight_at ct f c' N')"
    "j \<in> live_joins ct f (n_num N' c') \<Longrightarrow> all_or_none (need_of ct (n_num N' c') j) (pot_at ct f j c' N')" for c' j
    using weighed_weight [OF inv, of c'] weighed_pot [OF inv, of j c'] at(2)
    by (cases "c' = c"; simp add: settles_def)+
  with wf' live' show ?thesis unfolding weighed_def by blast
qed

text \<open>All other moves leave the numbers of the contexts alone.\<close>

lemma num_step:
  assumes "net_step f N N'" and "timers_ok f" and "c < n_next N"
  obtains "n_num N' c = n_num N c"
  | md N0 d where "\<not> class_keeps f (md_class md)" "N = put_mark c (Busy md) N0"
      "N' = put_mark c (Busy md) (renum c (nums_of f d) N0)"
proof -
  from assms(1) have "n_num N' c = n_num N c \<or> (\<exists>md N0 d. \<not> class_keeps f (md_class md) \<and>
      N = put_mark c (Busy md) N0 \<and> N' = put_mark c (Busy md) (renum c (nums_of f d) N0))"
  proof cases
    case (ns_renum md c' N0 d)
    then show ?thesis by (cases "c' = c") auto
  qed (use assms(2,3) in \<open>auto simp: timers_ok_def\<close>)
  with that show thesis by blast
qed

lemma fresh_step:
  assumes "net_step f N N'" and "net_wf f N" and "n_next N \<le> c"
  shows "n_joined N' c = (\<lambda>_. 0)"
    "n_marks N' c = {#} \<or>
      (\<exists>start d. fsm_start_mod f = Some start \<and> n_marks N' c = {#Busy start#} \<and> n_num N' c = nums_of f d)"
proof -
  have new: "n_marks N c = {#}" "n_joined N c = (\<lambda>_. 0)" using assms(2,3) by (simp_all add: net_wf_def)
  from assms(1) show "n_joined N' c = (\<lambda>_. 0)" using new by cases auto
  from assms(1) show "n_marks N' c = {#} \<or>
      (\<exists>start d. fsm_start_mod f = Some start \<and> n_marks N' c = {#Busy start#} \<and> n_num N' c = nums_of f d)"
    using new by cases (auto split: if_splits)
qed

text \<open>Marks stay on live modules.\<close>

lemma live_step:
  assumes inv: "weighed ct f N" and bal: "balanced rank ct f" and step: "net_step f N N'"
    and same: "\<And>c. c < n_next N \<Longrightarrow> n_num N' c = n_num N c"
  shows "net_live ct f N'"
proof -
  note wf = weighed_wf [OF inv]
  have live: "net_live ct f N" using inv by (simp add: weighed_def)
  have lives: "lives ct f (nums_of f d)" for d using bal balanced_atD(8) [of rank ct f "nums_of f d"] by (simp add: balanced_def)
  have at: "c < n_next N \<and> ct_live ct (n_num N c) (mark_name t) \<and> mark_ok f (n_num N c) t" if "N = put_mark c t N0" for c t N0
    using net_wf_made [OF wf, of c] net_wf_mark [OF wf, of t c] weighed_live(1) [OF inv, of t c] that by simp
  have old: "(\<forall>t\<in>#n_marks N' c. ct_live ct (n_num N' c) (mark_name t)) \<and>
      (\<forall>j\<in>join_names f. n_joined N' c j = 0 \<or> ct_live ct (n_num N' c) j)" if c: "c < n_next N" for c
  proof -
    define L where "L = ct_live ct (n_num N c)"
    have here: "\<forall>t\<in>#n_marks N c. L (mark_name t)" "\<forall>j\<in>join_names f. n_joined N c j = 0 \<or> L j"
      using live by (auto simp: net_live_def L_def)
    have "(\<forall>t\<in>#n_marks N' c. L (mark_name t)) \<and> (\<forall>j\<in>join_names f. n_joined N' c j = 0 \<or> L j)"
      using step
    proof cases
      case (ns_fork md k g c' N0)
      with here show ?thesis by (cases "c' = c") (auto simp: fork_marks_def)
    next
      case (ns_route md s md' c' N0)
      obtain d where d: "n_num N c = nums_of f d" using net_wf_num [OF wf c] by blast
      have "L (md_name md')" if "c' = c"
        using at [OF ns_route(1)] livesD(2) [OF lives [of d], of md s "md_name md'"] ns_route(3,4) that d
        by (simp add: L_def)
      with here ns_route(1,2) show ?thesis by (cases "c' = c") auto
    next
      case (ns_join md k g j N0 c' s N1)
      with here show ?thesis by (cases "c' = c") auto
    qed (use here c in \<open>auto split: if_splits\<close>)
    then show ?thesis by (simp add: L_def same [OF c])
  qed
  have "(\<forall>t\<in>#n_marks N' c. ct_live ct (n_num N' c) (mark_name t)) \<and>
      (\<forall>j\<in>join_names f. n_joined N' c j = 0 \<or> ct_live ct (n_num N' c) j)" if "n_next N \<le> c" for c
    using fresh_step [OF step wf that] livesD(1) [OF lives] by fastforce
  with old show ?thesis unfolding net_live_def by (meson not_le)
qed

lemma weighed_step:
  assumes bal: "balanced rank ct f" and inv: "weighed ct f N" and start: "start_ok f" and step: "net_step f N N'"
  shows "weighed ct f N'"
proof (cases "\<exists>c md N0 d. \<not> class_keeps f (md_class md) \<and> N = put_mark c (Busy md) N0 \<and>
    N' = put_mark c (Busy md) (renum c (nums_of f d) N0)")
  case True
  with weighed_renum [OF bal inv] show ?thesis by blast
next
  case False
  note wf = weighed_wf [OF inv]
  have ok: "timers_ok f" "never_stops f" using bal by (simp_all add: balanced_def)
  have same: "n_num N' c = n_num N c" if "c < n_next N" for c
    using num_step [OF step ok(1) that] False by metis
  have wf': "net_wf f N'" by (rule net_wf_step [OF wf start step same])
  have live': "net_live ct f N'" by (rule live_step [OF inv bal step same])
  have flow: "all_or_none (need (n_num N' c)) (worth f (n_num N' c) A (p (n_num N' c)) c N')"
    if q: "Q (n_num N' c)" and fl: "\<And>d. Q (nums_of f d) \<Longrightarrow>
        flows f (nums_of f d) (ct_live ct (nums_of f d)) A (p (nums_of f d)) (need (nums_of f d))"
      and now: "Q (n_num N c) \<Longrightarrow> all_or_none (need (n_num N c)) (worth f (n_num N c) A (p (n_num N c)) c N)"
    for c A p need Q
  proof (cases "c < n_next N")
    case True
    note num = same [OF True]
    obtain d where "n_num N c = nums_of f d" using net_wf_num [OF wf True] by blast
    with fl [of d] q num have fl: "flows f (n_num N c) (ct_live ct (n_num N c)) A (p (n_num N c)) (need (n_num N c))"
      by simp
    from total_step [OF fl wf refl weighed_live(1) [OF inv] bal_at(2) [OF bal wf True] bal_room [OF bal inv] ok(2)
        step num now] q num
    show ?thesis by simp
  next
    case False
    then have "n_next N \<le> c" by simp
    note new = fresh_step [OF step wf this]
    have "all_or_none (need (nums_of f d)) (p (nums_of f d) (md_name start))"
      if "fsm_start_mod f = Some start" "Q (nums_of f d)" for start d by (rule flows_start [OF fl [OF that(2)] that(1)])
    with new q show ?thesis by fastforce
  qed
  have at: "balanced_at rank ct f (nums_of f d)" for d using bal by (simp add: balanced_def)
  have "all_or_none (whole ct f (n_num N' c)) (weight_at ct f c N')" for c
    by (rule flow [where need = "whole ct f" and p = "ct_weight ct" and Q = "\<lambda>_. True",
          OF TrueI balanced_atD(3) [OF at] weighed_weight [OF inv]])
  moreover have "all_or_none (need_of ct (n_num N' c) j) (pot_at ct f j c N')"
    if "j \<in> live_joins ct f (n_num N' c)" for j c
    by (rule flow [where need = "\<lambda>num. need_of ct num j" and p = "\<lambda>num. ct_pot ct num j" and
          Q = "\<lambda>num. j \<in> live_joins ct f num", OF that balanced_atD(4) [OF at] weighed_pot [OF inv]])
  ultimately show ?thesis using wf' live' unfolding weighed_def by blast
qed

text \<open>A move inside the machine leaves the context at work.\<close>

lemma conns_ok_same:
  assumes "conns_ok N" and "\<And>c. n_marks N' c = {#} \<longleftrightarrow> n_marks N c = {#}"
    and "n_conn N' = n_conn N" "n_waiting N' = n_waiting N" "n_next_conn N' = n_next_conn N"
    and "\<And>c. n_exit N c \<Longrightarrow> n_exit N' c"
  shows "conns_ok N'"
proof -
  have "serving N' = serving N" using assms(2,3) by (simp add: serving_def fun_eq_iff)
  moreover have "n_marks N c \<noteq> {#} \<or> n_exit N c \<Longrightarrow> n_marks N' c \<noteq> {#} \<or> n_exit N' c" for c
    using assms(2,6) by blast
  ultimately show ?thesis using assms(1,3-5) unfolding conns_but_def by simp metis
qed

lemma conns_ok_drop:
  assumes "conns_ok N" and "n_marks N' = (n_marks N)(c := {#})" and "n_exit N' c"
    and "n_conn N' = n_conn N" "n_waiting N' = n_waiting N" "n_next_conn N' = n_next_conn N"
    and "\<And>c'. c' \<noteq> c \<Longrightarrow> n_exit N' c' = n_exit N c'"
  shows "conns_ok N'"
proof -
  have "\<exists>c'. n_conn N c' = Some k \<and> (n_marks N' c' \<noteq> {#} \<or> n_exit N' c')" if "n_conn N i = Some k" for i k
  proof -
    from assms(1) that obtain c' where c': "n_conn N c' = Some k" "n_marks N c' \<noteq> {#} \<or> n_exit N c'"
      by (auto simp: conns_but_def)
    then show ?thesis using assms(2,3,7) by (cases "c' = c") auto
  qed
  with assms(1,2,4-6) show ?thesis by (auto simp: conns_but_def serving_def split: if_splits)
qed

lemma conns_but_take:
  assumes ok: "conns_ok (put_mark c t N)" and c: "n_conn N c = Some k"
  shows "conns_but {k} N"
proof -
  let ?N = "put_mark c t N"
  have serving: "serving ?N i c'" if "serving N i c'" for i c'
    using that by (auto simp: serving_def)
  have "\<exists>c''. n_conn N c'' = Some i \<and> (n_marks N c'' \<noteq> {#} \<or> n_exit N c'')"
    if i: "n_conn N c' = Some i" "i \<notin> {k}" for i c'
  proof -
    have "n_conn ?N c' = Some i" using i(1) by simp
    then obtain c'' where c'': "n_conn ?N c'' = Some i" "n_marks ?N c'' \<noteq> {#} \<or> n_exit ?N c''"
      using ok unfolding conns_but_def by blast
    with c i(2) have "c'' \<noteq> c" by auto
    with c'' show ?thesis by (intro exI [of _ c'']) simp
  qed
  moreover have "c' = c''" if "serving N i c'" "serving N i c''" for i c' c''
    using ok that [THEN serving] unfolding conns_but_def by blast
  moreover have "\<forall>i c'. n_conn N c' = Some i \<longrightarrow> i < n_next_conn N \<and> i \<notin># n_waiting N"
    "\<forall>i\<in>#n_waiting N. i < n_next_conn N \<and> count (n_waiting N) i = 1"
    using ok by (simp_all add: conns_but_def)
  ultimately show ?thesis unfolding conns_but_def by blast
qed

lemma conns_ok_open:
  assumes ok: "conns_but {k} N" and wf: "net_wf f N" and k: "k < n_next_conn N" "k \<notin># n_waiting N"
    and free: "\<And>c. \<not> serving N k c"
  shows "conns_ok (open_ctx start k num N)"
proof -
  let ?c = "n_next N"
  have new: "n_conn N ?c = None" "n_marks N ?c = {#}" using wf by (auto simp: net_wf_def)
  have "\<exists>c'. n_conn (open_ctx start k num N) c' = Some i \<and>
      (n_marks (open_ctx start k num N) c' \<noteq> {#} \<or> n_exit (open_ctx start k num N) c')"
    if "n_conn (open_ctx start k num N) c = Some i" for c i
  proof (cases "i = k")
    case True
    then show ?thesis by (intro exI [of _ ?c]) simp
  next
    case False
    with that have "n_conn N c = Some i" by (auto split: if_splits)
    with ok False obtain c' where "n_conn N c' = Some i" "n_marks N c' \<noteq> {#} \<or> n_exit N c'"
      unfolding conns_but_def by blast
    with new show ?thesis by (intro exI [of _ c']) auto
  qed
  moreover have "c = c'" if "serving (open_ctx start k num N) i c" "serving (open_ctx start k num N) i c'" for i c c'
    using that ok free new unfolding conns_but_def serving_def by (fastforce split: if_splits)
  ultimately show ?thesis
    using ok k unfolding conns_but_def by (auto split: if_splits)
qed

lemma join_keeps_marks:
  assumes bal: "balanced rank ct f" and inv: "weighed ct f N" and inv': "weighed ct f N'"
    and N: "N = put_mark c (Busy md) N0" and md: "md_class md = JoinModule k g"
    and j: "j = n_joined N0 c (md_name md) + 1" and N1: "N1 = set_joined c (md_name md) j N0"
    and N': "N' = (if unat j = n_num N0 c (md_name md) then put_mark c (Ended md s) N1 else N1)"
  shows "n_marks N' c \<noteq> {#}"
proof -
  let ?num = "n_num N c"
  note wf = weighed_wf [OF inv]
  have reg: "registered f md" using net_wf_mark [OF wf, of "Busy md" c] by (simp add: N)
  have made: "c < n_next N" by (rule net_wf_made [OF wf]) (simp add: N)
  note at = bal_at [OF bal wf made]
  have room: "unat (n_joined N0 c (md_name md)) < ?num (md_name md)"
    using bal_room [OF bal inv, of c] md by (auto simp: has_room_def N)
  have "ct_live ct ?num (md_name md)" using weighed_live(1) [OF inv, of "Busy md" c] by (simp add: N)
  then have pos: "0 < ct_weight ct ?num (md_name md)" by (rule balanced_atD(2) [OF at(1) reg])
  from join_conserves [OF reg md, of "n_joined N0 c" ?num, OF room at(2), of "{}" "ct_weight ct ?num" s "n_marks N0 c"] pos
  have "worth f ?num {} (ct_weight ct ?num) c N' \<noteq> 0"
    by (auto simp: N' N1 j N split: if_splits)
  moreover have "n_num N' c = ?num" by (simp add: N' N1 N)
  ultimately show ?thesis using marks_weight [OF bal inv', of c] by metis
qed

lemma conns_step:
  assumes bal: "balanced rank ct f" and inv: "weighed ct f N" and start: "start_ok f"
    and ok: "conns_ok N" and step: "net_step f N N'"
  shows "conns_ok N'"
proof -
  note inv' = weighed_step [OF bal inv start step]
  note wf = weighed_wf [OF inv]
  from step show ?thesis
  proof cases
    case (ns_stop md c)
    have "registered f md" using net_wf_mark [OF weighed_wf [OF inv], of "Busy md" c] by (simp add: ns_stop)
    with bal ns_stop(2) show ?thesis by (auto simp: balanced_def never_stops_def)
  next
    case (ns_fork md k g c N0)
    have reg: "registered f md" using net_wf_mark [OF wf, of "Busy md" c] by (simp add: ns_fork)
    have made: "c < n_next N" by (rule net_wf_made [OF wf]) (simp add: ns_fork)
    have "0 < n_num N c (md_name md)"
      using livesD(3) [OF balanced_atD(8) [OF bal_at(1) [OF bal wf made]] reg] ns_fork(3)
        weighed_live(1) [OF inv, of "Busy md" c]
      by (simp add: ns_fork(1))
    then have "fork_marks md (n_num N0 c (md_name md)) \<noteq> {#}"
      by (simp add: fork_marks_def mset_set_empty_iff ns_fork(1))
    then show ?thesis by (intro conns_ok_same [OF ok]) (auto simp: ns_fork)
  next
    case (ns_join md k g j N0 c s N1)
    have "n_marks N' c \<noteq> {#}"
      by (rule join_keeps_marks [OF bal inv inv' ns_join(1,3,4,6,2)])
    then show ?thesis by (intro conns_ok_same [OF ok]) (auto simp: ns_join split: if_splits)
  next
    case (ns_abandon md s c N0)
    have "n_marks N0 c = {#}" by (rule last_mark [OF bal inv ns_abandon(1)]) (simp add: ns_abandon)
    then show ?thesis by (intro conns_ok_drop [OF ok, of _ c]) (auto simp: ns_abandon fun_eq_iff)
  next
    case (ns_finish md N0 c k start s d)
    have none: "n_marks N0 c = {#}" by (rule last_mark [OF bal inv ns_finish(1)]) (simp add: ns_finish)
    have k: "k < n_next_conn N0" "k \<notin># n_waiting N0"
      using ok ns_finish by (auto simp: conns_but_def)
    have free: "\<not> serving N0 k c'" for c'
    proof
      assume c': "serving N0 k c'"
      with none have "c' \<noteq> c" by (auto simp: serving_def)
      moreover have "serving N k c'" "serving N k c" using c' ns_finish by (auto simp: serving_def)
      ultimately show False using ok unfolding conns_but_def by blast
    qed
    have "conns_but {k} N0" by (rule conns_but_take) (use ok ns_finish(1,5) in simp_all)
    then show ?thesis
      unfolding ns_finish(2) by (rule conns_ok_open [OF _ net_wf_base k free]) (use weighed_wf [OF inv] ns_finish(1) in simp)
  next
    case (ns_close md c s)
    have "n_marks N' c = {#}" by (rule last_mark [OF bal inv ns_close(1)]) (simp add: ns_close)
    then show ?thesis by (intro conns_ok_drop [OF ok, of _ c]) (use ns_close in \<open>auto simp: fun_eq_iff\<close>)
  next
    case (ns_accept start k N0 d)
    have "conns_but {k} N0 \<and> k < n_next_conn N0 \<and> k \<notin># n_waiting N0 \<and> (\<forall>c. n_conn N0 c \<noteq> Some k)"
      using ok unfolding ns_accept(1) conns_but_def serving_def by (auto split: if_splits)
    then show ?thesis unfolding ns_accept(2)
      by (intro conns_ok_open [where f = f])
        (use weighed_wf [OF inv] in \<open>auto simp: ns_accept(1) serving_def\<close>)
  next
    case ns_listen
    have "n_next_conn N \<notin># n_waiting N" using ok by (auto simp: conns_but_def)
    with ok show ?thesis unfolding ns_listen conns_but_def serving_def
      by (auto simp: less_Suc_eq not_in_iff)
  qed (auto intro!: conns_ok_same [OF ok])
qed

text \<open>The net of a balanced machine, from a state in which no connection has been accepted.\<close>

definition net_start :: "'d net \<Rightarrow> bool" where
  "net_start N \<longleftrightarrow>
     n_marks N = (\<lambda>_. {#}) \<and> n_joined N = (\<lambda>_ _. 0) \<and> n_conn N = Map.empty \<and> n_next N = 0 \<and>
     (\<forall>k\<in>#n_waiting N. k < n_next_conn N \<and> count (n_waiting N) k = 1)"

definition net_inv :: "(string \<Rightarrow> nat) \<Rightarrow> certificate \<Rightarrow> 'd fsm \<Rightarrow> 'd net \<Rightarrow> bool" where
  "net_inv rank ct f N \<longleftrightarrow> (balanced rank ct f \<and> start_ok f \<longrightarrow> weighed ct f N \<and> conns_ok N)"

lemma net_start_inv: "net_start N \<Longrightarrow> net_inv rank ct f N"
  by (simp add: net_start_def net_inv_def weighed_def net_wf_def net_live_def conns_but_def serving_def)

lemma net_step_inv: "net_inv rank ct f N \<Longrightarrow> net_step f N N' \<Longrightarrow> net_inv rank ct f N'"
  unfolding net_inv_def using weighed_step conns_step by blast

interpretation net: invariant net_start "net_step f" "net_inv rank ct f" for rank ct f
  by unfold_locales (rule net_start_inv, assumption, rule net_step_inv)

end
