(* ===== verification/Net_Refinement.thy ===== *)
theory Net_Refinement
  imports Single_Exchange Net_Balance
begin

text \<open>
  The server implements the net: what the pending operations, the join counters and the contexts
  say about control is a state of the net (\<open>net_of\<close>), and every turn of the event loop is a
  sequence of moves. Conservation of weights then holds for the server: a balanced machine
  never loses a connection.
\<close>

section \<open>The net of a server state\<close>

text \<open>The mark a pending handler stands for. Time-outs stand for none.\<close>

fun mark_of :: "'d handler \<Rightarrow> (ctx_id \<times> 'd mark) option" where
  "mark_of (On_read_version md c len) = Some (c, Busy md)"
| "mark_of (On_read_head md c len) = Some (c, Busy md)"
| "mark_of (On_read_body md c len) = Some (c, Busy md)"
| "mark_of (On_write_resp md c) = Some (c, Busy md)"
| "mark_of (On_connect md c ip port) = Some (c, Busy md)"
| "mark_of (On_write_req md c req) = Some (c, Busy md)"
| "mark_of (On_recv_resp_head md c len) = Some (c, Busy md)"
| "mark_of (On_recv_resp_body md c len) = Some (c, Busy md)"
| "mark_of (On_forked md c s) = Some (c, Ended md s)"
| "mark_of (On_joined md c s) = Some (c, Ended md s)"
| "mark_of _ = None"

fun accept_of :: "'d handler \<Rightarrow> conn_id option" where
  "accept_of (On_accepted k) = Some k"
| "accept_of _ = None"

fun pend_marks :: "'d async_op list \<Rightarrow> ctx_id \<Rightarrow> 'd mark multiset" where
  "pend_marks [] c = {#}"
| "pend_marks (a # as) c =
     (case mark_of (op_handler a) of
        Some (c', t) \<Rightarrow> if c' = c then {#t#} else {#}
      | None \<Rightarrow> {#}) + pend_marks as c"

fun pend_accepts :: "'d async_op list \<Rightarrow> conn_id multiset" where
  "pend_accepts [] = {#}"
| "pend_accepts (a # as) =
     (case accept_of (op_handler a) of Some k \<Rightarrow> {#k#} | None \<Rightarrow> {#}) + pend_accepts as"

definition joined_at :: "'d world \<Rightarrow> ctx_id \<Rightarrow> string \<Rightarrow> u16" where
  "joined_at w c n =
     (case mdata w c n of Some (Some (Join_data d)) \<Rightarrow> jd_module_joined_num d | _ \<Rightarrow> 0)"

fun data_nums :: "'d fsm \<Rightarrow> 'd option \<Rightarrow> string \<Rightarrow> nat" where
  "data_nums f (Some d) = nums_of f d"
| "data_nums f None = (\<lambda>_. 0)"

definition num_at :: "'d world \<Rightarrow> ctx_id \<Rightarrow> string \<Rightarrow> nat" where
  "num_at w c = data_nums (w_fsm w) (Option.bind (w_contexts w c) cx_data)"

definition exit_at :: "'d world \<Rightarrow> ctx_id \<Rightarrow> bool" where
  "exit_at w c = (case w_contexts w c of Some cx \<Rightarrow> cx_exit cx | None \<Rightarrow> False)"

definition conn_at :: "'d world \<Rightarrow> ctx_id \<rightharpoonup> conn_id" where
  "conn_at w c = map_option cx_conn (w_contexts w c)"

definition net_of :: "'d world \<Rightarrow> 'd net" where
  "net_of w =
     \<lparr> n_marks = pend_marks (w_pending w), n_joined = joined_at w, n_num = num_at w, n_exit = exit_at w,
       n_conn = conn_at w, n_next = w_next_ctx w, n_waiting = pend_accepts (w_pending w),
       n_next_conn = w_next_conn w \<rparr>"

lemma pend_append [simp]:
  "pend_marks (as @ bs) c = pend_marks as c + pend_marks bs c"
  "pend_accepts (as @ bs) = pend_accepts as + pend_accepts bs"
  by (induction as) (auto split: option.split)

lemma mark_accept: "mark_of h = Some x \<Longrightarrow> accept_of h = None"
  by (cases h) auto

lemma net_of_start_op:
  "net_of (start_op a w) =
     (net_of w)\<lparr>n_marks := (\<lambda>c. pend_marks (w_pending w @ [a]) c), n_waiting := pend_accepts (w_pending w @ [a])\<rparr>"
  by (simp add: net_of_def start_op_def joined_at_def num_at_def exit_at_def conn_at_def mdata_def fun_eq_iff)

lemma net_of_mark:
  assumes "mark_of (op_handler a) = Some (c, t)"
  shows "net_of (start_op a w) = put_mark c t (net_of w)"
  using assms mark_accept [OF assms]
  by (simp add: net_of_start_op put_marks_def) (simp add: net_of_def fun_eq_iff)

lemma net_of_dead:
  assumes "mark_of (op_handler a) = None" "accept_of (op_handler a) = None"
  shows "net_of (start_op a w) = net_of w"
  using assms by (simp add: net_of_start_op) (simp add: net_of_def fun_eq_iff)

section \<open>Code that does not touch the net\<close>

definition idle :: "'d world \<Rightarrow> 'd world \<Rightarrow> bool" where
  "idle w w' \<longleftrightarrow> w_fsm w' = w_fsm w \<and> net_of w' = net_of w"

lemma idle_refl [simp]: "idle w w"
  by (simp add: idle_def)

lemma idle_trans: "idle u v \<Longrightarrow> idle v w \<Longrightarrow> idle u w"
  by (simp add: idle_def)

lemma idle_dead [simp]:
  "mark_of (op_handler a) = None \<Longrightarrow> accept_of (op_handler a) = None \<Longrightarrow> idle w (start_op a w') = idle w w'"
  by (simp add: idle_def net_of_dead)

abbreviation idles :: "'d world \<Rightarrow> ('r \<times> 'd world) res \<Rightarrow> bool" where
  "idles w r \<equiv> yields r (\<lambda>(x, w'). idle w w')"

lemma idle_bind:
  assumes "idle w0 w" and "idles w r" and "\<And>x w'. idle w0 w' \<Longrightarrow> yields (g (x, w')) P"
  shows "yields (rbind r g) P"
  by (rule yields_bind [OF assms(2)]) (auto intro: assms(3) idle_trans [OF assms(1)])

lemma idle_bind_world:
  assumes "idle w0 w" and "yields r (idle w)" and "\<And>w'. idle w0 w' \<Longrightarrow> yields (g w') P"
  shows "yields (rbind r g) P"
  by (rule yields_bind [OF assms(2)]) (auto intro: assms(3) idle_trans [OF assms(1)])

lemma idle_put_ctx:
  assumes "w_contexts w c = Some cx0" and "cx_exit cx = cx_exit cx0" "cx_conn cx = cx_conn cx0"
    and "cx_data cx = cx_data cx0"
    and "\<And>n. joined_at (put_ctx c cx w) c n = joined_at w c n"
  shows "idle w (put_ctx c cx w)"
proof -
  have "joined_at (put_ctx c cx w) c' n = joined_at w c' n" for c' n
    using assms(5) by (cases "c' = c") (auto simp: joined_at_def mdata_def)
  with assms(1-4) show ?thesis
    by (auto simp: idle_def net_of_def num_at_def exit_at_def conn_at_def fun_eq_iff) (simp_all add: put_ctx_def)
qed

lemma joined_at_map:
  "w_contexts w c = Some cx0 \<Longrightarrow> cx_module_data_map cx = cx_module_data_map cx0 \<Longrightarrow>
     joined_at (put_ctx c cx w) c n = joined_at w c n"
  by (simp add: joined_at_def mdata_def)

lemma get_module_data_idle: "idles w (get_module_data c n w)"
proof (rule yieldsI, clarify)
  fix p w' assume get: "get_module_data c n w = Inr (p, w')"
  then obtain cx where cx: "w_contexts w c = Some cx" by (auto simp: get_module_data_def get_ctx_def)
  show "idle w w'"
  proof (cases "mdata w c n")
    case None
    with get get_module_data_absent [OF cx None] show ?thesis
      by (auto intro!: idle_put_ctx [OF cx] simp: joined_at_def mdata_def cx sm_find_put)
  next
    case (Some q)
    with get get_module_data_present [OF Some] show ?thesis by simp
  qed
qed

lemma tcp_modify_idle: "yields (tcp_modify md c g w) (idle w)"
proof (rule yieldsI)
  fix w' assume "tcp_modify md c g w = Inr w'"
  then obtain d w1 where get: "tcp_get md c w = Inr (d, w1)"
    and put: "put_module_data c (md_name md) (Tcp_data (g d)) w1 = Inr w'"
    by (auto simp: tcp_modify_def)
  from yieldsD [OF tcp_get_same get] have w1: "w1 = w" and d: "mdata w c (md_name md) = Some (Some (Tcp_data d))"
    by auto
  from put show "idle w w'"
  proof (rule put_module_data_Inr)
    fix cx assume cx: "w_contexts w1 c = Some cx"
      and w': "w' = put_ctx c (cx\<lparr>cx_module_data_map := sm_put (md_name md) (Some (Tcp_data (g d))) (cx_module_data_map cx)\<rparr>) w1"
      and md: "\<And>c' n'. mdata w' c' n' = (if c' = c \<and> n' = md_name md then Some (Some (Tcp_data (g d))) else mdata w1 c' n')"
    have joined: "joined_at w' c n = joined_at w c n" for n using d by (auto simp: joined_at_def md w1)
    show "idle w w'"
      unfolding w' w1 by (rule idle_put_ctx) (use cx joined in \<open>simp_all add: w1 w'\<close>)
  qed
qed

lemma tcp_lock_idle: "yields (tcp_lock md c w) (idle w)" "yields (tcp_unlock md c w) (idle w)"
  unfolding tcp_lock_def tcp_unlock_def
  by (rule yields_bind [OF tcp_get_same], auto intro!: tcp_modify_idle)

lemma timer_idle:
  "idles w (request_timer md c w)" "idles w (response_timer md c w)" "idles w (tcp_timer md c w)"
proof -
  show "idles w (request_timer md c w)" "idles w (response_timer md c w)"
    unfolding request_timer_def response_timer_def
    by (rule yields_bind [OF get_module_data_idle], auto intro: yields_any)+
  show "idles w (tcp_timer md c w)"
    unfolding tcp_timer_def by (rule yields_bind [OF tcp_get_same]) auto
qed

lemma the_client_idle: "idles w (tcp_the_client md c w)"
  by (rule yields_mono [OF the_client_at]) auto

lemma idle_world [simp]:
  "idle w0 (w\<lparr>w_pools := ps, w_clients := hp\<rparr>) = idle w0 w"
  "idle w0 (w\<lparr>w_clients := hp, w_next_client := k\<rparr>) = idle w0 w"
  "idle w0 (w\<lparr>w_clients := hp\<rparr>) = idle w0 w"
  "idle w0 (w\<lparr>w_pools := ps\<rparr>) = idle w0 w"
  "idle (w\<lparr>w_pools := ps, w_clients := hp\<rparr>) w0 = idle w w0"
  by (simp_all add: idle_def net_of_def joined_at_def num_at_def exit_at_def conn_at_def fun_eq_iff)

text \<open>Timers whose cancellation reports no error.\<close>

definition timers_cancel :: "asio_env \<Rightarrow> bool" where
  "timers_cancel env \<longleftrightarrow> (\<forall>t. \<not> ec_set (ev_timer_cancel env t))"

lemma cancel_timer_idle:
  assumes "timers_cancel env"
  shows "yields (request_cancel_timer env md c w) (\<lambda>(ok, w'). ok \<and> idle w w')"
    "yields (response_cancel_timer env md c w) (\<lambda>(ok, w'). ok \<and> idle w w')"
    "yields (cancel_time_out_timer env md c w) (\<lambda>(ok, w'). ok \<and> idle w w')"
  unfolding request_cancel_timer_def response_cancel_timer_def cancel_time_out_timer_def
  by (rule yields_bind [OF timer_idle(1)] yields_bind [OF timer_idle(2)] yields_bind [OF timer_idle(3)],
      use assms in \<open>auto simp: timers_cancel_def\<close>)+

section \<open>Code of a module at work\<close>

text \<open>
  A module that is at work leaves all marks where they are; the methods of the application it calls
  may give the context other numbers.
\<close>

definition tends :: "'d module \<Rightarrow> ctx_id \<Rightarrow> 'd world \<Rightarrow> 'd world \<Rightarrow> bool" where
  "tends md c w w' \<longleftrightarrow>
     w_fsm w' = w_fsm w \<and>
     (net_of w' = net_of w \<or>
      \<not> class_keeps (w_fsm w) (md_class md) \<and> (\<exists>d. net_of w' = renum c (nums_of (w_fsm w) d) (net_of w)))"

lemma idle_tends: "idle w w' \<Longrightarrow> tends md c w w'"
  by (simp add: idle_def tends_def)

lemma tends_refl [simp]: "tends md c w w"
  by (simp add: tends_def)

lemma tends_trans: "tends md c u v \<Longrightarrow> tends md c v w \<Longrightarrow> tends md c u w"
  by (auto simp: tends_def)

lemma tends_idle: "tends md c u v \<Longrightarrow> idle v w \<Longrightarrow> tends md c u w"
  by (blast intro: tends_trans idle_tends)

lemma tends_dead [simp]:
  "mark_of (op_handler a) = None \<Longrightarrow> accept_of (op_handler a) = None \<Longrightarrow>
     tends md c w (start_op a w') = tends md c w w'"
  by (simp add: tends_def net_of_dead)

lemma tends_fsm: "tends md c w w' \<Longrightarrow> w_fsm w' = w_fsm w"
  by (simp add: tends_def)

abbreviation tends_to :: "'d module \<Rightarrow> ctx_id \<Rightarrow> 'd world \<Rightarrow> ('r \<times> 'd world) res \<Rightarrow> bool" where
  "tends_to md c w r \<equiv> yields r (\<lambda>(x, w'). tends md c w w')"

lemma tends_bind:
  assumes "tends md c w0 w" and "tends_to md c w r" and "\<And>x w'. tends md c w0 w' \<Longrightarrow> yields (g (x, w')) P"
  shows "yields (rbind r g) P"
  by (rule yields_bind [OF assms(2)]) (auto intro: assms(3) tends_trans [OF assms(1)])

lemma tends_bind_world:
  assumes "tends md c w0 w" and "yields r (tends md c w)" and "\<And>w'. tends md c w0 w' \<Longrightarrow> yields (g w') P"
  shows "yields (rbind r g) P"
  by (rule yields_bind [OF assms(2)]) (auto intro: assms(3) tends_trans [OF assms(1)])

lemma still_bind:
  assumes "tends md c w0 w" and "idles w r" and "\<And>x w'. tends md c w0 w' \<Longrightarrow> yields (g (x, w')) P"
  shows "yields (rbind r g) P"
  by (rule yields_bind [OF assms(2)]) (auto intro: assms(3) tends_idle [OF assms(1)])

lemma still_bind_world:
  assumes "tends md c w0 w" and "yields r (idle w)" and "\<And>w'. tends md c w0 w' \<Longrightarrow> yields (g w') P"
  shows "yields (rbind r g) P"
  by (rule yields_bind [OF assms(2)]) (auto intro: assms(3) tends_idle [OF assms(1)])

text \<open>The methods of the application that belong to a module.\<close>

definition hooks :: "'d module \<Rightarrow> ('d \<Rightarrow> 'd) \<Rightarrow> bool" where
  "hooks md g \<longleftrightarrow> (\<forall>f. class_keeps f (md_class md) \<longrightarrow> keeps_nums f g)"

lemma app_call_net:
  assumes "app_call c g w = Inr (x, w')"
  shows "\<exists>d. n_num (net_of w) c = nums_of (w_fsm w) d \<and> w_fsm w' = w_fsm w \<and>
    net_of w' = renum c (nums_of (w_fsm w) (snd (g d))) (net_of w)"
proof -
  from assms obtain cx d where cx: "w_contexts w c = Some cx" "cx_data cx = Some d"
    and w': "w' = put_ctx c (cx\<lparr>cx_data := Some (snd (g d))\<rparr>) w"
    by (auto simp: app_call_def get_ctx_def Let_def split_beta split: option.splits)
  have "joined_at w' = joined_at w"
    using cx by (auto simp: w' joined_at_def mdata_def fun_eq_iff)
  moreover have "exit_at w' = exit_at w" "conn_at w' = conn_at w"
    "num_at w' = (num_at w)(c := nums_of (w_fsm w) (snd (g d)))"
    using cx by (auto simp: w' exit_at_def conn_at_def num_at_def fun_eq_iff)
  ultimately have "net_of w' = renum c (nums_of (w_fsm w) (snd (g d))) (net_of w)"
    by (simp add: net_of_def renum_def) (simp add: w' put_ctx_def)
  then show ?thesis using cx by (intro exI [of _ d]) (simp add: net_of_def num_at_def w' put_ctx_def)
qed

lemma app_call_tends:
  assumes "hooks md (\<lambda>d. snd (g d))"
  shows "tends_to md c w (app_call c g w)"
proof (rule yieldsI, clarify)
  fix x w' assume "app_call c g w = Inr (x, w')"
  from app_call_net [OF this] obtain d where d: "n_num (net_of w) c = nums_of (w_fsm w) d" "w_fsm w' = w_fsm w"
    "net_of w' = renum c (nums_of (w_fsm w) (snd (g d))) (net_of w)" by blast
  show "tends md c w w'"
  proof (cases "class_keeps (w_fsm w) (md_class md)")
    case True
    with assms have "nums_of (w_fsm w) (snd (g d)) = n_num (net_of w) c"
      by (simp add: hooks_def keeps_nums_def d)
    with d renum_same(1) [of c "net_of w"] show ?thesis by (simp add: tends_def)
  qed (use d in \<open>auto simp: tends_def\<close>)
qed

lemma app_do_tends: "hooks md g \<Longrightarrow> yields (app_do c g w) (tends md c w)"
  unfolding app_do_def by (rule yields_bind [OF app_call_tends]) auto

lemma read_accepted_tends: "hooks md (\<lambda>d. snd (impl d)) \<Longrightarrow> tends_to md c w (read_accepted c ec impl w)"
  using app_call_tends [of md impl c w] by (simp add: read_accepted_def)

section \<open>The interpreter moves marks\<close>

abbreviation moves :: "'d fsm \<Rightarrow> 'd net \<Rightarrow> 'd net \<Rightarrow> bool" where
  "moves f \<equiv> (net_step f)\<^sup>*\<^sup>*"

text \<open>Code that takes the net from \<open>N\<close> to where it leaves the world.\<close>

abbreviation drives :: "'d fsm \<Rightarrow> 'd net \<Rightarrow> 'd world res \<Rightarrow> bool" where
  "drives f N r \<equiv> yields r (\<lambda>w'. w_fsm w' = f \<and> moves f N (net_of w'))"

lemma drives_first: "net_step f N N' \<Longrightarrow> drives f N' r \<Longrightarrow> drives f N r"
  by (erule yields_mono) (auto intro: converse_rtranclp_into_rtranclp)

lemma drives_moves: "moves f N N' \<Longrightarrow> drives f N' r \<Longrightarrow> drives f N r"
  by (erule yields_mono) auto

text \<open>What \<open>Module::run\<close> does for a context, started with a mark at the module.\<close>

definition ran_for :: "'d module \<Rightarrow> ctx_id \<Rightarrow> 'd world \<Rightarrow> ModState \<times> 'd world \<Rightarrow> bool" where
  "ran_for md c w r \<longleftrightarrow>
     w_fsm (snd r) = w_fsm w \<and>
     moves (w_fsm w) (put_mark c (Busy md) (net_of w))
       (if fst r = Mod_async then net_of (snd r) else put_mark c (Ended md (fst r)) (net_of (snd r)))"

lemma ran_async:
  "w_fsm w' = w_fsm w \<Longrightarrow> net_of w' = put_mark c (Busy md) (net_of w) \<Longrightarrow> ran_for md c w (Mod_async, w')"
  by (simp add: ran_for_def)

lemma tends_moves:
  "tends md c w w' \<Longrightarrow> moves (w_fsm w) (put_mark c (Busy md) (net_of w)) (put_mark c (Busy md) (net_of w'))"
  by (auto simp: tends_def intro: r_into_rtranclp [where r = "net_step (w_fsm w)", OF ns_renum])

lemma ran_end:
  assumes "tends md c w w'" and "may_end (w_fsm w) (md_class md) s (n_num (net_of w') c)" and "s \<noteq> Mod_async"
  shows "ran_for md c w (s, w')"
proof -
  have "moves (w_fsm w) (put_mark c (Busy md) (net_of w)) (put_mark c (Ended md s) (net_of w'))"
    using tends_moves [OF assms(1)] ns_end [OF assms(2)] by (rule rtranclp.rtrancl_into_rtrancl)
  with assms(3) tends_fsm [OF assms(1)] show ?thesis by (simp add: ran_for_def)
qed

text \<open>A new context has one mark, at the start module.\<close>

lemma begins_joined:
  assumes "begins conn w cx"
  shows "(case sm_find (cx_module_data_map cx) n of
            Some (Some (Join_data d)) \<Rightarrow> jd_module_joined_num d | _ \<Rightarrow> 0) = 0"
  using assms
  by (auto simp: begins_def fresh_data_def split: option.splits module_class.splits module_data.splits)

lemma net_of_new:
  assumes "begins conn w cx" and "cx_data cx = Some d"
  shows "put_mark (w_next_ctx w) (Busy start)
      (net_of (w\<lparr>w_contexts := (w_contexts w)(w_next_ctx w \<mapsto> cx), w_next_ctx := Suc (w_next_ctx w),
                 w_rand_pos := k\<rparr>)) = open_ctx start conn (nums_of (w_fsm w) d) (net_of w)"
proof -
  let ?w = "w\<lparr>w_contexts := (w_contexts w)(w_next_ctx w \<mapsto> cx), w_next_ctx := Suc (w_next_ctx w), w_rand_pos := k\<rparr>"
  have "joined_at ?w = (joined_at w)(w_next_ctx w := \<lambda>_. 0)"
    using begins_joined [OF assms(1)] by (simp add: joined_at_def mdata_def fun_eq_iff)
  moreover have "exit_at ?w = (exit_at w)(w_next_ctx w := False)" "conn_at ?w = (conn_at w)(w_next_ctx w \<mapsto> conn)"
    using assms by (simp_all add: exit_at_def conn_at_def fun_eq_iff begins_def)
  moreover have "num_at ?w = (num_at w)(w_next_ctx w := nums_of (w_fsm w) d)"
    using assms(2) by (simp add: num_at_def fun_eq_iff)
  ultimately show ?thesis by (simp add: open_ctx_def Let_def net_of_def put_marks_def)
qed

lemma exit_net_of:
  "context_exit c w = Inr w' \<Longrightarrow>
     w_fsm w' = w_fsm w \<and> net_of w' = set_exit c (net_of w) \<and>
     (\<exists>cx. w_contexts w' c = Some cx \<and> cx_exit cx)"
  by (auto simp: context_exit_def get_ctx_def net_of_def set_exit_def joined_at_def num_at_def exit_at_def conn_at_def
      mdata_def fun_eq_iff) (simp_all add: put_ctx_def)

lemma next_module_none:
  assumes "fsm_wf rank (w_fsm w)" and "next_module md s w = (None, w')"
  shows "route (w_fsm w) (md_name md) s = None"
proof (rule ccontr)
  assume "route (w_fsm w) (md_name md) s \<noteq> None"
  then obtain t where t: "route (w_fsm w) (md_name md) s = Some t" by blast
  then obtain s' where "link_of (w_fsm w) (md_name md) s' = Some t"
    by (auto simp: route_def split: option.splits)
  with assms(1) have "sm_find (fsm_mod_map (w_fsm w)) t \<noteq> None" "registry_ok (fsm_mod_map (w_fsm w))"
    by (auto simp: fsm_wf_def links_ok_def)
  then obtain md' where "sm_find (fsm_mod_map (w_fsm w)) t = Some (Some md')"
    using registered_entry by blast
  with t assms(2) show False by (simp add: next_module_def get_next_module_route)
qed

locale mark_passing =
  fixes mrun :: "'d module_run"
  assumes runs: "registered (w_fsm w) md \<Longrightarrow> yields (mrun md c s w) (ran_for md c w)"
begin

lemma new_request_drives:
  assumes wf: "fsm_wf rank f" and w: "w_fsm w = f" and new: "context_new conn w = (c, w1)"
    and start: "fsm_start_mod f = Some start"
    and run: "\<And>md c s w. w_fsm w = f \<Longrightarrow> registered f md \<Longrightarrow>
      drives f (put_mark c (Busy md) (net_of w)) (fsm_run mrun (n - 1) md c s w)"
  shows "\<exists>d. drives f (open_ctx start conn (nums_of f d) (net_of w)) (rbind (context_init c w1) (handle_request mrun n c))"
proof (cases "w_fsm_data_factory w")
  case None
  then have "context_init c w1 = Inl Null_deref"
    using new by (auto simp: context_init_def context_new_def get_ctx_def Let_def)
  then show ?thesis by simp
next
  case (Some d)
  have "registry_ok (fsm_mod_map (w_fsm w))" using wf w by (simp add: fsm_wf_def)
  from context_start [OF this _ new] Some obtain w2 cx where
    w2: "context_init c w1 = Inr w2" and c: "c = w_next_ctx w" and cx: "begins conn w cx"
    and reset: "context_reset c w2 = Inr (w\<lparr>w_contexts := (w_contexts w)(c \<mapsto> cx),
        w_next_ctx := Suc (w_next_ctx w), w_rand_pos := Suc (w_rand_pos w)\<rparr>)" by auto
  obtain d' where d': "cx_data cx = Some d'" using cx Some by (auto simp: begins_def)
  have reg: "registered f start" using wf start by (auto simp: fsm_wf_def start_ok_def)
  have "drives f (open_ctx start conn (nums_of f d') (net_of w)) (rbind (context_init c w1) (handle_request mrun n c))"
  proof (cases n)
    case (Suc m)
    let ?w = "w\<lparr>w_contexts := (w_contexts w)(c \<mapsto> cx), w_next_ctx := Suc (w_next_ctx w), w_rand_pos := Suc (w_rand_pos w)\<rparr>"
    have "drives f (put_mark c (Busy start) (net_of ?w)) (fsm_run mrun m start c Mod_start ?w)"
      using run [OF _ reg, of ?w] w Suc by simp
    then show ?thesis
      unfolding c net_of_new [OF cx d'] using w2 reset start w Suc c by (simp add: handle_request.simps)
  qed (simp add: w2 handle_request.simps)
  then show ?thesis ..
qed

lemma end_request_drives:
  assumes wf: "fsm_wf rank f" and w: "w_fsm w = f" and md: "at_end f md"
    and run: "\<And>md c s w. w_fsm w = f \<Longrightarrow> registered f md \<Longrightarrow>
      drives f (put_mark c (Busy md) (net_of w)) (fsm_run mrun (n - 2) md c s w)"
  shows "drives f (put_mark c (Ended md s) (net_of w)) (end_request mrun n c w)"
proof (cases n)
  case (Suc m)
  show ?thesis
  proof (cases "w_contexts w c")
    case (Some cx)
    obtain start where start: "fsm_start_mod f = Some start" using wf by (auto simp: fsm_wf_def start_ok_def)
    obtain c' w1 where new: "context_new (cx_conn cx) w = (c', w1)" by fastforce
    have exit: "n_exit (net_of w) c = cx_exit cx" and conn: "n_conn (net_of w) c = Some (cx_conn cx)"
      using Some by (simp_all add: net_of_def exit_at_def conn_at_def)
    show ?thesis
    proof (cases "cx_exit cx")
      case True
      with exit have "net_step f (put_mark c (Ended md s) (net_of w)) (net_of w)" by (intro ns_close [OF md]) simp
      with True Some w Suc show ?thesis by (auto simp: end_request.simps context_is_exit_def get_ctx_def)
    next
      case False
      have "\<exists>d. drives f (open_ctx start (cx_conn cx) (nums_of f d) (net_of w)) (rbind (context_init c' w1) (handle_request mrun m c'))"
        using run Suc by (intro new_request_drives [OF wf w new start]) simp
      then obtain d where
        "drives f (open_ctx start (cx_conn cx) (nums_of f d) (net_of w)) (rbind (context_init c' w1) (handle_request mrun m c'))" ..
      moreover have "net_step f (put_mark c (Ended md s) (net_of w)) (open_ctx start (cx_conn cx) (nums_of f d) (net_of w))"
        using exit conn False start by (intro ns_finish [OF md]) simp_all
      ultimately have "drives f (put_mark c (Ended md s) (net_of w)) (rbind (context_init c' w1) (handle_request mrun m c'))"
        by (rule drives_first [rotated])
      with False Some new Suc show ?thesis by (simp add: end_request.simps context_is_exit_def get_ctx_def)
    qed
  qed (simp add: Suc end_request.simps context_is_exit_def get_ctx_def)
qed (simp add: end_request.simps)

lemma resume_drives:
  assumes wf: "fsm_wf rank f" and w: "w_fsm w = f"
    and run: "\<And>m md c s w. m \<le> n \<Longrightarrow> w_fsm w = f \<Longrightarrow> registered f md \<Longrightarrow>
      drives f (put_mark c (Busy md) (net_of w)) (fsm_run mrun m md c s w)"
  shows "drives f (put_mark c (Ended md s) (net_of w)) (resume mrun n md s c w)"
proof (cases "at_end f md")
  case True
  then have "is_end_module md w = Inr True" by (auto simp: is_end_module_def at_end_def w)
  with end_request_drives [OF wf w True, of n c s] run show ?thesis by (simp add: resume_def)
next
  case False
  then have "is_end_module md w = Inl Uninitialised \<or> is_end_module md w = Inr False"
    by (auto simp: is_end_module_def at_end_def w split: option.split)
  moreover consider (none) "next_module md s w = (None, w)" "route f (md_name md) s = None"
    | (some) md' where "next_module md s w = (Some md', w)" "registered f md'" "route f (md_name md) s = Some (md_name md')"
    using next_module_route [of rank w md s] next_module_none [of rank w md s w] wf by (auto simp: w)
  then have "drives f (put_mark c (Ended md s) (net_of w)) (let (nxt, w) = next_module md s w in
         case nxt of
           None \<Rightarrow> rbind (context_exit c w) (\<lambda>w. end_request mrun n c w)
         | Some next_mod \<Rightarrow> fsm_run mrun n next_mod c s w)"
  proof cases
    case none
    have "w_fsm w2 = f \<and> moves f (put_mark c (Ended md s) (net_of w)) (net_of w2)"
      if "context_exit c w = Inr w1" "end_request mrun n c w1 = Inr w2" for w1 w2
    proof -
      from exit_net_of [OF that(1)] obtain cx where w1: "w_fsm w1 = w_fsm w" "net_of w1 = set_exit c (net_of w)"
        "w_contexts w1 c = Some cx" "cx_exit cx" by blast
      then have "w2 = w1"
        using that(2) by (cases n) (simp_all add: end_request.simps context_is_exit_def get_ctx_def)
      with w1 w ns_abandon [OF False none(2), of c "net_of w"] show ?thesis by auto
    qed
    then have "drives f (put_mark c (Ended md s) (net_of w)) (rbind (context_exit c w) (end_request mrun n c))"
      by (intro yieldsI) auto
    with none(1) show ?thesis by simp
  next
    case some
    with drives_first [OF ns_route [OF False some(3,2)] run [OF order_refl w some(2)]] show ?thesis by simp
  qed
  ultimately show ?thesis by (auto simp: resume_def)
qed

lemma fsm_run_drives:
  assumes "fsm_wf rank f" and "w_fsm w = f" and "registered f md"
  shows "drives f (put_mark c (Busy md) (net_of w)) (fsm_run mrun n md c s w)"
  using assms(2,3)
proof (induction n arbitrary: md c s w rule: less_induct)
  case (less n)
  show ?case
  proof (cases n)
    case (Suc m)
    have run: "drives f (put_mark c' (Busy md') (net_of w')) (fsm_run mrun k md' c' s' w')"
      if "k \<le> m" "w_fsm w' = f" "registered f md'" for k md' c' s' w'
      using less.IH [of k w' md' c' s'] that Suc by simp
    have reg: "registered (w_fsm w) md" using less.prems by simp
    show ?thesis
      unfolding Suc fsm_run_resume
    proof (rule yields_bind [OF runs [OF reg]], clarify)
      fix state w' assume ran: "ran_for md c w (state, w')"
      then have w': "w_fsm w' = f" using less.prems by (simp add: ran_for_def)
      show "drives f (put_mark c (Busy md) (net_of w)) (if state \<noteq> Mod_async then resume mrun m md state c w' else Inr w')"
        using ran w' drives_moves [OF _ resume_drives [OF assms(1) w' run], of _ c md state] less.prems
        by (cases "state = Mod_async") (simp_all add: ran_for_def)
    qed
  qed (simp add: fsm_run.simps)
qed

lemma resumes:
  assumes "fsm_wf rank f" and "w_fsm w = f"
  shows "drives f (put_mark c (Ended md s) (net_of w)) (resume mrun n md s c w)"
  using resume_drives [OF assms fsm_run_drives [OF assms(1)]] by simp

end

section \<open>Every module moves its mark\<close>

lemma ran_start:
  assumes "tends md c w w'" and "mark_of (op_handler a) = Some (c, Busy md)"
  shows "ran_for md c w (Mod_async, start_op a w')"
  using tends_moves [OF assms(1)] tends_fsm [OF assms(1)] by (simp add: ran_for_def net_of_mark [OF assms(2)])

lemma ran_idle: "ran_for md c w (s, w') \<Longrightarrow> idle w' w'' \<Longrightarrow> ran_for md c w (s, w'')"
  by (cases "s = Mod_async") (auto simp: ran_for_def idle_def)

lemma simple_run_ran:
  assumes "md_class md = SimpleModule g"
  shows "yields (simple_run g c s w) (ran_for md c w)"
proof (rule yieldsI)
  fix r assume run: "simple_run g c s w = Inr r"
  obtain state w' where r: "r = (state, w')" by (cases r)
  have "hooks md (\<lambda>d. snd (g d))" using assms by (simp add: hooks_def)
  from run have q: "tends md c w w'"
    unfolding r simple_run_def using yieldsD [OF app_call_tends [OF \<open>hooks md _\<close>]] by blast
  from run obtain cx d where cx: "w_contexts w c = Some cx" "cx_data cx = Some d" and state: "fst (g d) = state"
    and w': "w' = put_ctx c (cx\<lparr>cx_data := Some (snd (g d))\<rparr>) w"
    by (auto simp: r simple_run_def app_call_def get_ctx_def Let_def split_beta split: option.splits)
  have "n_num (net_of w') c = nums_of (w_fsm w) (snd (g d))"
    by (simp add: w' net_of_def num_at_def)
  with state have step: "net_step (w_fsm w) (put_mark c (Busy md) (net_of w'))
      (if state = Mod_async then net_of w' else put_mark c (Ended md state) (net_of w'))"
    using assms by (cases "state = Mod_async") (auto intro!: ns_stop ns_end)
  from rtranclp.rtrancl_into_rtrancl [OF tends_moves [OF q] this] tends_fsm [OF q] show "ran_for md c w r"
    by (cases "state = Mod_async") (simp_all add: r ran_for_def)
qed

lemma request_run_ran: "yields (request_run md h c s w) (ran_for md c w)"
  unfolding request_run_def Let_def
  by (rule yields_any, rule yields_any, rule still_bind [OF tends_refl timer_idle(1)]) (auto intro!: ran_start)

lemma response_run_ran:
  assumes "md_class md = ResponseModule h"
  shows "yields (response_run md h c s w) (ran_for md c w)"
  unfolding response_run_def Let_def
proof (rule yields_any, rule tends_bind [OF tends_refl app_call_tends], unfold prod.case)
  show "hooks md (\<lambda>d. snd (rs_get_resp h d))" using assms by (simp add: hooks_def)
next
  fix cx :: "'a fsm_context" and resp and w1 :: "'a world" assume w1: "tends md c w w1"
  show "yields (case resp of
         None \<Rightarrow> Inr (Mod_Failed, w1)
       | Some buf \<Rightarrow>
           rbind (response_timer md c w1) (\<lambda>(timer, w).
             Inr (Mod_async, start_op (Async_write (Conn_socket (cx_conn cx)) buf (On_write_resp md c))
               (start_op (Async_wait timer (rs_get_write_resp_time_out_ms h) (On_write_time_out md c)) w))))
     (ran_for md c w)"
    using assms w1
    by (cases resp) (auto intro!: still_bind [OF w1 timer_idle(2)] ran_start ran_end)
qed

lemma pend_fork_ops:
  "pend_marks (map (fork_op md c) is) c' =
     (if c' = c then mset (map (\<lambda>i. Ended md (Mod_Fork0 + word_of_nat i)) is) else {#})"
  "pend_accepts (map (fork_op md c) is) = {#}"
  by (induction "is") (auto simp: fork_op_def)

lemma fork_run_ran:
  assumes "md_class md = ForkModule n g" and reg: "registered (w_fsm w) md"
  shows "yields (fork_run md g c s w) (ran_for md c w)"
proof (rule yieldsI)
  fix r assume "fork_run md g c s w = Inr r"
  then obtain d where r: "r = (Mod_async, w\<lparr>w_pending := w_pending w @ map (fork_op md c) [0 ..< unat (g d)]\<rparr>)"
    and d: "num_at w c = nums_of (w_fsm w) d"
    by (auto simp: fork_run_def app_get_def get_ctx_def num_at_def dest!: fork_loop_starts)
  have num: "n_num (net_of w) c (md_name md) = unat (g d)"
    using nums_of_registered [OF reg] assms(1) d by (simp add: net_of_def)
  have "net_of (w\<lparr>w_pending := w_pending w @ map (fork_op md c) [0 ..< unat (g d)]\<rparr>) =
      put_marks c (fork_marks md (unat (g d))) (net_of w)"
    by (simp add: net_of_def put_marks_def pend_fork_ops fork_marks_def fun_eq_iff joined_at_def num_at_def exit_at_def
        conn_at_def mdata_def del: mset_map mset_upt)
  with ns_fork [OF assms(1), of "w_fsm w" c "net_of w"] num show "ran_for md c w r" by (auto simp: r ran_for_def)
qed

lemma join_run_ran:
  assumes "md_class md = JoinModule n g" and reg: "registered (w_fsm w) md"
  shows "yields (join_run md g c s w) (ran_for md c w)"
proof (rule yieldsI)
  fix r assume run: "join_run md g c s w = Inr r"
  then obtain p w0 d where get: "get_module_data c (md_name md) w = Inr (p, w0)" and p: "as_join p = Some d"
    by (auto simp: join_run_def)
  from p have "p = Some (Join_data d)" by (cases p rule: as_join.cases) auto
  with get get_module_data_Inr [of c "md_name md" w "Join_data d" w0]
  have w0: "w0 = w" and at: "mdata w c (md_name md) = Some (Some (Join_data d))" by auto
  obtain j d' where arr: "join_arrive s d = (j, d')" by fastforce
  then have j: "j = joined_at w c (md_name md) + 1" "jd_module_joined_num d' = j"
    using at by (auto simp: join_arrive_def module_joined_def failed_join_def joined_at_def Let_def split: if_splits)
  from run get p arr w0 obtain w1 k where put: "put_module_data c (md_name md) (Join_data d') w = Inr w1"
    and k: "app_get c g w1 = Inr k"
    and r: "r = (Mod_async, if j = k then start_op (Async_wait (Module_timer c (md_name md) 0) 0
        (On_joined md c (if jd_failed_join d' then Mod_Failed else Mod_Succeed))) w1 else w1)"
    by (auto simp: join_run_def Let_def split: if_splits)
  have w1: "w_fsm w1 = w_fsm w" "net_of w1 = set_joined c (md_name md) j (net_of w)"
  proof -
    from put have "w_fsm w1 = w_fsm w \<and> net_of w1 = set_joined c (md_name md) j (net_of w)"
      by (rule put_module_data_Inr)
        (use j(2) in \<open>auto simp: net_of_def set_joined_def joined_at_def num_at_def exit_at_def conn_at_def fun_eq_iff mdata_def
            sm_find_put put_ctx_def\<close>)
    then show "w_fsm w1 = w_fsm w" "net_of w1 = set_joined c (md_name md) j (net_of w)" by auto
  qed
  from k obtain x where x: "k = g x" "num_at w1 c = nums_of (w_fsm w1) x"
    by (auto simp: app_get_def get_ctx_def num_at_def)
  have "num_at w1 c (md_name md) = unat (g x)"
    unfolding x(2) w1(1) using nums_of_registered [OF reg] assms(1) by blast
  moreover have "num_at w1 = n_num (net_of w)" using w1(2) by (simp add: net_of_def set_joined_def)
  ultimately have full: "unat j = n_num (net_of w) c (md_name md) \<longleftrightarrow> j = g x" by (simp add: word_unat_eq_iff)
  have "net_step (w_fsm w) (put_mark c (Busy md) (net_of w)) (if unat j = n_num (net_of w) c (md_name md)
      then put_mark c (Ended md (if jd_failed_join d' then Mod_Failed else Mod_Succeed)) (net_of w1) else net_of w1)"
    by (rule ns_join [OF assms(1)]) (simp_all add: j w1(2), simp add: net_of_def)
  with w1 full show "ran_for md c w r" by (auto simp: r x(1) ran_for_def net_of_mark split: if_splits)
qed

section \<open>\<open>TcpModule\<close>\<close>

lemma with_lock_ran:
  assumes "\<And>w'. tends md c w w' \<Longrightarrow> yields (body w') (ran_for md c w)"
  shows "yields (with_tcp_lock md c body w) (ran_for md c w)"
proof (rule yieldsI)
  fix r assume "with_tcp_lock md c body w = Inr r"
  then obtain w1 s w2 w' where *: "tcp_lock md c w = Inr w1" "body w1 = Inr (s, w2)"
    "tcp_unlock md c w2 = Inr w'" and r: "r = (s, w')"
    by (auto simp: with_tcp_lock_def)
  from yieldsD [OF assms [OF idle_tends [OF yieldsD [OF tcp_lock_idle(1) *(1)]]] *(2)] yieldsD [OF tcp_lock_idle(2) *(3)]
  show "ran_for md c w r" unfolding r by (rule ran_idle)
qed

abbreviation went_async :: "'d module \<Rightarrow> ctx_id \<Rightarrow> 'd world \<Rightarrow> ModState \<times> 'd world \<Rightarrow> bool" where
  "went_async md c w r \<equiv> fst r = Mod_async \<and> ran_for md c w r"

lemma start_modify_ran:
  assumes "tends md c w w'" and "mark_of (op_handler a) = Some (c, Busy md)"
  shows "yields (rbind (tcp_modify md c g (start_op a w')) (\<lambda>w. Inr (Mod_async, w))) (went_async md c w)"
  by (rule yields_bind [OF tcp_modify_idle]) (auto intro: ran_idle [OF ran_start [OF assms]])

lemma send_request_ran:
  assumes "tends md c w w'" and md: "md_class md = TcpModule pool h"
  shows "yields (send_request md h c w') (went_async md c w)"
  unfolding send_request_def Let_def
proof (rule tends_bind [OF assms(1) app_call_tends], unfold prod.case)
  show "hooks md (\<lambda>d. snd (tm_get_request h d))" by (simp add: hooks_def md)
next
  fix req and w1 :: "'a world" assume "tends md c w w1"
  then have "yields (rbind (tcp_modify md c (\<lambda>d. d\<lparr>td_socket_event := Socket_Event_Opened\<rparr>)
      (start_op (Async_write (Client_socket i) req (On_write_req md c req)) w1)) (\<lambda>w. Inr (Mod_async, w))) (went_async md c w)" for i
    by (rule start_modify_ran) simp
  then show "yields (rbind (tcp_the_client md c w1) (\<lambda>(i, w).
      rbind (tcp_modify md c (\<lambda>d. d\<lparr>td_socket_event := Socket_Event_Opened\<rparr>)
        (start_op (Async_write (Client_socket i) req (On_write_req md c req)) w)) (\<lambda>w. Inr (Mod_async, w)))) (went_async md c w)"
    by (intro yields_bind [OF the_client_at]) auto
qed

lemma send_with_timer_ran:
  assumes "tends md c w w'" and md: "md_class md = TcpModule pool h"
  shows "yields (send_with_timer md h c w') (went_async md c w)"
  unfolding send_with_timer_def
  by (rule still_bind [OF assms(1) timer_idle(3)]) (auto simp: Let_def intro!: send_request_ran [OF _ md])

lemma tcp_take_client_idle: "idles w (tcp_take_client env md pool c peer w)"
proof -
  obtain client p hp where get: "get_client env peer (w_pools w pool) (w_clients w) = (client, p, hp)"
    by (rule prod_cases3)
  show ?thesis
    unfolding tcp_take_client_def get Let_def prod.case
    by (rule yields_bind [OF tcp_modify_idle]) simp
qed

lemma tcp_connect_ran:
  assumes w: "tends md c w w'" and md: "md_class md = TcpModule pool h'"
  shows "yields (tcp_connect env md h c peer ip port w') (ran_for md c w)"
proof -
  have conn: "yields (let (i, w) = client_new env peer w1 in
             rbind (tcp_modify md c (\<lambda>d. d\<lparr>td_client := Some i\<rparr>) w) (\<lambda>w.
               let w = start_op (Async_connect (Client_socket i) ip port (On_connect md c ip port)) w in
             rbind (tcp_modify md c (\<lambda>d. d\<lparr>td_socket_event := Socket_Event_Opened\<rparr>) w) (\<lambda>w.
               Inr (Mod_async, w)))) (ran_for md c w)" if w1: "tends md c w w1" for w1
  proof -
    obtain i w2 where new: "client_new env peer w1 = (i, w2)" by fastforce
    then have "tends md c w w2" by (auto simp: client_new_def Let_def intro!: tends_idle [OF w1])
    then show ?thesis
      unfolding new Let_def prod.case
      by (rule still_bind_world [OF _ tcp_modify_idle]) (erule yields_mono [OF start_modify_ran], auto)
  qed
  have "yields (rbind (tcp_timer md c w') (\<lambda>(timer, w).
          let w = start_op (Async_wait timer (tm_get_connect_time_out_ms h)
                              (On_handle_connect_time_out md c ip port)) w in
          if \<not> ev_socket_opens env then Inr (Mod_Failed, w)
          else
            (let (i, w) = client_new env peer w in
             rbind (tcp_modify md c (\<lambda>d. d\<lparr>td_client := Some i\<rparr>) w) (\<lambda>w.
               let w = start_op (Async_connect (Client_socket i) ip port (On_connect md c ip port)) w in
             rbind (tcp_modify md c (\<lambda>d. d\<lparr>td_socket_event := Socket_Event_Opened\<rparr>) w) (\<lambda>w.
               Inr (Mod_async, w)))))) (ran_for md c w)"
  proof (rule still_bind [OF w timer_idle(3)], unfold prod.case)
    fix timer and w2 :: "'a world" assume w2: "tends md c w w2"
    let ?w = "start_op (Async_wait timer (tm_get_connect_time_out_ms h) (On_handle_connect_time_out md c ip port)) w2"
    have dead: "tends md c w ?w" using w2 by simp
    have "ran_for md c w (Mod_Failed, ?w)" by (rule ran_end [OF dead]) (simp_all add: md)
    with conn [OF dead] show "yields (let w = ?w in
          if \<not> ev_socket_opens env then Inr (Mod_Failed, w)
          else
            (let (i, w) = client_new env peer w in
             rbind (tcp_modify md c (\<lambda>d. d\<lparr>td_client := Some i\<rparr>) w) (\<lambda>w.
               let w = start_op (Async_connect (Client_socket i) ip port (On_connect md c ip port)) w in
             rbind (tcp_modify md c (\<lambda>d. d\<lparr>td_socket_event := Socket_Event_Opened\<rparr>) w) (\<lambda>w.
               Inr (Mod_async, w))))) (ran_for md c w)"
      by (cases "ev_socket_opens env") (simp_all only: Let_def if_True if_False not_True_eq_False
          not_False_eq_True yields_simps)
  qed
  moreover have "ran_for md c w (Mod_Failed, w')" by (rule ran_end [OF w]) (simp_all add: md)
  ultimately show ?thesis unfolding tcp_connect_def by simp
qed

lemma tcp_run_ran:
  assumes md: "md_class md = TcpModule pool' h"
  shows "yields (tcp_run env md pool h c s w) (ran_for md c w)"
proof -
  have fail: "ran_for md c w (Mod_Failed, w')" if "tends md c w w'" for w'
    by (rule ran_end [OF that]) (simp_all add: md)
  have none: "yields (rbind (app_call c (tm_get_server_ip_port h) w1) (\<lambda>(addr, w).
      case addr of
        None \<Rightarrow> Inr (Mod_Failed, w)
      | Some (ip, port) \<Rightarrow> tcp_connect env md h c t ip port w)) (ran_for md c w)"
    if "tends md c w w1" for t w1
    by (rule tends_bind [OF that app_call_tends])
      (auto simp: hooks_def md split: option.split intro!: tcp_connect_ran [OF _ md] fail)
  have "yields (rbind (tcp_take_client env md pool c t w1) (\<lambda>(client, w).
             case client of
               None \<Rightarrow>
                 rbind (app_call c (tm_get_server_ip_port h) w) (\<lambda>(addr, w).
                   case addr of
                     None \<Rightarrow> Inr (Mod_Failed, w)
                   | Some (ip, port) \<Rightarrow> tcp_connect env md h c t ip port w)
             | Some _ \<Rightarrow> send_with_timer md h c w)) (ran_for md c w)"
    if "tends md c w w1" for t w1
    by (rule still_bind [OF that tcp_take_client_idle])
      (auto split: option.split intro!: yields_mono [OF send_with_timer_ran [OF _ md]] none)
  note locked = with_lock_ran [OF this]
  show ?thesis
    unfolding tcp_run_def Let_def by (rule yields_any) (use locked fail in simp)
qed

lemma module_run_ran: "registered (w_fsm w) md \<Longrightarrow> yields (module_run env md c s w) (ran_for md c w)"
  by (cases "md_class md")
    (simp_all add: module_run_def simple_run_ran request_run_ran response_run_ran tcp_run_ran fork_run_ran join_run_ran)

interpretation marks: mark_passing "module_run env" for env
  by unfold_locales (rule module_run_ran)

section \<open>The completion handlers\<close>

text \<open>
  A handler of module \<open>md\<close> starts with the mark at the module; the machine is well formed and
  timers are cancelled without an error.
\<close>

definition at_work :: "(string \<Rightarrow> nat) \<Rightarrow> asio_env \<Rightarrow> 'd world \<Rightarrow> bool" where
  "at_work rank env w \<longleftrightarrow> fsm_wf rank (w_fsm w) \<and> timers_cancel env"

abbreviation handles :: "'d module \<Rightarrow> ctx_id \<Rightarrow> 'd world \<Rightarrow> 'd world res \<Rightarrow> bool" where
  "handles md c w r \<equiv> drives (w_fsm w) (put_mark c (Busy md) (net_of w)) r"

lemma resume_handles:
  assumes "at_work rank env w" "tends md c w w'" "may_end (w_fsm w) (md_class md) s (n_num (net_of w') c)"
  shows "handles md c w (resume (module_run env) n md s c w')"
proof -
  have f: "w_fsm w' = w_fsm w" by (rule tends_fsm [OF assms(2)])
  have "moves (w_fsm w) (put_mark c (Busy md) (net_of w)) (put_mark c (Ended md s) (net_of w'))"
    using tends_moves [OF assms(2)] ns_end [OF assms(3)] by (rule rtranclp.rtrancl_into_rtrancl)
  from drives_moves [OF this] marks.resumes [of rank "w_fsm w" w' env n md s c] assms(1) f show ?thesis
    by (simp add: at_work_def)
qed

lemma exit_handles:
  assumes "at_work rank env w" "tends md c w w'" "may_end (w_fsm w) (md_class md) s (n_num (net_of w') c)"
    "may_exit (md_class md)"
  shows "handles md c w (rbind (context_exit c w') (\<lambda>w. resume (module_run env) n md s c w))"
proof -
  have "w_fsm w2 = w_fsm w \<and> moves (w_fsm w) (put_mark c (Busy md) (net_of w)) (net_of w2)"
    if w1: "context_exit c w' = Inr w1" and w2: "resume (module_run env) n md s c w1 = Inr w2" for w1 w2
  proof -
    from exit_net_of [OF w1] tends_fsm [OF assms(2)] have
      e: "w_fsm w1 = w_fsm w" "net_of w1 = set_exit c (net_of w')" by simp_all
    then have "at_work rank env w1" using assms(1) by (simp add: at_work_def)
    from yieldsD [OF resume_handles [OF this tends_refl] w2] e assms(3)
    have "w_fsm w2 = w_fsm w \<and> moves (w_fsm w) (put_mark c (Busy md) (set_exit c (net_of w'))) (net_of w2)" by simp
    with rtranclp.rtrancl_into_rtrancl [OF tends_moves [OF assms(2)] ns_exit [OF assms(4), of "w_fsm w" c "net_of w'"]]
    show ?thesis by auto
  qed
  then show ?thesis by (intro yieldsI) auto
qed

lemma start_handles:
  assumes "tends md c w w'" and "mark_of (op_handler a) = Some (c, Busy md)"
  shows "handles md c w (Inr (start_op a w'))"
  using ran_start [OF assms] by (simp add: ran_for_def)

lemma cancel_bind_if:
  assumes w: "tends md c w0 w" and r: "yields r (\<lambda>(ok, w'). ok \<and> idle w w')"
    and g: "\<And>w'. tends md c w0 w' \<Longrightarrow> yields (g w') P"
  shows "yields (rbind r (\<lambda>(ok, w). if \<not> ok then Inr w else g w)) P"
proof (rule yields_bind [OF r], clarify)
  fix ok w' assume "ok" "idle w w'"
  then show "yields (if \<not> ok then Inr w' else g w') P" using g [OF tends_idle [OF w]] by simp
qed

lemma at_work_cancels:
  assumes "at_work rank env w"
  shows "yields (request_cancel_timer env md c w') (\<lambda>(ok, w''). ok \<and> idle w' w'')"
    "yields (response_cancel_timer env md c w') (\<lambda>(ok, w''). ok \<and> idle w' w'')"
    "yields (cancel_time_out_timer env md c w') (\<lambda>(ok, w''). ok \<and> idle w' w'')"
  using cancel_timer_idle assms unfolding at_work_def by blast+

lemma read_failed_handles:
  assumes w: "at_work rank env w" "tends md c w w'" and md: "md_class md = RequestModule h" and g: "hooks md g"
  shows "handles md c w (read_failed env (module_run env) n md g c ec w')"
proof -
  have exit: "handles md c w (rbind (context_exit c w1) (\<lambda>w. resume (module_run env) n md s c w))"
    if "tends md c w w1" "s = Mod_Failed \<or> s = Mod_Timeout" for w1 s
    by (rule exit_handles [OF w(1) that(1)]) (use that(2) in \<open>auto simp: md\<close>)
  have failed: "handles md c w (rbind (context_exit c w1) (\<lambda>w. resume (module_run env) n md Mod_Failed c w))"
    if "tends md c w w1" for w1 by (rule exit [OF that]) simp
  have "handles md c w (rbind (request_cancel_timer env md c w') (\<lambda>(ok, w).
          if \<not> ok then Inr w
          else
            rbind (app_do c g w) (\<lambda>w.
            rbind (context_exit c w) (\<lambda>w. resume (module_run env) n md Mod_Failed c w))))"
    by (rule cancel_bind_if [OF w(2) at_work_cancels(1) [OF w(1)]]) (erule tends_bind_world [OF _ app_do_tends [OF g] failed])
  with exit [OF w(2), of Mod_Timeout] show ?thesis by (simp add: read_failed_def)
qed

lemma on_read_version_handles:
  assumes w: "at_work rank env w" and md: "md_class md = RequestModule h"
  shows "handles md c w (on_read_version env (module_run env) n md h c buf len ec w)"
proof -
  have start: "handles md c w (rbind (app_get c (rq_get_head_len h) w1) (\<lambda>head_len.
      rbind (get_ctx c w1) (\<lambda>cx.
      rbind (request_timer md c w1) (\<lambda>(timer, w).
        Inr (start_op (Async_read (Conn_socket (cx_conn cx)) head_len (On_read_head md c head_len))
          (start_op (Async_wait timer (rq_get_read_head_and_body_time_out_ms h) (On_read_time_out 2 md c)) w))))))"
    if "tends md c w w1" for w1
    by (rule yields_any, rule yields_any, rule still_bind [OF that timer_idle(1)]) (unfold prod.case, rule start_handles, simp_all)
  show ?thesis
    unfolding on_read_version_def Let_def
  proof (rule tends_bind [OF tends_refl read_accepted_tends], unfold prod.case)
    show "hooks md (\<lambda>d. snd (rq_on_read_version_impl h buf len d))" by (simp add: hooks_def md)
  next
    fix ok and w1 :: "'a world" assume w1: "tends md c w w1"
    have "hooks md (rq_on_read_version_failed h)" by (simp add: hooks_def md)
    note more = cancel_bind_if [OF w1 at_work_cancels(1) [OF w] start] read_failed_handles [OF w w1 md this]
    show "handles md c w (if \<not> ok
      then read_failed env (module_run env) n md (rq_on_read_version_failed h) c ec w1
      else rbind (request_cancel_timer env md c w1) (\<lambda>(cancelled, w).
       if \<not> cancelled then Inr w
       else
         rbind (app_get c (rq_get_head_len h) w) (\<lambda>head_len.
         rbind (get_ctx c w) (\<lambda>cx.
         rbind (request_timer md c w) (\<lambda>(timer, w).
           Inr (start_op (Async_read (Conn_socket (cx_conn cx)) head_len (On_read_head md c head_len))
             (start_op (Async_wait timer (rq_get_read_head_and_body_time_out_ms h) (On_read_time_out 2 md c)) w)))))))"
      using more by simp
  qed
qed

lemma on_read_head_handles:
  assumes w: "at_work rank env w" and md: "md_class md = RequestModule h"
  shows "handles md c w (on_read_head env (module_run env) n md h c buf len ec w)"
  unfolding on_read_head_def
  by (rule tends_bind [OF tends_refl read_accepted_tends])
    (auto simp: hooks_def md intro!: read_failed_handles [OF w _ md] yields_any start_handles)

lemma on_read_body_handles:
  assumes w: "at_work rank env w" and md: "md_class md = RequestModule h"
  shows "handles md c w (on_read_body env (module_run env) n md h c buf len ec w)"
  unfolding on_read_body_def
proof (rule tends_bind [OF tends_refl read_accepted_tends], unfold prod.case)
  show "hooks md (\<lambda>d. snd (rq_on_read_body_impl h buf len d))" by (simp add: hooks_def md)
next
  fix ok and w1 :: "'a world" assume w1: "tends md c w w1"
  have go: "handles md c w (rbind (app_get c (rq_get_succeed_state h) w2)
      (\<lambda>state. resume (module_run env) n md state c w2))" if "tends md c w w2" for w2
  proof (rule yields_any, rule resume_handles [OF w that])
    fix state assume "app_get c (rq_get_succeed_state h) w2 = Inr state"
    then show "may_end (w_fsm w) (md_class md) state (n_num (net_of w2) c)"
      using tends_fsm [OF that] by (auto simp: md app_get_def get_ctx_def net_of_def num_at_def)
  qed
  have "hooks md (rq_on_read_body_failed h)" by (simp add: hooks_def md)
  note more = cancel_bind_if [OF w1 at_work_cancels(1) [OF w] go] read_failed_handles [OF w w1 md this]
  show "handles md c w (if \<not> ok
      then read_failed env (module_run env) n md (rq_on_read_body_failed h) c ec w1
      else rbind (request_cancel_timer env md c w1) (\<lambda>(cancelled, w).
      if \<not> cancelled then Inr w
      else rbind (app_get c (rq_get_succeed_state h) w) (\<lambda>state. resume (module_run env) n md state c w)))"
    using more by simp
qed

lemma on_write_resp_handles:
  assumes w: "at_work rank env w" and md: "md_class md = ResponseModule h"
  shows "handles md c w (on_write_resp env (module_run env) n md h c ec w)"
proof -
  have go: "handles md c w (rbind (app_do c g w1) (\<lambda>w. resume (module_run env) n md Mod_Succeed c w))"
    if "tends md c w w1" "hooks md g" for g w1
    by (rule tends_bind_world [OF that(1) app_do_tends [OF that(2)]], rule resume_handles [OF w]) (simp_all add: md)
  have exit: "handles md c w (rbind (context_exit c w1) (\<lambda>w. resume (module_run env) n md s c w))"
    if "tends md c w w1" for s w1
    by (rule exit_handles [OF w that]) (simp_all add: md)
  have fail: "handles md c w (rbind (app_do c g w1) (\<lambda>w.
      rbind (context_exit c w) (\<lambda>w. resume (module_run env) n md Mod_Failed c w)))" if "tends md c w w1" "hooks md g" for g w1
    by (rule tends_bind_world [OF that(1) app_do_tends [OF that(2)] exit])
  have hooks: "hooks md (rs_on_write_resp_succeed h)" "hooks md (rs_on_write_resp_failed h)"
    by (simp_all add: hooks_def md)
  show ?thesis
    unfolding on_write_resp_def
    using exit [OF tends_refl] cancel_bind_if [OF tends_refl at_work_cancels(2) [OF w] go [OF _ hooks(1)]]
      cancel_bind_if [OF tends_refl at_work_cancels(2) [OF w] fail [OF _ hooks(2)]] by simp
qed

text \<open>
  The socket handlers of \<open>TcpModule\<close>, with the socket event open.
\<close>

lemma in_lock_drives:
  assumes "\<And>w'. idle w w' \<Longrightarrow> (\<forall>c n. exch_at w' c n = exch_at w c n) \<Longrightarrow> drives f N (body w')"
  shows "drives f N (in_tcp_lock md c body w)"
proof (rule yieldsI)
  fix w' assume "in_tcp_lock md c body w = Inr w'"
  then obtain w1 w2 where *: "tcp_lock md c w = Inr w1" "body w1 = Inr w2" "tcp_unlock md c w2 = Inr w'"
    by (auto simp: in_tcp_lock_def with_tcp_lock_def)
  have "drives f N (body w1)"
    using assms yieldsD [OF tcp_lock_idle(1) *(1)] yieldsD [OF tcp_lock_calm *(1)] by (simp add: calm_def)
  from yieldsD [OF this *(2)] yieldsD [OF tcp_lock_idle(2) *(3)]
  show "w_fsm w' = f \<and> moves f N (net_of w')" by (simp add: idle_def)
qed

lemma tcp_event_drives:
  assumes opened: "snd (exch_at w c (md_name md)) = Socket_Event_Opened"
    and body: "\<And>w'. tends md c w w' \<Longrightarrow> drives f N (body w')"
  shows "drives f N (tcp_event md c body w)"
  unfolding tcp_event_def
proof (rule in_lock_drives, rule yields_bind [OF tcp_get_same], clarify)
  fix d and w' :: "'a world"
  assume w': "idle w w'" "\<forall>c n. exch_at w' c n = exch_at w c n"
    and d: "mdata w' c (md_name md) = Some (Some (Tcp_data d))"
  from d have "exch_at w' c (md_name md) = (td_client d, td_socket_event d)" by (simp add: exch_at_def)
  with w'(2) opened have "td_socket_event d = Socket_Event_Opened" by simp
  moreover have "drives f N (rbind (tcp_modify md c (\<lambda>d. d\<lparr>td_socket_event := Socket_Event_Closed\<rparr>) w') body)"
    by (rule idle_bind_world [OF w'(1) tcp_modify_idle body [OF idle_tends]])
  ultimately show "drives f N (if td_socket_event d \<noteq> Socket_Event_Opened then Inr w'
      else rbind (tcp_modify md c (\<lambda>d. d\<lparr>td_socket_event := Socket_Event_Closed\<rparr>) w') body)" by simp
qed

lemma tcp_failed_handles:
  assumes w: "at_work rank env w" "tends md c w w'" and md: "md_class md = TcpModule pool h"
    and failed: "\<And>w'. yields (on_failed w') (tends md c w')"
  shows "handles md c w (tcp_failed env (module_run env) n md on_failed c ec w')"
proof -
  have go: "handles md c w (resume (module_run env) n md s c w1)" if "tends md c w w1" for s w1
    by (rule resume_handles [OF w(1) that]) (simp add: md)
  have "handles md c w (rbind (on_failed w1) (\<lambda>w. resume (module_run env) n md Mod_Failed c w))" if "tends md c w w1" for w1
    by (rule tends_bind_world [OF that failed go])
  note more = cancel_bind_if [OF w(2) at_work_cancels(3) [OF w(1)] this]
  show ?thesis unfolding tcp_failed_def using more go [OF w(2)] by simp
qed

lemma on_connect_handles:
  assumes w: "at_work rank env w" and md: "md_class md = TcpModule pool h"
    and opened: "snd (exch_at w c (md_name md)) = Socket_Event_Opened"
  shows "handles md c w (on_connect env (module_run env) n md h c ip port ec w)"
  unfolding on_connect_def
proof (rule tcp_event_drives [OF opened])
  fix w' :: "'a world" assume w': "tends md c w w'"
  have go: "handles md c w (rbind (send_with_timer md h c w1) (\<lambda>(_, w). Inr w))" if "tends md c w w1" for w1
    by (rule yields_bind [OF send_with_timer_ran [OF that md]]) (auto simp: ran_for_def)
  have "hooks md (tm_on_connect_failed h ip port)" by (simp add: hooks_def md)
  note more = cancel_bind_if [OF w' at_work_cancels(3) [OF w] go] tcp_failed_handles [OF w w' md app_do_tends [OF this]]
  show "handles md c w (if ec_set ec
      then tcp_failed env (module_run env) n md (app_do c (tm_on_connect_failed h ip port)) c ec w'
      else rbind (cancel_time_out_timer env md c w') (\<lambda>(ok, w). if \<not> ok then Inr w
        else rbind (send_with_timer md h c w) (\<lambda>(_, w). Inr w)))"
    using more by simp
qed

lemma open_read_handles:
  assumes "tends md c w w'" and "mark_of hdl = Some (c, Busy md)"
  shows "handles md c w (rbind (tcp_the_client md c w') (\<lambda>(i, w).
      tcp_modify md c g (start_op (Async_read (Client_socket i) len hdl) w)))"
proof (rule still_bind [OF assms(1) the_client_idle], unfold prod.case)
  fix i and w1 :: "'a world" assume w1: "tends md c w w1"
  have "handles md c w (Inr (start_op (Async_read (Client_socket i) len hdl) w1))"
    by (rule start_handles [OF w1]) (simp add: assms(2))
  then show "handles md c w (tcp_modify md c g (start_op (Async_read (Client_socket i) len hdl) w1))"
    by (intro yields_mono [OF tcp_modify_idle]) (auto simp: idle_def)
qed

lemma on_write_req_handles:
  assumes w: "at_work rank env w" and md: "md_class md = TcpModule pool h"
    and opened: "snd (exch_at w c (md_name md)) = Socket_Event_Opened"
  shows "handles md c w (on_write_req env (module_run env) n md h c ec w)"
  unfolding on_write_req_def Let_def
  by (rule tcp_event_drives [OF opened])
    (auto simp: hooks_def md intro!: tcp_failed_handles [OF w _ md app_do_tends] open_read_handles)

lemma close_app_tends:
  assumes "hooks md g"
  shows "yields (rbind (tcp_close_client md c w) (\<lambda>w. app_do c g w)) (tends md c w)"
proof -
  have "yields (tcp_close_client md c w) (idle w)"
    unfolding tcp_close_client_def by (rule yields_bind [OF the_client_idle]) auto
  then show ?thesis
    by (rule still_bind_world [OF tends_refl]) (auto intro: yields_mono [OF app_do_tends [OF assms]] tends_trans)
qed

lemma on_recv_resp_head_handles:
  assumes w: "at_work rank env w" and md: "md_class md = TcpModule pool h"
    and opened: "snd (exch_at w c (md_name md)) = Socket_Event_Opened"
  shows "handles md c w (on_recv_resp_head env (module_run env) n md h c buf len ec w)"
  unfolding on_recv_resp_head_def
proof (rule tcp_event_drives [OF opened])
  fix w' :: "'a world" assume w': "tends md c w w'"
  have judge: "tends_to md c w' (if ec_set ec then Inr (False, w') else app_call c (tm_on_read_head_impl h buf len) w')"
    using app_call_tends [of md "tm_on_read_head_impl h buf len" c w'] by (simp add: hooks_def md)
  show "handles md c w (rbind (if ec_set ec then Inr (False, w') else app_call c (tm_on_read_head_impl h buf len) w')
      (\<lambda>(ok, w). if \<not> ok then
           tcp_failed env (module_run env) n md
             (\<lambda>w. rbind (tcp_close_client md c w) (\<lambda>w. app_do c (tm_on_read_head_failed h) w)) c ec w
         else
           rbind (app_get c (tm_get_resp_body_len h) w) (\<lambda>body_len.
           rbind (tcp_the_client md c w) (\<lambda>(i, w).
             tcp_modify md c (\<lambda>d. d\<lparr>td_socket_event := Socket_Event_Opened\<rparr>)
               (start_op (Async_read (Client_socket i) body_len
                            (On_recv_resp_body md c body_len)) w)))))"
    by (rule tends_bind [OF w' judge])
      (auto simp: hooks_def md intro!: tcp_failed_handles [OF w _ md close_app_tends] yields_any [where r = "app_get _ _ _"] open_read_handles)
qed

lemma tcp_give_client_idle: "yields (tcp_give_client env md pool c w) (idle w)"
  unfolding tcp_give_client_def
  by (rule yields_bind [OF tcp_get_same]) (auto split: prod.split intro!: yields_mono [OF tcp_modify_idle])

lemma on_recv_resp_body_handles:
  assumes w: "at_work rank env w" and md: "md_class md = TcpModule pool' h"
    and opened: "snd (exch_at w c (md_name md)) = Socket_Event_Opened"
  shows "handles md c w (on_recv_resp_body env (module_run env) n md pool h c buf len ec w)"
  unfolding on_recv_resp_body_def
proof (rule tcp_event_drives [OF opened])
  fix w' :: "'a world" assume w': "tends md c w w'"
  have "handles md c w (rbind (app_call c (tm_on_read_body_impl h buf len) w1) (\<lambda>(ret, w).
        resume (module_run env) n md (if ret then Mod_Succeed else Mod_Failed) c w))" if "tends md c w w1" for w1
    by (rule tends_bind [OF that app_call_tends]) (auto intro!: resume_handles [OF w] simp: md hooks_def)
  then have "handles md c w (rbind (tcp_give_client env md pool c w1) (\<lambda>w.
      rbind (app_call c (tm_on_read_body_impl h buf len) w) (\<lambda>(ret, w).
        resume (module_run env) n md (if ret then Mod_Succeed else Mod_Failed) c w)))" if "tends md c w w1" for w1
    by (rule still_bind_world [OF that tcp_give_client_idle])
  note go = this
  have "hooks md (tm_on_read_body_failed h)" by (simp add: hooks_def md)
  note more = cancel_bind_if [OF w' at_work_cancels(3) [OF w] go] tcp_failed_handles [OF w w' md app_do_tends [OF this]]
  show "handles md c w (if ec_set ec
      then tcp_failed env (module_run env) n md (app_do c (tm_on_read_body_failed h)) c ec w'
      else rbind (cancel_time_out_timer env md c w') (\<lambda>(ok, w). if \<not> ok then Inr w
      else rbind (tcp_give_client env md pool c w) (\<lambda>w.
        rbind (app_call c (tm_on_read_body_impl h buf len) w) (\<lambda>(ret, w).
          resume (module_run env) n md (if ret then Mod_Succeed else Mod_Failed) c w))))"
    using more by simp
qed

section \<open>The event loop moves marks\<close>

text \<open>A time-out handler may come at any time, and may only change the numbers.\<close>

lemma app_do_late:
  assumes md: "registered (w_fsm w) md" and g: "\<And>f. timers_keep f (md_class md) \<Longrightarrow> keeps_nums f g"
  shows "drives (w_fsm w) (net_of w) (app_do c g w)"
proof (rule yieldsI)
  fix w' assume "app_do c g w = Inr w'"
  then obtain x where "app_call c (\<lambda>d. ((), g d)) w = Inr (x, w')" by (auto simp: app_do_def)
  from app_call_net [OF this] obtain d where d: "n_num (net_of w) c = nums_of (w_fsm w) d" "w_fsm w' = w_fsm w"
    "net_of w' = renum c (nums_of (w_fsm w) (g d)) (net_of w)" by auto
  show "w_fsm w' = w_fsm w \<and> moves (w_fsm w) (net_of w) (net_of w')"
  proof (cases "timers_keep (w_fsm w) (md_class md)")
    case True
    with g have "nums_of (w_fsm w) (g d) = n_num (net_of w) c" by (simp add: keeps_nums_def d)
    with d renum_same(1) [of c "net_of w"] show ?thesis by simp
  next
    case False
    with d r_into_rtranclp [where r = "net_step (w_fsm w)", OF ns_late [OF md False, of "net_of w" c "g d"]]
    show ?thesis by simp
  qed
qed

lemma cancel_socket_idle [simp]: "net_of (cancel_socket so w) = net_of w"
  by (simp add: net_of_def joined_at_def num_at_def exit_at_def conn_at_def fun_eq_iff)

lemma then_cancel_drives: "drives f N r \<Longrightarrow> drives f N (rbind r (\<lambda>w. cancel_conn env c w))"
  by (erule yields_bind) (auto intro!: yieldsI dest!: cancel_conn_Inr)

lemma tcp_cancel_client_idle: "yields (tcp_cancel_client md c w) (idle w)"
  by (rule yieldsI) (auto simp: idle_def dest!: tcp_cancel_client_Inr)

lemma time_out_drives:
  assumes "registered (w_fsm w) md"
  shows "md_class md = RequestModule h \<Longrightarrow> drives (w_fsm w) (net_of w) (on_read_time_out env h flag c ec w)"
    "md_class md = ResponseModule h' \<Longrightarrow> drives (w_fsm w) (net_of w) (on_write_time_out env h' c ec w)"
proof -
  note late = app_do_late [OF assms, of _ c]
  assume md: "md_class md = RequestModule h"
  have "drives (w_fsm w) (net_of w) (if flag = 1 then app_do c (rq_on_read_version_time_out h) w
      else app_do c (rq_on_read_head_and_body_time_out h) w)"
    using late by (simp add: md)
  note go = then_cancel_drives [OF this]
  show "drives (w_fsm w) (net_of w) (on_read_time_out env h flag c ec w)"
    unfolding on_read_time_out_def by (cases "ec_set ec") (simp, simp only: if_False, rule go)
next
  note late = app_do_late [OF assms, of _ c]
  assume md: "md_class md = ResponseModule h'"
  have "drives (w_fsm w) (net_of w) (app_do c (rs_on_write_resp_time_out h') w)" using late by (simp add: md)
  note go = then_cancel_drives [OF this]
  show "drives (w_fsm w) (net_of w) (on_write_time_out env h' c ec w)"
    unfolding on_write_time_out_def by (cases "ec_set ec") (simp, simp only: if_False, rule go)
qed

lemma tcp_time_out_drives:
  assumes "registered (w_fsm w) md" and "\<And>f. timers_keep f (md_class md) \<Longrightarrow> keeps_nums f g"
  shows "drives (w_fsm w) (net_of w) (in_tcp_lock md c (\<lambda>w. if ec_set ec then Inr w
    else rbind (tcp_cancel_client md c w) (\<lambda>w. app_do c g w)) w)"
proof (rule in_lock_drives)
  fix w' assume idle: "idle w w'"
  have "drives (w_fsm w) (net_of w) (rbind (tcp_cancel_client md c w') (\<lambda>w. app_do c g w))"
  proof (rule yields_bind [OF tcp_cancel_client_idle])
    fix v assume "idle w' v"
    with idle show "drives (w_fsm w) (net_of w) (app_do c g v)"
      using app_do_late [of v md g c] assms by (simp add: idle_def)
  qed
  with idle show "drives (w_fsm w) (net_of w) (if ec_set ec then Inr w'
      else rbind (tcp_cancel_client md c w') (\<lambda>w. app_do c g w))"
    by (simp add: idle_def)
qed

lemma on_accepted_drives:
  assumes wf: "fsm_wf rank (w_fsm w)"
  shows "drives (w_fsm w) ((net_of w)\<lparr>n_waiting := add_mset conn (n_waiting (net_of w))\<rparr>)
    (on_accepted (module_run env) n conn ec w)"
proof -
  let ?N = "(net_of w)\<lparr>n_waiting := add_mset conn (n_waiting (net_of w))\<rparr>"
  obtain start where start: "fsm_start_mod (w_fsm w) = Some start" using wf by (auto simp: fsm_wf_def start_ok_def)
  obtain c w1 where new: "context_new conn w = (c, w1)" by fastforce
  have "\<exists>d. drives (w_fsm w) (open_ctx start conn (nums_of (w_fsm w) d) (net_of w))
      (rbind (context_init c w1) (handle_request (module_run env) n c))"
    by (rule marks.new_request_drives [OF wf refl new start]) (rule marks.fsm_run_drives [OF wf])
  then obtain d where "drives (w_fsm w) (open_ctx start conn (nums_of (w_fsm w) d) (net_of w))
      (rbind (context_init c w1) (handle_request (module_run env) n c))" ..
  from drives_first [OF ns_accept [OF start] this]
  have req: "drives (w_fsm w) ?N (rbind (context_init c w1) (handle_request (module_run env) n c))" .
  have "net_of (start_accept w2) = (net_of w2)\<lparr>n_waiting := add_mset (n_next_conn (net_of w2)) (n_waiting (net_of w2)),
      n_next_conn := Suc (n_next_conn (net_of w2))\<rparr>" "w_fsm (start_accept w2) = w_fsm w2" for w2 :: "'a world"
    by (simp_all add: start_accept_def Let_def net_of_start_op)
      (simp add: net_of_def joined_at_def num_at_def exit_at_def conn_at_def mdata_def fun_eq_iff)
  then have listen: "net_step f (net_of w2) (net_of (start_accept w2)) \<and> w_fsm (start_accept w2) = w_fsm w2"
    for f and w2 :: "'a world"
    using ns_listen [of f "net_of w2"] by simp
  have "moves f N (net_of w2) \<Longrightarrow> moves f N (net_of (start_accept w2))" for f N and w2 :: "'a world"
    using listen [of f w2] by (meson rtranclp.rtrancl_into_rtrancl)
  then have "drives (w_fsm w) ?N (rbind (rbind (context_init c w1) (handle_request (module_run env) n c))
      (\<lambda>w. Inr (start_accept w)))"
    by (intro yields_bind [OF req]) (simp add: listen)
  moreover have "rbind (rbind r g) h = rbind r (\<lambda>x. rbind (g x) h)" for r :: "'a world res" and g h :: "'a world \<Rightarrow> 'a world res"
    by (cases r) auto
  ultimately show ?thesis using new by (simp add: on_accepted_def)
qed

text \<open>The operation that completes gives its mark to its handler.\<close>

lemma pend_remove:
  assumes "i < length as"
  shows "pend_marks as c = (case mark_of (op_handler (as ! i)) of
        Some (c', t) \<Rightarrow> if c' = c then {#t#} else {#} | None \<Rightarrow> {#}) + pend_marks (take i as @ drop (Suc i) as) c"
    "pend_accepts as = (case accept_of (op_handler (as ! i)) of Some k \<Rightarrow> {#k#} | None \<Rightarrow> {#}) +
       pend_accepts (take i as @ drop (Suc i) as)"
  by (subst id_take_nth_drop [OF assms], simp add: ac_simps)+

lemma net_of_remove:
  assumes "i < length (w_pending w)"
  shows "mark_of (op_handler (w_pending w ! i)) = Some (c, t) \<Longrightarrow> put_mark c t (net_of (remove_op i w)) = net_of w"
    "accept_of (op_handler (w_pending w ! i)) = Some k \<Longrightarrow>
       (net_of (remove_op i w))\<lparr>n_waiting := add_mset k (n_waiting (net_of (remove_op i w)))\<rparr> = net_of w"
    "mark_of (op_handler (w_pending w ! i)) = None \<Longrightarrow> accept_of (op_handler (w_pending w ! i)) = None \<Longrightarrow>
       net_of (remove_op i w) = net_of w"
proof -
  note rm = pend_remove [OF assms]
  have same: "joined_at (remove_op i w) = joined_at w" "num_at (remove_op i w) = num_at w" "exit_at (remove_op i w) = exit_at w"
    "conn_at (remove_op i w) = conn_at w"
    by (simp_all add: remove_op_def joined_at_def num_at_def exit_at_def conn_at_def fun_eq_iff)
  show "put_mark c t (net_of (remove_op i w)) = net_of w" if "mark_of (op_handler (w_pending w ! i)) = Some (c, t)"
    using rm that mark_accept [OF that] same by (simp add: net_of_def put_marks_def fun_eq_iff remove_op_def)
  have none: "mark_of h = None" if "accept_of h = Some k" for h :: "'a handler" and k using that by (cases h) auto
  show "(net_of (remove_op i w))\<lparr>n_waiting := add_mset k (n_waiting (net_of (remove_op i w)))\<rparr> = net_of w"
    if "accept_of (op_handler (w_pending w ! i)) = Some k"
    using rm that none [OF that] same by (simp add: net_of_def fun_eq_iff remove_op_def)
  show "net_of (remove_op i w) = net_of w"
    if "mark_of (op_handler (w_pending w ! i)) = None" "accept_of (op_handler (w_pending w ! i)) = None"
    using rm that same by (simp add: net_of_def fun_eq_iff remove_op_def)
qed

lemmas handlers_drive = on_read_version_handles on_read_head_handles on_read_body_handles on_write_resp_handles
  on_connect_handles on_write_req_handles on_recv_resp_head_handles on_recv_resp_body_handles

lemma dispatch_drives:
  assumes w: "at_work rank env w" and ok: "handler_ok (w_fsm w) C h"
    and opened: "\<And>c n. exchange_of h = Some (c, n) \<Longrightarrow> snd (exch_at w c n) = Socket_Event_Opened"
  shows "drives (w_fsm w)
    (case mark_of h of Some (c, t) \<Rightarrow> put_mark c t (net_of w)
     | None \<Rightarrow> (case accept_of h of
         Some k \<Rightarrow> (net_of w)\<lparr>n_waiting := add_mset k (n_waiting (net_of w))\<rparr> | None \<Rightarrow> net_of w))
    (dispatch env n h ec buf w)"
proof -
  have wf: "fsm_wf rank (w_fsm w)" using w by (simp add: at_work_def)
  show ?thesis
    by (cases h)
      (use opened ok in \<open>auto simp: bound_to_def on_handle_connect_time_out_def on_handle_time_out_def on_forked_def on_joined_def
        split: module_class.split intro!: handlers_drive [OF w] marks.resumes [OF wf refl] on_accepted_drives [OF wf]
        time_out_drives tcp_time_out_drives\<close>)
qed

lemma complete_drives:
  assumes "at_work rank env w" and i: "i < length (w_pending w)" and tok: "tok f w"
    and ok: "handler_ok (w_fsm w) C (op_handler (w_pending w ! i))"
  shows "drives (w_fsm w) (net_of w) (complete env n i ec buf w)"
proof -
  let ?h = "op_handler (w_pending w ! i)" and ?w = "remove_op i w"
  have same: "w_fsm ?w = w_fsm w" "exch_at ?w = exch_at w"
    by (simp_all add: remove_op_def exch_at_def fun_eq_iff)
  have "at_work rank env ?w" using assms(1) same by (simp add: at_work_def)
  moreover have "snd (exch_at ?w c m) = Socket_Event_Opened" if "exchange_of ?h = Some (c, m)" for c m
    using tok_exchange [OF tok nth_mem [OF i] that] same by (simp add: exch_open_def)
  ultimately have "drives (w_fsm ?w)
    (case mark_of ?h of Some (c, t) \<Rightarrow> put_mark c t (net_of ?w)
     | None \<Rightarrow> (case accept_of ?h of
         Some k \<Rightarrow> (net_of ?w)\<lparr>n_waiting := add_mset k (n_waiting (net_of ?w))\<rparr> | None \<Rightarrow> net_of ?w))
    (complete env n i ec buf w)"
    unfolding complete_def using ok same by (intro dispatch_drives) simp_all
  then show ?thesis
    using net_of_remove [OF i] same by (auto split: option.splits)
qed

lemma sweep_idle: "sweep_pool env ks p w = Inr w' \<Longrightarrow> idle w w'"
  by (auto simp: sweep_pool_def)

section \<open>The server implements the net\<close>

text \<open>
  The environments considered: \<open>deadline_timer::cancel(ec)\<close> leaves \<open>ec\<close> unset. asio documents the
  argument as the place of an error, and a handler that finds one returns and leaves its request where
  it is, so the theorems below are about the runs in which no timer fails to be cancelled. Sockets may
  fail in every way.
\<close>

definition sound_env :: "asio_env \<Rightarrow> bool" where
  "sound_env env \<longleftrightarrow> timers_cancel env"

lemma sound_step: "loop_step sound_env n w w' \<Longrightarrow> loop_step any_env n w w'"
  by (erule loop_stepE) (auto simp: sound_env_def intro: loop_step.intros)

lemma sound_reach: "reach init (loop_step sound_env n) w \<Longrightarrow> reach init (loop_step any_env n) w"
  by (induction rule: reach.induct) (auto intro: reach_init reach_step sound_step)

lemma split_wf: "split_inv rank n w \<Longrightarrow> fsm_wf rank (w_fsm w)"
  by (simp add: split_inv_def server_inv_def winv_def)

lemma step_moves:
  assumes inv: "split_inv rank n w" and step: "loop_step sound_env n w w'"
  shows "w_fsm w' = w_fsm w" "moves (w_fsm w) (net_of w) (net_of w')"
proof -
  have tok: "tok (w_fsm w) w" using inv by (simp add: split_inv_def)
  from step have "w_fsm w' = w_fsm w \<and> moves (w_fsm w) (net_of w) (net_of w')"
  proof (rule loop_stepE)
    fix i env ec buf assume "i < length (w_pending w)" "sound_env env" "complete env n i ec buf w = Inr w'"
    note i = this
    have "handler_ok (w_fsm w) (dom (w_contexts w)) (op_handler (w_pending w ! i))"
      using inv nth_mem [OF i(1)] by (simp add: split_inv_def server_inv_def winv_def)
    moreover have "at_work rank env w" using split_wf [OF inv] i(2) by (simp add: at_work_def sound_env_def)
    ultimately show ?thesis using yieldsD [OF complete_drives [OF _ i(1) tok] i(3)] by blast
  next
    fix ks p env assume "sweep_pool env ks p w = Inr w'"
    from sweep_idle [OF this] show ?thesis by (simp add: idle_def)
  qed
  then show "w_fsm w' = w_fsm w" "moves (w_fsm w) (net_of w) (net_of w')" by simp_all
qed

text \<open>
  C5: The server implements the net of marks. Take a well-formed machine whose links descend in a rank and in which no
  two branches of a fork lead to the same \<open>TcpModule\<close> (\<open>split_start\<close>), and turns in which cancelling a
  timer reports no error (\<open>sound_env\<close>). In every state so reached, whichever operation completes, with
  whatever result, the turn of the event loop is a sequence of moves of the net: a mark ends at its
  module, follows the link for its state, is divided at a fork, is held back or released at a join, and
  at the end module gives way to a new context of the same connection, or to none when the context is to
  exit; new connections are accepted, a reading or writing module may mark its context for exit, and
  application code may change the numbers of branches. A mark is given up by three moves only: when its
  module has no link for its state, and the context is then marked for exit (\<open>ns_abandon\<close>), when an
  application module answers \<open>Mod_async\<close> with nothing pending (\<open>ns_stop\<close>), and when the request gives a
  fork no branches (\<open>ns_fork\<close>). Otherwise no mark is lost, doubled or moved past a module.
\<close>

theorem server_implements_net:
  assumes "reach (split_start rank n) (loop_step sound_env n) w" and "loop_step sound_env n w w'"
  shows "(net_step (w_fsm w))\<^sup>*\<^sup>* (net_of w) (net_of w')"
  by (rule step_moves [OF split_machine.inv_reach [OF sound_reach [OF assms(1)]] assms(2)])

section \<open>No connection is lost\<close>

definition balanced_start :: "(string \<Rightarrow> nat) \<Rightarrow> certificate \<Rightarrow> nat \<Rightarrow> 'd world \<Rightarrow> bool" where
  "balanced_start rank ct n w \<longleftrightarrow>
     split_start rank n w \<and> balanced rank ct (w_fsm w) \<and> w_next_ctx w = 0 \<and>
     (\<exists>w0. w_pending w0 = [] \<and> w = start_accept w0)"

definition balanced_inv :: "(string \<Rightarrow> nat) \<Rightarrow> certificate \<Rightarrow> nat \<Rightarrow> 'd world \<Rightarrow> bool" where
  "balanced_inv rank ct n w \<longleftrightarrow>
     split_inv rank n w \<and> balanced rank ct (w_fsm w) \<and> net_inv rank ct (w_fsm w) (net_of w)"

lemma balanced_start_inv: "balanced_start rank ct n w \<Longrightarrow> balanced_inv rank ct n w"
proof -
  assume start: "balanced_start rank ct n w"
  then have "w_contexts w = Map.empty" by (simp add: balanced_start_def split_start_def server_start_def)
  then have "net_start (net_of w)"
    using start by (auto simp: balanced_start_def net_start_def net_of_def start_accept_def start_op_def Let_def
        joined_at_def conn_at_def mdata_def fun_eq_iff)
  with start split_start_inv [of rank n w] net_start_inv [of "net_of w"] show ?thesis
    by (simp add: balanced_start_def balanced_inv_def)
qed

lemma balanced_step_inv:
  assumes "balanced_inv rank ct n w" and "loop_step sound_env n w w'"
  shows "balanced_inv rank ct n w'"
proof -
  have inv: "split_inv rank n w" using assms(1) by (simp add: balanced_inv_def)
  note moved = step_moves [OF inv assms(2)]
  have "net_inv rank ct (w_fsm w) (net_of w')"
    by (rule net.inv_steps [OF moved(2)]) (use assms(1) in \<open>simp add: balanced_inv_def\<close>)
  with split_step_inv [OF inv sound_step [OF assms(2)]] assms(1) moved(1) show ?thesis
    by (simp add: balanced_inv_def)
qed

interpretation balanced_machine: invariant "balanced_start rank ct n" "loop_step sound_env n" "balanced_inv rank ct n"
  for rank ct n
  by unfold_locales (erule balanced_start_inv, erule (1) balanced_step_inv)

text \<open>A context is at work when one of its pending operations will resume the machine.\<close>

definition works :: "'d world \<Rightarrow> ctx_id \<Rightarrow> bool" where
  "works w c \<longleftrightarrow> (\<exists>a \<in> set (w_pending w). \<exists>t. mark_of (op_handler a) = Some (c, t))"

lemma works_marks: "works w c \<longleftrightarrow> n_marks (net_of w) c \<noteq> {#}"
proof -
  have "pend_marks as c \<noteq> {#} \<longleftrightarrow> (\<exists>a \<in> set as. \<exists>t. mark_of (op_handler a) = Some (c, t))" for as
    by (induction as) (auto split: option.split)
  from this [of "w_pending w"] show ?thesis unfolding works_def net_of_def by simp
qed

text \<open>The contexts of a connection.\<close>

definition conn_ctxs :: "'d world \<Rightarrow> conn_id \<Rightarrow> ctx_id set" where
  "conn_ctxs w k = {c. \<exists>cx. w_contexts w c = Some cx \<and> cx_conn cx = k}"

definition conn_exits :: "'d world \<Rightarrow> conn_id \<Rightarrow> bool" where
  "conn_exits w k \<longleftrightarrow> (\<exists>c cx. w_contexts w c = Some cx \<and> cx_conn cx = k \<and> cx_exit cx)"

lemma balanced_served:
  assumes "balanced_inv rank ct n w"
  shows "(\<forall>k. \<forall>c \<in> conn_ctxs w k. \<forall>c' \<in> conn_ctxs w k. works w c \<and> works w c' \<longrightarrow> c = c') \<and>
    (\<forall>k. conn_ctxs w k \<noteq> {} \<and> \<not> conn_exits w k \<longrightarrow> (\<exists>c \<in> conn_ctxs w k. works w c))"
proof -
  have ok: "conns_ok (net_of w)"
    using assms split_wf [of rank n w] by (auto simp: balanced_inv_def net_inv_def fsm_wf_def)
  have conn: "n_conn (net_of w) c = Some k \<longleftrightarrow> c \<in> conn_ctxs w k" for c k
    by (auto simp: net_of_def conn_at_def conn_ctxs_def)
  have exit: "conn_exits w k" if "n_conn (net_of w) c = Some k" "n_exit (net_of w) c" for c k
    using that by (auto simp: net_of_def conn_at_def exit_at_def conn_exits_def split: option.splits)
  show ?thesis
    using ok exit unfolding conns_but_def serving_def works_marks [symmetric] conn by blast
qed

text \<open>
  C4: No connection is lost. Assumed of the machine (\<open>balanced_start\<close>): it is well-formed and its links
  descend in a rank; no two
  branches of a fork lead to the same \<open>TcpModule\<close>; and it is balanced, that is, its forks and joins fit
  together, as weights of the modules show, for all numbers of branches that requests announce, these
  are settled before the first fork and not changed by time-out methods, and no application module
  answers \<open>Mod_async\<close> of itself. Assumed of the environment: cancelling a timer reports no error
  (\<open>sound_env\<close>; a handler that finds one leaves its request where it is). Then in every reachable state,
  for every connection that was accepted, however the completions fell and whichever socket operations
  failed, at most one of its contexts is at work, and one is, unless a context of the connection has been
  told to exit: a request never stops half-way, and never continues twice.
\<close>

theorem no_connection_lost:
  assumes "reach (balanced_start rank ct n) (loop_step sound_env n) w"
  shows "(\<forall>k. \<forall>c \<in> conn_ctxs w k. \<forall>c' \<in> conn_ctxs w k. works w c \<and> works w c' \<longrightarrow> c = c') \<and>
    (\<forall>k. conn_ctxs w k \<noteq> {} \<and> \<not> conn_exits w k \<longrightarrow> (\<exists>c \<in> conn_ctxs w k. works w c))"
  by (rule balanced_served [OF balanced_machine.inv_reach [OF assms]])

end
