(* ===== verification/Served_Forever.thy ===== *)
theory Served_Forever
  imports Net_Refinement Request_Progress
begin

text \<open>
  Progress and conservation together: a balanced server in a run in which every pending operation
  completes at some time finishes every request, and goes on serving every connection until one
  of its contexts is told to exit.
\<close>

section \<open>Runs in which every operation completes\<close>

text \<open>
  What the event loop relies on: an operation that is pending is completed at some time, with an
  error or without. (The framework sets a deadline timer beside each socket operation of a
  request, and its handler cancels them.)
\<close>

definition all_complete :: "(nat \<Rightarrow> nat option) \<Rightarrow> (nat \<Rightarrow> 'd world) \<Rightarrow> bool" where
  "all_complete act run \<longleftrightarrow>
     (\<forall>k. \<forall>a \<in> set (w_pending (run k)). \<exists>j\<ge>k. \<exists>i. act j = Some i \<and> w_pending (run j) ! i = a)"

lemma mark_ctx: "mark_of h = Some (c, t) \<Longrightarrow> handler_ctx h = Some c"
  by (cases h) auto

lemma works_serves:
  assumes "all_complete act run" and "works (run k) c"
  shows "\<exists>j\<ge>k. serves (act j) c (run j)"
proof -
  from assms(2) obtain a t where a: "a \<in> set (w_pending (run k))" "mark_of (op_handler a) = Some (c, t)"
    by (auto simp: works_def)
  with assms(1) obtain j i where "j \<ge> k" "act j = Some i" "w_pending (run j) ! i = a"
    unfolding all_complete_def by blast
  with mark_ctx [OF a(2)] show ?thesis by (auto simp: serves_def)
qed

lemma sound_turn: "turn sound_env n act w w' \<Longrightarrow> turn any_env n act w w'"
  by (auto simp: turn_def sound_env_def split: option.splits)

lemma works_finitely:
  assumes "reach (server_start rank n) (loop_step any_env n) (run 0)"
    and "\<And>k. turn any_env n (act k) (run k) (run (Suc k))" and "all_complete act run"
  shows "finite {k. works (run k) c}"
proof -
  have "finite {k. serves (act k) c (run k)}" by (rule worked_off [OF assms(1,2)])
  then obtain b where b: "\<And>k. serves (act k) c (run k) \<Longrightarrow> k < b"
    unfolding finite_nat_set_iff_bounded by blast
  have "k < b" if "works (run k) c" for k
    using works_serves [OF assms(3) that] b by (meson le_less_trans)
  then show ?thesis unfolding finite_nat_set_iff_bounded by blast
qed

section \<open>Connections\<close>

lemma conn_kept_net:
  assumes "net_wf f N" and "net_step f N N'" and "n_conn N c = Some k"
  shows "n_conn N' c = Some k"
proof -
  have "n_next N \<noteq> c" using assms(1,3) by (auto simp: net_wf_def)
  with assms(2,3) show ?thesis by cases auto
qed

lemma conn_kept_moves:
  assumes "moves f N N'" and "net_inv rank ct f N" and "balanced rank ct f" "start_ok f"
    and "n_conn N c = Some k"
  shows "n_conn N' c = Some k"
proof -
  from assms(1,2,5) have "net_inv rank ct f N' \<and> n_conn N' c = Some k"
  proof (induction rule: rtranclp_induct)
    case (step N1 N2)
    then have inv: "net_inv rank ct f N1" "n_conn N1 c = Some k" by simp_all
    then have "net_wf f N1" using assms(3,4) weighed_wf by (auto simp: net_inv_def)
    with net_step_inv [OF inv(1) step(2)] conn_kept_net [OF _ step(2) inv(2)] show ?case by simp
  qed simp
  then show ?thesis ..
qed

lemma conn_kept:
  assumes "balanced_inv rank ct n w" and "loop_step sound_env n w w'"
  shows "conn_ctxs w k \<subseteq> conn_ctxs w' k"
proof
  fix c assume "c \<in> conn_ctxs w k"
  then have c: "n_conn (net_of w) c = Some k" by (auto simp: conn_ctxs_def net_of_def conn_at_def)
  have inv: "split_inv rank n w" using assms(1) by (simp add: balanced_inv_def)
  have "start_ok (w_fsm w)" using split_wf [OF inv] by (simp add: fsm_wf_def)
  with assms(1) have "n_conn (net_of w') c = Some k"
    by (intro conn_kept_moves [OF step_moves(2) [OF inv assms(2)] _ _ _ c]) (auto simp: balanced_inv_def)
  then show "c \<in> conn_ctxs w' k" by (auto simp: conn_ctxs_def net_of_def conn_at_def)
qed

lemma served_on:
  assumes inv: "\<And>k. balanced_inv rank ct n (run k)"
    and turn: "\<And>k. turn sound_env n (act k) (run k) (run (Suc k))"
    and fin: "\<And>c. finite {k. works (run k) c}" and some: "conn_ctxs (run k0) conn \<noteq> {}"
  shows "(\<exists>k. conn_exits (run k) conn) \<or> infinite (\<Union>k. conn_ctxs (run k) conn)"
proof (rule disjCI)
  let ?C = "\<Union>k. conn_ctxs (run k) conn"
  assume few: "\<not> infinite ?C"
  have "conn_ctxs (run k0) conn \<subseteq> conn_ctxs (run (k0 + j)) conn" for j
    by (induction j) (use conn_kept [OF inv turn_step [OF turn]] in fastforce)+
  with some have some: "conn_ctxs (run (k0 + j)) conn \<noteq> {}" for j by blast
  have "finite (\<Union>c\<in>?C. {k. works (run k) c})" using few fin by blast
  then obtain b where b: "\<And>k c. c \<in> ?C \<Longrightarrow> works (run k) c \<Longrightarrow> k < b"
    unfolding finite_nat_set_iff_bounded by blast
  have "conn_exits (run (k0 + b)) conn"
  proof (rule ccontr)
    assume "\<not> conn_exits (run (k0 + b)) conn"
    with balanced_served [OF inv, of "k0 + b"] some [of b]
    obtain c where "c \<in> conn_ctxs (run (k0 + b)) conn" "works (run (k0 + b)) c" by blast
    with b [of c "k0 + b"] show False by auto
  qed
  then show "\<exists>k. conn_exits (run k) conn" ..
qed

lemma served_run:
  assumes "reach (balanced_start rank ct n) (loop_step sound_env n) (run 0)"
    and "\<And>k. turn sound_env n (act k) (run k) (run (Suc k))" and "all_complete act run"
  shows "finite {k. works (run k) c} \<and>
    (conn_ctxs (run k) conn \<noteq> {} \<longrightarrow>
       (\<exists>j. conn_exits (run j) conn) \<or> infinite (\<Union>j. conn_ctxs (run j) conn))"
proof -
  have reached: "reach (balanced_start rank ct n) (loop_step sound_env n) (run k)" for k
    by (induction k) (use assms(1) turn_step [OF assms(2)] in \<open>blast intro: reach_step\<close>)+
  have "reach (server_start rank n) (loop_step any_env n) (run 0)"
    by (rule reach_weaken [OF sound_reach [OF assms(1)]]) (simp add: balanced_start_def split_start_def)
  note fin = works_finitely [OF this sound_turn [OF assms(2)] assms(3)]
  show ?thesis
    using fin served_on [OF balanced_machine.inv_reach [OF reached] assms(2) fin] by blast
qed

text \<open>
  C3: The server serves every connection for ever. Assumed of the machine (\<open>balanced_start\<close>): it is well-formed,
  its links descend in a rank, no two branches of a fork lead to the same \<open>TcpModule\<close>, and it is balanced in the
  sense of \<open>no_connection_lost\<close>. Assumed of the run: it is infinite, so no exception escapes; every
  pending operation completes at some time, with whatever result; and \<open>deadline_timer::cancel\<close> never
  reports an error, since a handler that cannot cancel its timer abandons the request (\<open>sound_env\<close>). Then
  each request is at work for a finite time only, and each connection that was accepted is given a
  context for its next request again and again, without end, unless one of its contexts is told to exit
  (because reading or writing failed, or the machine has no link for a module's state).
\<close>

theorem connections_served_forever:
  assumes "reach (balanced_start rank ct n) (loop_step sound_env n) (run 0)"
    and "\<And>k. turn sound_env n (act k) (run k) (run (Suc k))" and "all_complete act run"
  shows "finite {k. works (run k) c} \<and>
    (conn_ctxs (run k) conn \<noteq> {} \<longrightarrow>
       (\<exists>j. conn_exits (run j) conn) \<or> infinite (\<Union>j. conn_ctxs (run j) conn))"
  by (rule served_run [OF assms])

section \<open>Such runs exist\<close>

text \<open>
  A balanced server can always go on: operations are completed in the order in which they were
  started, all without error.
\<close>

definition go :: "nat \<Rightarrow> 'd world \<Rightarrow> 'd world" where
  "go n w = (case complete quiet_env n 0 no_error [] w of Inr w' \<Rightarrow> w' | Inl e \<Rightarrow> w)"

definition in_order :: "nat \<Rightarrow> 'd world \<Rightarrow> nat \<Rightarrow> 'd world" where
  "in_order n w k = (go n ^^ k) w"

lemma in_order_simps [simp]: "in_order n w 0 = w" "in_order n w (Suc k) = go n (in_order n w k)"
  by (simp_all add: in_order_def)

lemma quiet_sound: "sound_env quiet_env"
  by (simp add: sound_env_def timers_cancel_def quiet_env_def)

lemma complete_appends:
  assumes "fsm_wf rank (w_fsm w)" and "complete env n i ec buf w = Inr w'"
  shows "\<exists>new. w_pending w' = w_pending (remove_op i w) @ new"
  using dispatch_starts [where w = "remove_op i w" and h = "op_handler (w_pending w ! i)"
      and rank = rank and env = env and n = n and ec = ec and buf = buf] assms
  by (auto simp: complete_def adds_def split: option.splits prod.splits)

definition listens :: "'d world \<Rightarrow> bool" where
  "listens w \<longleftrightarrow> (\<exists>a \<in> set (w_pending w). accept_of (op_handler a) \<noteq> None)"

lemma accept_of_iff: "accept_of h \<noteq> None \<longleftrightarrow> (\<exists>conn. h = On_accepted conn)"
  by (cases h) auto

lemma go_goes:
  assumes inv: "balanced_inv rank ct n w" and acc: "listens w"
  shows "balanced_inv rank ct n (go n w)" "listens (go n w)"
    "turn sound_env n (Some 0) w (go n w)" "\<exists>new. w_pending (go n w) = tl (w_pending w) @ new"
proof -
  have split: "split_inv rank n w" using inv by (simp add: balanced_inv_def)
  have some: "w_pending w \<noteq> []" using acc by (auto simp: listens_def)
  from split_complete [OF split, of 0 quiet_env no_error "[]"] some
  have run: "complete quiet_env n 0 no_error [] w = Inr (go n w)" by (auto simp: go_def)
  then show turn: "turn sound_env n (Some 0) w (go n w)" using some quiet_sound by (auto simp: turn_def)
  from balanced_step_inv [OF inv turn_step [OF turn]] show "balanced_inv rank ct n (go n w)" .
  from complete_appends [OF split_wf [OF split] run] show new: "\<exists>new. w_pending (go n w) = tl (w_pending w) @ new"
    by (simp add: remove_op_def drop_Suc)
  show "listens (go n w)"
  proof (cases "accept_of (op_handler (hd (w_pending w)))")
    case None
    with acc new some show ?thesis by (cases "w_pending w") (auto simp: listens_def)
  next
    case (Some conn)
    then have "op_handler (w_pending w ! 0) = On_accepted conn"
      using some by (cases "op_handler (hd (w_pending w))") (auto simp: hd_conv_nth)
    with run have "\<exists>w''. start_accept w'' = go n w"
      by (auto simp: complete_def on_accepted_def split: prod.splits)
    then obtain w'' where "go n w = start_accept w''" by metis
    then show ?thesis by (auto simp: listens_def start_accept_def Let_def start_op_def)
  qed
qed

lemma in_order_runs:
  assumes "balanced_start rank ct n w"
  shows "balanced_inv rank ct n (in_order n w k) \<and> listens (in_order n w k)"
proof (induction k)
  case 0
  from assms obtain w0 where "w = start_accept w0" by (auto simp: balanced_start_def)
  then have "listens w" by (auto simp: listens_def start_accept_def Let_def start_op_def)
  with balanced_start_inv [OF assms] show ?case by simp
qed (use go_goes(1,2) in \<open>simp, blast\<close>)

lemma in_order_reaches_front:
  assumes step: "\<And>k. \<exists>new. w_pending (run (Suc k)) = tl (w_pending (run k)) @ new"
    and "i < length (w_pending (run k))"
  shows "w_pending (run (k + i)) ! 0 = w_pending (run k) ! i"
  using assms(2)
proof (induction i arbitrary: k)
  case (Suc i)
  obtain new where new: "w_pending (run (Suc k)) = tl (w_pending (run k)) @ new" using step by blast
  with Suc.prems have "i < length (w_pending (run (Suc k)))" "w_pending (run (Suc k)) ! i = w_pending (run k) ! Suc i"
    by (auto simp: nth_append nth_tl)
  with Suc.IH [of "Suc k"] show ?case by simp
qed simp

lemma in_order_run:
  assumes "balanced_start rank ct n w"
  shows "turn sound_env n (Some 0) (in_order n w k) (in_order n w (Suc k))"
    "all_complete (\<lambda>k. Some 0) (in_order n w)"
proof -
  note inv = in_order_runs [OF assms]
  show "turn sound_env n (Some 0) (in_order n w k) (in_order n w (Suc k))"
    using go_goes(3) [of rank ct n "in_order n w k"] inv [of k] by simp
  show "all_complete (\<lambda>k. Some 0) (in_order n w)"
    unfolding all_complete_def
  proof (intro allI ballI)
    fix k a assume "a \<in> set (w_pending (in_order n w k))"
    then obtain i where i: "i < length (w_pending (in_order n w k))" "w_pending (in_order n w k) ! i = a"
      by (auto simp: in_set_conv_nth)
    have "\<exists>new. w_pending (in_order n w (Suc k)) = tl (w_pending (in_order n w k)) @ new" for k
      using go_goes(4) [of rank ct n "in_order n w k"] inv [of k] by simp
    from in_order_reaches_front [OF this i(1)] i(2)
    show "\<exists>j\<ge>k. \<exists>i. Some 0 = Some i \<and> w_pending (in_order n w j) ! i = a"
      by (intro exI [of _ "k + i"]) simp
  qed
qed

end
