(* ===== verification/Tcp_Exchange.thy ===== *)
theory Tcp_Exchange
  imports Module_Contract
begin

text \<open>
  One exchange of a \<open>TcpModule\<close> from its first method to its last, computed: which operations it
  starts on which socket, with which bytes and lengths, what becomes of the application's data and
  of the client, and what happens when the machine leads the module back to itself.
\<close>

section \<open>A context with known data\<close>

text \<open>A world in which context \<open>c\<close> has application data \<open>x\<close> and the module's data are \<open>d\<close>.\<close>

definition tcp_state :: "ctx_id \<Rightarrow> 'd module \<Rightarrow> tcp_data \<Rightarrow> 'd \<Rightarrow> 'd world \<Rightarrow> 'd world" where
  "tcp_state c md d x w =
     w\<lparr>w_contexts := (w_contexts w)(c := map_option (\<lambda>cx. cx\<lparr>cx_data := Some x,
         cx_module_data_map := sm_put (md_name md) (Some (Tcp_data d)) (cx_module_data_map cx)\<rparr>) (w_contexts w c))\<rparr>"

lemma sm_put_put [simp]: "sm_put k v (sm_put k v' m) = sm_put k v m"
  by (induction k v m rule: sm_put.induct) auto

lemma tcp_state_fields [simp]:
  "w_fsm (tcp_state c md d x w) = w_fsm w" "w_pools (tcp_state c md d x w) = w_pools w"
  "w_clients (tcp_state c md d x w) = w_clients w" "w_next_client (tcp_state c md d x w) = w_next_client w"
  "w_pending (tcp_state c md d x w) = w_pending w"
  "w_contexts (tcp_state c md d x w) c = None \<longleftrightarrow> w_contexts w c = None"
  by (simp_all add: tcp_state_def)

lemma tcp_state_moves [simp]:
  "start_op a (tcp_state c md d x w) = tcp_state c md d x (start_op a w)"
  "(tcp_state c md d x w)\<lparr>w_pools := P, w_clients := H\<rparr> = tcp_state c md d x (w\<lparr>w_pools := P, w_clients := H\<rparr>)"
  "(tcp_state c md d x w)\<lparr>w_clients := H, w_next_client := k\<rparr> =
     tcp_state c md d x (w\<lparr>w_clients := H, w_next_client := k\<rparr>)"
  by (simp_all add: tcp_state_def start_op_def)

lemma ctx_state: "w_contexts w c = Some cx \<Longrightarrow> w_contexts (tcp_state c md d x w) c =
    Some (cx\<lparr>cx_data := Some x,
      cx_module_data_map := sm_put (md_name md) (Some (Tcp_data d)) (cx_module_data_map cx)\<rparr>)"
  by (simp add: tcp_state_def)

text \<open>What the methods do to such a world.\<close>

lemma tcp_get_state:
  assumes "w_contexts w c \<noteq> None"
  shows "tcp_get md c (tcp_state c md d x w) = Inr (d, tcp_state c md d x w)"
proof -
  from assms obtain cx where "w_contexts w c = Some cx" by blast
  then show ?thesis by (intro tcp_get_at) (simp add: mdata_def ctx_state sm_find_put)
qed

lemma tcp_modify_state:
  assumes "w_contexts w c \<noteq> None"
  shows "tcp_modify md c f (tcp_state c md d x w) = Inr (tcp_state c md (f d) x w)"
proof -
  from assms obtain cx where cx: "w_contexts w c = Some cx" by blast
  show ?thesis
    unfolding tcp_modify_def tcp_get_state [OF assms]
    by (simp add: put_module_data_eq [OF ctx_state [OF cx]]) (simp add: tcp_state_def put_ctx_def cx)
qed

lemma app_call_state:
  assumes "w_contexts w c \<noteq> None"
  shows "app_call c g (tcp_state c md d x w) = Inr (fst (g x), tcp_state c md d (snd (g x)) w)"
proof -
  from assms obtain cx where cx: "w_contexts w c = Some cx" by blast
  show ?thesis
    by (simp add: app_call_def get_ctx_def ctx_state [OF cx] case_prod_beta Let_def)
      (cases cx, simp add: tcp_state_def put_ctx_def cx)
qed

lemma app_get_state: "w_contexts w c \<noteq> None \<Longrightarrow> app_get c g (tcp_state c md d x w) = Inr (g x)"
  using ctx_state by (fastforce simp: app_get_def get_ctx_def)

lemma app_do_state: "w_contexts w c \<noteq> None \<Longrightarrow> app_do c g (tcp_state c md d x w) = Inr (tcp_state c md d (g x) w)"
  by (simp add: app_do_def app_call_state)

lemma in_tcp_lock_eq:
  "in_tcp_lock md c body w = rbind (tcp_lock md c w) (\<lambda>w. rbind (body w) (tcp_unlock md c))"
proof (cases "tcp_lock md c w")
  case (Inr w1)
  then show ?thesis
    by (cases "body w1"; cases "tcp_unlock md c (projr (body w1))") (simp_all add: in_tcp_lock_def with_tcp_lock_def)
qed (simp add: in_tcp_lock_def with_tcp_lock_def)

lemmas tcp_states = tcp_get_state tcp_modify_state app_call_state app_get_state app_do_state

lemma tcp_lock_state:
  assumes "w_contexts w c \<noteq> None"
  shows "tcp_lock md c (tcp_state c md d x w) =
      (if td_locked d then Inl Deadlock else Inr (tcp_state c md (d\<lparr>td_locked := True\<rparr>) x w))"
    "tcp_unlock md c (tcp_state c md d x w) = Inr (tcp_state c md (d\<lparr>td_locked := False\<rparr>) x w)"
    "tcp_timer md c (tcp_state c md d x w) = Inr (Module_timer c (md_name md) 0, tcp_state c md d x w)"
    "td_client d = Some i \<Longrightarrow> tcp_the_client md c (tcp_state c md d x w) = Inr (i, tcp_state c md d x w)"
  using assms by (simp_all add: tcp_lock_def tcp_unlock_def tcp_timer_def tcp_the_client_def tcp_states)

lemma tcp_event_state:
  assumes "w_contexts w c \<noteq> None" and "td_socket_event d = Socket_Event_Opened" and "\<not> td_locked d"
  shows "tcp_event md c body (tcp_state c md d x w) =
    rbind (body (tcp_state c md (d\<lparr>td_locked := True, td_socket_event := Socket_Event_Closed\<rparr>) x w))
      (tcp_unlock md c)"
  using assms by (simp add: tcp_event_def in_tcp_lock_eq tcp_lock_state tcp_states)

lemma start_op_ctx [simp]: "w_contexts (start_op a w) = w_contexts w"
  by (simp add: start_op_def)

section \<open>The steps of an exchange\<close>

abbreviation busy :: "client_ptr \<Rightarrow> tcp_data" where
  "busy p \<equiv> \<lparr> td_client = p, td_socket_event = Socket_Event_Opened, td_locked = False \<rparr>"

definition add_ops :: "'d async_op list \<Rightarrow> 'd world \<Rightarrow> 'd world" where
  "add_ops ops w = w\<lparr>w_pending := w_pending w @ ops\<rparr>"

lemma start_op_add: "start_op a w = add_ops [a] w" "add_ops ops (add_ops ops' w) = add_ops (ops' @ ops) w"
  by (simp_all add: add_ops_def start_op_def)

lemma exchange_ops [simp]:
  "w_contexts (add_ops ops w) = w_contexts w" "w_pending (add_ops ops w) = w_pending w @ ops"
  "w_pools (add_ops ops w) = w_pools w" "w_clients (add_ops ops w) = w_clients w"
  "w_next_client (add_ops ops w) = w_next_client w" "w_fsm (add_ops ops w) = w_fsm w"
  "(add_ops ops w)\<lparr>w_clients := H, w_next_client := k\<rparr> = add_ops ops (w\<lparr>w_clients := H, w_next_client := k\<rparr>)"
  "add_ops ops (tcp_state c md d x w) = tcp_state c md d x (add_ops ops w)"
  by (simp_all add: add_ops_def tcp_state_def)

abbreviation timer_of :: "ctx_id \<Rightarrow> 'd module \<Rightarrow> timer_id" where
  "timer_of c md \<equiv> Module_timer c (md_name md) 0"

lemma run_connects:
  assumes ctx: "w_contexts w c \<noteq> None" and d: "\<not> td_locked d"
    and peer: "peer = sint (tm_get_client_type_id h x)" "peer \<noteq> -1"
    and pool: "get_client env peer (w_pools w pool) (w_clients w) = (None, p, hp)"
    and addr: "tm_get_server_ip_port h x = (Some (ip, port), x')" "ev_address_parses env ip" "ev_socket_opens env"
  shows "tcp_run env md pool h c s (tcp_state c md d x w) =
    Inr (Mod_async, tcp_state c md (busy (Some (w_next_client w))) x'
      (add_ops [Async_wait (timer_of c md) (tm_get_connect_time_out_ms h) (On_handle_connect_time_out md c ip port),
                Async_connect (Client_socket (w_next_client w)) ip port (On_connect md c ip port)]
        (w\<lparr>w_pools := (w_pools w)(pool := p), w_clients := hp(w_next_client w := tcp_client_new env peer),
           w_next_client := Suc (w_next_client w)\<rparr>)))"
proof -
  have take: "tcp_take_client env md pool c peer (tcp_state c md d' x w) =
      Inr (None, tcp_state c md (d'\<lparr>td_client := None\<rparr>) x (w\<lparr>w_pools := (w_pools w)(pool := p), w_clients := hp\<rparr>))" for d'
    using pool ctx by (simp add: tcp_take_client_def Let_def tcp_states)
  show ?thesis
    unfolding tcp_run_def app_get_state [OF ctx] with_tcp_lock_def
    using d peer(2) addr ctx
    by (simp add: peer(1) [symmetric] tcp_lock_state take tcp_states tcp_connect_def client_new_def Let_def
        start_op_add del: rbind_eq_Inr) (cases d, simp)
qed

lemma send_state:
  assumes "w_contexts w c \<noteq> None" and "tm_get_request h x = (req, x')" and "td_client d = Some i"
  shows "send_with_timer md h c (tcp_state c md d x w) =
    Inr (Mod_async, tcp_state c md (d\<lparr>td_socket_event := Socket_Event_Opened\<rparr>) x'
      (add_ops [Async_wait (timer_of c md) (tm_get_time_out_ms h) (On_handle_time_out md c),
                Async_write (Client_socket i) req (On_write_req md c req)] w))"
  using assms
  by (simp add: send_with_timer_def send_request_def tcp_lock_state tcp_states Let_def start_op_add
      del: rbind_eq_Inr)

abbreviation cancels :: "asio_env \<Rightarrow> ctx_id \<Rightarrow> 'd module \<Rightarrow> bool" where
  "cancels env c md \<equiv> \<not> ec_set (ev_timer_cancel env (timer_of c md))"

lemma cancel_state:
  "w_contexts w c \<noteq> None \<Longrightarrow> cancels env c md \<Longrightarrow>
     cancel_time_out_timer env md c (tcp_state c md d x w) = Inr (True, tcp_state c md d x w)"
  by (simp add: cancel_time_out_timer_def tcp_lock_state del: rbind_eq_Inr)

lemma connected_sends:
  assumes "w_contexts w c \<noteq> None" and "tm_get_request h x = (req, x')" and "cancels env c md"
  shows "on_connect env mrun n md h c ip port no_error (tcp_state c md (busy (Some i)) x w) =
    Inr (tcp_state c md (busy (Some i)) x'
      (add_ops [Async_wait (timer_of c md) (tm_get_time_out_ms h) (On_handle_time_out md c),
                Async_write (Client_socket i) req (On_write_req md c req)] w))"
  using assms
  by (simp add: on_connect_def tcp_event_state cancel_state send_state tcp_lock_state del: rbind_eq_Inr)

lemma written_reads_head:
  assumes "w_contexts w c \<noteq> None"
  shows "on_write_req env mrun n md h c no_error (tcp_state c md (busy (Some i)) x w) =
    Inr (tcp_state c md (busy (Some i)) x
      (add_ops [Async_read (Client_socket i) (tm_get_resp_head_len h)
                  (On_recv_resp_head md c (tm_get_resp_head_len h))] w))"
  using assms
  by (simp add: on_write_req_def tcp_event_state tcp_lock_state tcp_states Let_def start_op_add
      del: rbind_eq_Inr)

lemma head_reads_body:
  assumes "w_contexts w c \<noteq> None" and "tm_on_read_head_impl h head len x = (True, x')"
  shows "on_recv_resp_head env mrun n md h c head len no_error (tcp_state c md (busy (Some i)) x w) =
    Inr (tcp_state c md (busy (Some i)) x'
      (add_ops [Async_read (Client_socket i) (tm_get_resp_body_len h x')
                  (On_recv_resp_body md c (tm_get_resp_body_len h x'))] w))"
  using assms
  by (simp add: on_recv_resp_head_def tcp_event_state tcp_lock_state tcp_states Let_def start_op_add
      del: rbind_eq_Inr)

lemma body_resumes:
  assumes "w_contexts w c \<noteq> None" and "tm_on_read_body_impl h body len x = (ok, x')" and "cancels env c md"
    and "recollect env (Some i) (w_pools w pool) (w_clients w) = (p, hp)"
  shows "on_recv_resp_body env mrun n md pool h c body len no_error (tcp_state c md (busy (Some i)) x w) =
    rbind (resume mrun n md (if ok then Mod_Succeed else Mod_Failed) c
      (tcp_state c md \<lparr> td_client = None, td_socket_event = Socket_Event_Closed, td_locked = True \<rparr> x'
        (w\<lparr>w_pools := (w_pools w)(pool := p), w_clients := hp\<rparr>))) (tcp_unlock md c)"
  using assms
  by (simp add: on_recv_resp_body_def tcp_event_state cancel_state tcp_give_client_def tcp_states Let_def
      del: rbind_eq_Inr)

section \<open>A whole exchange\<close>

lemma get_client_none:
  assumes "get_client env peer p h = (None, p', h')"
  shows "pool_deque p' peer = []"
proof (cases "candidates env p h peer")
  case (Cons ptr rest)
  then have "usable env (cp_max_times p) h ptr"
    unfolding candidates_def by (metis dropWhile_eq_Cons_conv)
  with get_client_result [OF assms] Cons show ?thesis by simp
qed (use get_client_deque [OF assms, of peer] in simp)

text \<open>
  C15: A whole exchange with a back-end server. When the pool has no usable client for the peer, the
  module connects to the server the application names, under the connect time-out; connected, it
  writes the application's request under the reply time-out, reads as many bytes as the
  application's head has, then as many as the application finds in that head, all on the socket of
  the one client it made. The application's data go through its methods in this order. At the end
  the client is in the pool, the only one waiting for its peer, the module has let go of it, and
  the machine is resumed once, with the verdict of the application.
\<close>

theorem tcp_exchange_spec:
  assumes "w_contexts w c \<noteq> None" and "\<not> td_locked d"
    and "peer = sint (tm_get_client_type_id h x0)" "peer \<noteq> -1"
    and "get_client env peer (w_pools w pool) (w_clients w) = (None, p, hp)"
    and "tm_get_server_ip_port h x0 = (Some (ip, port), x1)" "ev_address_parses env ip" "ev_socket_opens env"
    and "tm_get_request h x1 = (req, x2)"
    and "tm_on_read_head_impl h head (tm_get_resp_head_len h) x2 = (True, x3)"
    and "tm_on_read_body_impl h body (tm_get_resp_body_len h x3) x3 = (ok, x4)"
    and "cancels env c md" and "i = w_next_client w"
  shows "\<exists>w1 w2 w3 w4 w5 cx.
    tcp_run env md pool h c s (tcp_state c md d x0 w) = Inr (Mod_async, w1) \<and>
    w_pending w1 = w_pending w @
      [Async_wait (timer_of c md) (tm_get_connect_time_out_ms h) (On_handle_connect_time_out md c ip port),
       Async_connect (Client_socket i) ip port (On_connect md c ip port)] \<and>
    on_connect env mrun n md h c ip port no_error w1 = Inr w2 \<and>
    w_pending w2 = w_pending w1 @
      [Async_wait (timer_of c md) (tm_get_time_out_ms h) (On_handle_time_out md c),
       Async_write (Client_socket i) req (On_write_req md c req)] \<and>
    on_write_req env mrun n md h c no_error w2 = Inr w3 \<and>
    w_pending w3 = w_pending w2 @
      [Async_read (Client_socket i) (tm_get_resp_head_len h) (On_recv_resp_head md c (tm_get_resp_head_len h))] \<and>
    on_recv_resp_head env mrun n md h c head (tm_get_resp_head_len h) no_error w3 = Inr w4 \<and>
    w_pending w4 = w_pending w3 @
      [Async_read (Client_socket i) (tm_get_resp_body_len h x3) (On_recv_resp_body md c (tm_get_resp_body_len h x3))] \<and>
    on_recv_resp_body env mrun n md pool h c body (tm_get_resp_body_len h x3) no_error w4 =
      rbind (resume mrun n md (if ok then Mod_Succeed else Mod_Failed) c w5) (tcp_unlock md c) \<and>
    w_pending w5 = w_pending w4 \<and> w_contexts w5 c = Some cx \<and> cx_data cx = Some x4 \<and>
    tcp_at w5 c md \<lparr> td_client = None, td_socket_event = Socket_Event_Closed, td_locked = True \<rparr> \<and>
    pool_deque (w_pools w5 pool) peer = [Some i]"
proof -
  let ?ops1 = "[Async_wait (timer_of c md) (tm_get_connect_time_out_ms h) (On_handle_connect_time_out md c ip port),
       Async_connect (Client_socket i) ip port (On_connect md c ip port)]"
  let ?ops2 = "[Async_wait (timer_of c md) (tm_get_time_out_ms h) (On_handle_time_out md c),
       Async_write (Client_socket i) req (On_write_req md c req)]"
  let ?ops3 = "[Async_read (Client_socket i) (tm_get_resp_head_len h) (On_recv_resp_head md c (tm_get_resp_head_len h))]"
  let ?ops4 = "[Async_read (Client_socket i) (tm_get_resp_body_len h x3)
       (On_recv_resp_body md c (tm_get_resp_body_len h x3))]"
  let ?hp = "hp(i := tcp_client_new env peer)"
  define v where "v = w\<lparr>w_pools := (w_pools w)(pool := p), w_clients := ?hp, w_next_client := Suc i\<rparr>"
  obtain p5 hp5 where rec: "recollect env (Some i) p ?hp = (p5, hp5)" by fastforce
  define w4 where "w4 = add_ops (((?ops1 @ ?ops2) @ ?ops3) @ ?ops4) v"
  define w5 where "w5 = w4\<lparr>w_pools := (w_pools w4)(pool := p5), w_clients := hp5\<rparr>"
  have ctx: "w_contexts v c \<noteq> None" using assms(1) by (simp add: v_def)
  have pool4: "recollect env (Some i) (w_pools w4 pool) (w_clients w4) = (p5, hp5)"
    using rec by (simp add: w4_def v_def)
  have ctx4: "w_contexts w4 c \<noteq> None" using ctx by (simp add: w4_def)
  then obtain cx where cx: "w_contexts w5 c = Some cx" by (auto simp: w5_def)
  have deque: "pool_deque p5 peer = [Some i]"
    using recollect_deque [OF rec, of peer] get_client_none [OF assms(5)] by (simp add: tcp_client_new_def)
  note steps = run_connects [OF assms(1-8), folded assms(13), folded v_def]
    connected_sends [where w = "add_ops ?ops1 v", OF _ assms(9,12)]
    written_reads_head [where w = "add_ops (?ops1 @ ?ops2) v"]
    head_reads_body [where w = "add_ops ((?ops1 @ ?ops2) @ ?ops3) v", OF _ assms(10)]
    body_resumes [OF ctx4 assms(11,12) pool4, folded w5_def]
  show ?thesis
    by (intro exI conjI, rule steps(1), simp add: v_def, rule steps(2), simp add: ctx, simp,
        unfold start_op_add(2), rule steps(3), simp add: ctx, simp, unfold start_op_add(2),
        rule steps(4), simp add: ctx, simp, unfold start_op_add(2) w4_def [symmetric], rule steps(5))
      (simp_all add: w5_def ctx_state [OF cx, unfolded w5_def] mdata_def sm_find_put deque)+
qed

section \<open>A module that is linked to itself\<close>

text \<open>
  C38: A retry deadlocks. When the machine leads a \<open>TcpModule\<close> that failed back to itself, the
  handler of a failed connect never returns: it resumes the machine while it holds the mutex of the
  module's data, \<open>run\<close> is called on the same thread and locks the mutex again, which is not
  recursive.
\<close>

theorem tcp_retry_deadlocks:
  assumes "w_contexts w c \<noteq> None" and "td_socket_event d = Socket_Event_Opened" "\<not> td_locked d"
    and "md_class md = TcpModule pool h" and "registered (w_fsm w) md"
    and "fsm_end_mod (w_fsm w) = Some e" "\<not> same_module md e"
    and "route (w_fsm w) (md_name md) Mod_Failed = Some (md_name md)"
    and "ec_set error" "error \<noteq> operation_aborted" and "cancels env c md"
    and "sint (tm_get_client_type_id h (tm_on_connect_failed h ip port x)) \<noteq> -1"
  shows "on_connect env (module_run env) (Suc n) md h c ip port error (tcp_state c md d x w) = Inl Deadlock"
proof -
  let ?d = "d\<lparr>td_locked := True, td_socket_event := Socket_Event_Closed\<rparr>"
  let ?w = "tcp_state c md ?d (tm_on_connect_failed h ip port x) w"
  have run: "module_run env md c Mod_Failed ?w = Inl Deadlock"
    using assms(1,4,12) by (simp add: module_run_def tcp_run_def tcp_states tcp_lock_state with_tcp_lock_def Let_def)
  have "next_module md Mod_Failed ?w = (Some md, ?w)"
    using assms(5,8) by (simp add: next_module_def get_next_module_route registered_def)
  with run assms(6,7) have "resume (module_run env) (Suc n) md Mod_Failed c ?w = Inl Deadlock"
    by (simp add: resume_def is_end_module_def fsm_run.simps)
  with assms(1-3,9-11) show ?thesis
    by (simp add: on_connect_def tcp_event_state tcp_failed_def cancel_state tcp_states)
qed

end
