(* ===== verification/Sample_Served.thy ===== *)
theory Sample_Served
  imports Sample_Machine Served_Forever Tcp_Exchange
begin

text \<open>
  The sample server is balanced: it has no forks, so that a request is one mark of weight one. The
  theorems about marks and connections are applied to it.
\<close>

definition sample_cert :: certificate where
  "sample_cert = \<lparr> ct_live = (\<lambda>num n. True), ct_weight = (\<lambda>num n. 1), ct_pot = (\<lambda>num j n. 0) \<rparr>"

lemma sample_nums: "nums_of sample_fsm d = (\<lambda>n. 0)"
proof
  fix n
  have "md_class md \<noteq> ForkModule k g \<and> md_class md \<noteq> JoinModule k g" if "registered sample_fsm md" for md k g
    using that by (auto simp: sample_registered sample_mods)
  moreover have "registered sample_fsm md" if "module_of sample_fsm n = Some md" for md
    by (rule module_of_registered [OF sample_registry that])
  ultimately show "nums_of sample_fsm d n = 0"
    by (auto simp: nums_of_def split: option.split module_class.split)
qed

lemma sample_keeps: "class_keeps sample_fsm cls" "timers_keep sample_fsm cls"
  by (cases cls; simp add: keeps_nums_def sample_nums)+

lemma sample_balanced: "balanced sample_rank sample_cert sample_fsm"
proof -
  have none: "join_names sample_fsm = {}" by (auto simp: join_names_def sample_registered sample_mods)
  have "whole sample_cert sample_fsm (\<lambda>n. 0) = 1"
    by (simp add: whole_def sample_cert_def sample_fsm_def set_start_module_def set_end_module_def)
  moreover have "flows sample_fsm (\<lambda>n. 0) (\<lambda>n. True) {} (\<lambda>n. 1) 1"
    by (auto simp: flows_def link_flows_def sample_registered sample_mods split: option.splits)
  moreover have "lives sample_cert sample_fsm (\<lambda>n. 0)"
    by (auto simp: lives_def sample_cert_def sample_registered sample_mods)
  ultimately have "balanced_at sample_rank sample_cert sample_fsm (\<lambda>n. 0)"
    using none by (auto simp: balanced_at_def live_joins_def sample_registered sample_mods sample_cert_def)
  then show ?thesis
    by (auto simp: balanced_def never_stops_def timers_ok_def sample_nums sample_keeps sample_registered sample_mods)
qed

lemma sample_split_start: "split_start sample_rank 6 sample_world"
  using sample_start by (auto simp: split_start_def forks_split_def sample_registered sample_mods)

lemma sample_balanced_start: "balanced_start sample_rank sample_cert 6 sample_world"
proof -
  have "\<exists>w0. w_pending w0 = [] \<and> sample_world = start_accept w0"
    unfolding sample_world_def by (rule exI, rule conjI [rotated], rule refl) simp
  moreover have "w_next_ctx sample_world = 0" by simp
  ultimately show ?thesis using sample_split_start sample_balanced by (simp add: balanced_start_def)
qed

theorem server_implements_net_witness:
  "\<exists>w w'. play exchange sample_world = Inr w \<and> complete quiet_env 6 5 (other_error 104) [] w = Inr w' \<and>
     (net_step (w_fsm w))\<^sup>*\<^sup>* (net_of w) (net_of w')"
proof -
  obtain w where w: "play exchange sample_world = Inr w" "length (w_pending w) = 6"
    using exchange_state by blast
  note reached = play_reaches [OF w(1) reach_init [of "split_start sample_rank 6", OF sample_split_start],
      of sound_env, OF quiet_sound]
  note inv = split_machine.inv_reach [OF sound_reach [OF reached]]
  from split_complete [OF inv, of 5 quiet_env "other_error 104" "[]"] w(2) obtain w' where
    w': "complete quiet_env 6 5 (other_error 104) [] w = Inr w'" by auto
  have "loop_step sound_env 6 w w'"
    using step_complete [of 5 w sound_env quiet_env 6 "other_error 104" "[]" w'] w(2) w' quiet_sound by simp
  from server_implements_net [OF reached this] w w' show ?thesis by auto
qed

theorem no_connection_lost_witness:
  "\<exists>w. play exchange sample_world = Inr w \<and> (\<exists>c \<in> conn_ctxs w 0. works w c)"
proof -
  obtain w where w: "play exchange sample_world = Inr w" using exchange_state by blast
  have "case play exchange sample_world of Inl e \<Rightarrow> False
     | Inr w \<Rightarrow> w_next_ctx w = 1 \<and>
         (case w_contexts w 0 of None \<Rightarrow> False | Some cx \<Rightarrow> cx_conn cx = 0 \<and> \<not> cx_exit cx)"
    by code_simp
  then obtain cx where cx: "w_next_ctx w = 1" "w_contexts w 0 = Some cx" "cx_conn cx = 0" "\<not> cx_exit cx"
    using w by (cases "w_contexts w 0") auto
  note reached = play_reaches [OF w reach_init [of "balanced_start sample_rank sample_cert 6",
        OF sample_balanced_start], of sound_env, OF quiet_sound]
  have "winv sample_rank {} w"
    using balanced_machine.inv_reach [OF reached] by (simp add: balanced_inv_def split_inv_def server_inv_def)
  with winv_ctx cx have "\<not> conn_exits w 0" "conn_ctxs w 0 \<noteq> {}"
    by (fastforce simp: conn_exits_def conn_ctxs_def)+
  with no_connection_lost [OF reached] w show ?thesis by blast
qed

theorem connections_served_forever_witness:
  "\<exists>run act. run 0 = sample_world \<and> (\<forall>k. turn sound_env 6 (act k) (run k) (run (Suc k))) \<and>
     all_complete act run \<and> finite {k. works (run k) 0} \<and> conn_ctxs (run 1) 0 \<noteq> {} \<and>
     ((\<exists>j. conn_exits (run j) 0) \<or> infinite (\<Union>j. conn_ctxs (run j) 0))"
proof -
  let ?run = "in_order 6 sample_world"
  note run = in_order_run [OF sample_balanced_start]
  have "case w_contexts (go 6 sample_world) 0 of None \<Rightarrow> False | Some cx \<Rightarrow> cx_conn cx = 0"
    by code_simp
  then have some: "conn_ctxs (?run 1) 0 \<noteq> {}"
    by (auto simp: conn_ctxs_def split: option.splits)
  have "reach (balanced_start sample_rank sample_cert 6) (loop_step sound_env 6) (?run 0)"
    using sample_balanced_start by (simp add: reach_init)
  from connections_served_forever [OF this run, of 0 1 0] some run show ?thesis
    by (intro exI [of _ ?run] exI [of _ "\<lambda>k. Some 0"] conjI allI) (simp_all del: in_order_simps(2))
qed

section \<open>An exchange\<close>

lemma fj_ctx: "w_contexts fj_world 0 \<noteq> None"
  by (simp add: fj_data)

theorem tcp_exchange_spec_witness:
  "\<exists>w1 w5. tcp_run quiet_env back_mod 0 back_hooks 0 Mod_Succeed (tcp_state 0 back_mod (busy None) 5 fj_world) =
       Inr (Mod_async, w1) \<and>
     w_pending w1 = w_pending fj_world @
       [Async_wait (timer_of 0 back_mod) 50 (On_handle_connect_time_out back_mod 0 ''10.0.0.1'' 80),
        Async_connect (Client_socket 0) ''10.0.0.1'' 80 (On_connect back_mod 0 ''10.0.0.1'' 80)] \<and>
     pool_deque (w_pools (w5 :: nat world) 0) 3 = [Some 0]"
proof -
  have first: "w_next_client fj_world = 0"
    by (simp add: fj_world_def sample_world_def start_accept_def start_op_def Let_def put_ctx_def)
  have pool: "get_client quiet_env 3 (w_pools fj_world 0) (w_clients fj_world) =
      (None, w_pools fj_world 0, w_clients fj_world)"
    by (simp add: fj_world_def get_client_def pool_new_def pool_call_later_def)
  have d: "\<not> td_locked (busy None)" by simp
  have hooks: "3 = sint (tm_get_client_type_id back_hooks 5)" "(3 :: int) \<noteq> -1"
    "tm_get_server_ip_port back_hooks 5 = (Some (''10.0.0.1'', 80), 5)" "tm_get_request back_hooks 5 = ([], 5)"
    "tm_on_read_head_impl back_hooks [2] (tm_get_resp_head_len back_hooks) 5 = (True, 5)"
    "tm_on_read_body_impl back_hooks [1] (tm_get_resp_body_len back_hooks 5) 5 = (True, 5)"
    "tm_get_connect_time_out_ms back_hooks = 50"
    by (simp_all add: back_hooks_def get_connect_time_out_ms_def FLAGS_wait_connect_time_out_ms_def)
  have env: "ev_address_parses quiet_env ''10.0.0.1''" "ev_socket_opens quiet_env" "cancels quiet_env 0 back_mod"
    by (simp_all add: quiet_env_def)
  from tcp_exchange_spec [OF fj_ctx d hooks(1,2) pool hooks(3) env(1,2) hooks(4-6) env(3) refl,
      where s = Mod_Succeed and mrun = "module_run quiet_env" and n = 6]
  obtain w1 w5 where
    "tcp_run quiet_env back_mod 0 back_hooks 0 Mod_Succeed (tcp_state 0 back_mod (busy None) 5 fj_world) = Inr (Mod_async, w1)"
    "w_pending w1 = w_pending fj_world @
       [Async_wait (timer_of 0 back_mod) 50 (On_handle_connect_time_out back_mod 0 ''10.0.0.1'' 80),
        Async_connect (Client_socket 0) ''10.0.0.1'' 80 (On_connect back_mod 0 ''10.0.0.1'' 80)]"
    "pool_deque (w_pools (w5 :: nat world) 0) 3 = [Some 0]"
    unfolding first hooks(7) by (elim exE conjE) blast
  then show ?thesis by blast
qed

text \<open>The sample server with a link that tries the back-end again.\<close>

definition retry_world :: "nat world" where
  "retry_world = fj_world\<lparr>w_fsm := link_module back_mod back_mod Mod_Failed sample_fsm\<rparr>"

theorem tcp_retry_deadlocks_witness:
  "on_connect quiet_env (module_run quiet_env) 6 back_mod back_hooks 0 ''10.0.0.1'' 80 (other_error 111)
     (tcp_state 0 back_mod (busy (Some 0)) 5 retry_world) = Inl Deadlock"
proof -
  have "link_of sample_fsm ''back'' Mod_Failed = None"
    by (simp add: sample_fsm_def link_module_link_of sample_mods)
  then have "route (w_fsm retry_world) (md_name back_mod) Mod_Failed = Some (md_name back_mod)"
    by (simp add: retry_world_def route_def link_module_link_of) (simp add: back_mod_def)
  moreover have "registered (w_fsm retry_world) back_mod"
    by (simp add: retry_world_def registered_def sample_find) (simp add: back_mod_def)
  moreover have "fsm_end_mod (w_fsm retry_world) = Some resp_mod" "\<not> same_module back_mod resp_mod"
    by (simp_all add: retry_world_def sample_fsm_def set_end_module_def same_module_def sample_mods)
  ultimately show ?thesis
    using tcp_retry_deadlocks [where w = retry_world and c = 0 and md = back_mod and h = back_hooks and pool = 0
        and d = "busy (Some 0)" and x = 5 and n = 5 and error = "other_error 111" and env = quiet_env] fj_ctx
    by (simp add: retry_world_def quiet_env_def back_hooks_def) (simp add: back_mod_def back_hooks_def)
qed

end
