(* ===== verification/Tcp_Concurrency.thy ===== *)
theory Tcp_Concurrency
  imports Single_Exchange Token_Net
begin

text \<open>
  The threads that \<open>TcpServer::run_for_child\<close> starts (framework/tcp_server.cc) run one event loop
  together, so handlers of one context run side by side. Here a step is one action of one thread:
  taking the mutex of a \<open>TcpModule\<close>'s data (the constructor of \<open>ModuleData::Lock\<close>), the test of
  \<open>socket_event_\<close>, the start of a socket operation, the assignment that follows it, the call of
  \<open>Fsm::resume\<close> with the mutex held, giving the mutex back (the destructor). A thread is a stack of
  calls. All the modules of the machine are there: the loop of a fork takes one
  action per branch, the modules that have no mutex of this kind one per call. \<open>JoinModule::run\<close> is taken apart in \<open>Join_Concurrency\<close>.
\<close>

section \<open>Threads\<close>

text \<open>The socket operations of an exchange (module/tcp_module.cc), in the order of their start.\<close>

datatype exch_op = Ex_connect | Ex_write | Ex_head | Ex_body

text \<open>
  The operations asio completes: a socket operation of a \<open>TcpModule\<close>, one of a \<open>RequestModule\<close> or a
  \<open>ResponseModule\<close>, and the timer by which a fork or a join resumes the machine in a state.
\<close>

datatype pend = Pd_exch string exch_op | Pd_conn string | Pd_resume string ModState

text \<open>
  The calls on the stack of a thread, each with the place it has come to.
  \<^item> \<open>Fr_resume n s\<close>: the machine looks for the module after \<open>n\<close>, which has ended in \<open>s\<close>;
    \<open>Fr_run n s\<close>: it calls \<open>run\<close> of \<open>n\<close>; \<open>Fr_conn n\<close>: a handler of a module without a mutex;
    \<open>Fr_fork n i\<close>: the loop of \<open>ForkModule::run\<close> at the branch \<open>i\<close>, while earlier branches may already run.
  \<^item> \<open>TcpModule::run\<close>: before the lock, after it. Its socket handlers: before the lock, before the
    test, after the event was closed, after the test failed (\<open>Fr_missed\<close>).
  \<^item> \<open>Fr_opening n\<close>: a socket operation has been started and \<open>socket_event_\<close> not been set yet.
    \<open>Fr_unlock n s\<close>: about to return; \<open>s\<close> is what \<open>run\<close> returns, \<open>Mod_async\<close> for a handler.
  \<^item> The handlers of the time-outs: before the lock, after it.
\<close>

datatype frame =
    Fr_resume string ModState
  | Fr_run string ModState
  | Fr_conn string
  | Fr_fork string nat
  | Fr_run_lock string
  | Fr_run_locked string
  | Fr_on_lock string exch_op
  | Fr_on_locked string exch_op
  | Fr_on_closed string exch_op
  | Fr_missed string exch_op
  | Fr_opening string
  | Fr_unlock string ModState
  | Fr_timer_lock string
  | Fr_timer_locked string

text \<open>What the threads share: the data of the modules of the context, and asio's operations.\<close>

record tcp_shared =
  sh_event :: "string \<Rightarrow> SocketEventState"
  sh_locked :: "string \<Rightarrow> bool"
  sh_join :: "string \<Rightarrow> join_data"
  sh_ops :: "pend multiset"

record tcp_threads =
  tt_shared :: tcp_shared
  tt_stacks :: "frame list list"

definition set_event :: "string \<Rightarrow> SocketEventState \<Rightarrow> tcp_shared \<Rightarrow> tcp_shared" where
  "set_event n e sh = sh\<lparr>sh_event := (sh_event sh)(n := e)\<rparr>"

definition set_locked :: "string \<Rightarrow> bool \<Rightarrow> tcp_shared \<Rightarrow> tcp_shared" where
  "set_locked n b sh = sh\<lparr>sh_locked := (sh_locked sh)(n := b)\<rparr>"

definition start_ops :: "pend multiset \<Rightarrow> tcp_shared \<Rightarrow> tcp_shared" where
  "start_ops P sh = sh\<lparr>sh_ops := P + sh_ops sh\<rparr>"

text \<open>
  What a socket handler makes of a completion with the error code \<open>ec\<close>: the next operation of the
  exchange, the end of the module in a state, or nothing, when cancelling the timer fails. \<open>ok\<close> is what
  the application says of the bytes, \<open>cancelled\<close> whether the timer could be cancelled.
\<close>

datatype exch_result = Xr_next exch_op | Xr_ends ModState | Xr_gives_up

definition failed_result :: "error_code \<Rightarrow> bool \<Rightarrow> exch_result" where
  "failed_result ec cancelled =
     (if ec = operation_aborted then Xr_ends Mod_Timeout
      else if cancelled then Xr_ends Mod_Failed else Xr_gives_up)"

fun exch_result_of :: "exch_op \<Rightarrow> error_code \<Rightarrow> bool \<Rightarrow> bool \<Rightarrow> exch_result" where
  "exch_result_of Ex_connect ec ok cancelled =
     (if ec_set ec then failed_result ec cancelled
      else if cancelled then Xr_next Ex_write else Xr_gives_up)"
| "exch_result_of Ex_write ec ok cancelled =
     (if ec_set ec then failed_result ec cancelled else Xr_next Ex_head)"
| "exch_result_of Ex_head ec ok cancelled =
     (if ec_set ec \<or> \<not> ok then failed_result ec cancelled else Xr_next Ex_body)"
| "exch_result_of Ex_body ec ok cancelled =
     (if ec_set ec then failed_result ec cancelled
      else if cancelled then Xr_ends (if ok then Mod_Succeed else Mod_Failed) else Xr_gives_up)"

definition class_at :: "'d fsm \<Rightarrow> string \<Rightarrow> 'd module_class option" where
  "class_at f n = map_option md_class (module_of f n)"

definition ends_at :: "'d fsm \<Rightarrow> string \<Rightarrow> bool" where
  "ends_at f n \<longleftrightarrow> (\<exists>md. module_of f n = Some md \<and> at_end f md)"

text \<open>
  One action: the call on top of a stack, before, and the calls that take its place, the top first.
\<close>

inductive call_act :: "'d fsm \<Rightarrow> frame \<Rightarrow> tcp_shared \<Rightarrow> frame list \<Rightarrow> tcp_shared \<Rightarrow> bool" for f where
  resume_next: "\<not> ends_at f n \<Longrightarrow> route f n s = Some m \<Longrightarrow> call_act f (Fr_resume n s) sh [Fr_run m s] sh"
| resume_end: "ends_at f n \<or> route f n s = None \<Longrightarrow> call_act f (Fr_resume n s) sh [] sh"
| run_simple: "class_at f n = Some (SimpleModule g) \<Longrightarrow> st = fst (g d) \<Longrightarrow>
     call_act f (Fr_run n s) sh (if st = Mod_async then [] else [Fr_resume n st]) sh"
| run_request: "class_at f n = Some (RequestModule rq) \<Longrightarrow>
     call_act f (Fr_run n s) sh [] (start_ops {#Pd_conn n#} sh)"
| run_response: "class_at f n = Some (ResponseModule rs) \<Longrightarrow>
     call_act f (Fr_run n s) sh [] (start_ops {#Pd_conn n#} sh)"
| run_no_response: "class_at f n = Some (ResponseModule rs) \<Longrightarrow>
     call_act f (Fr_run n s) sh [Fr_resume n Mod_Failed] sh"
| run_fork: "class_at f n = Some (ForkModule k g) \<Longrightarrow>
     call_act f (Fr_run n s) sh [Fr_fork n 0] sh"
| fork_next: "class_at f n = Some (ForkModule k g) \<Longrightarrow> i < unat (g d) \<Longrightarrow>
     call_act f (Fr_fork n i) sh [Fr_fork n (Suc i)] (start_ops {#Pd_resume n (Mod_Fork0 + word_of_nat i)#} sh)"
| fork_done: "class_at f n = Some (ForkModule k g) \<Longrightarrow> unat (g d) \<le> i \<Longrightarrow> call_act f (Fr_fork n i) sh [] sh"
| run_join: "class_at f n = Some (JoinModule k g) \<Longrightarrow> join_arrive s (sh_join sh n) = (joined, jd) \<Longrightarrow>
     sh' = sh\<lparr>sh_join := (sh_join sh)(n := jd)\<rparr> \<Longrightarrow>
     call_act f (Fr_run n s) sh []
       (if joined = g d
        then start_ops {#Pd_resume n (if jd_failed_join jd then Mod_Failed else Mod_Succeed)#} sh' else sh')"
| run_tcp: "class_at f n = Some (TcpModule p h) \<Longrightarrow> sint (tm_get_client_type_id h d) \<noteq> -1 \<Longrightarrow>
     call_act f (Fr_run n s) sh [Fr_run_lock n] sh"
| run_no_type: "class_at f n = Some (TcpModule p h) \<Longrightarrow> sint (tm_get_client_type_id h d) = -1 \<Longrightarrow>
     call_act f (Fr_run n s) sh [Fr_resume n Mod_Failed] sh"
| run_lock: "\<not> sh_locked sh n \<Longrightarrow> call_act f (Fr_run_lock n) sh [Fr_run_locked n] (set_locked n True sh)"
| run_starts: "k = Ex_connect \<or> k = Ex_write \<Longrightarrow>
     call_act f (Fr_run_locked n) sh [Fr_opening n] (start_ops {#Pd_exch n k#} sh)"
| run_fails: "call_act f (Fr_run_locked n) sh [Fr_unlock n Mod_Failed] sh"
| conn_again: "call_act f (Fr_conn n) sh [] (start_ops {#Pd_conn n#} sh)"
| conn_ends: "call_act f (Fr_conn n) sh [Fr_resume n s] sh"
| conn_gives_up: "call_act f (Fr_conn n) sh [] sh"
| on_lock: "\<not> sh_locked sh n \<Longrightarrow> call_act f (Fr_on_lock n k) sh [Fr_on_locked n k] (set_locked n True sh)"
| on_open: "sh_event sh n = Socket_Event_Opened \<Longrightarrow>
     call_act f (Fr_on_locked n k) sh [Fr_on_closed n k] (set_event n Socket_Event_Closed sh)"
| on_called: "sh_event sh n \<noteq> Socket_Event_Opened \<Longrightarrow> call_act f (Fr_on_locked n k) sh [Fr_missed n k] sh"
| on_missed: "call_act f (Fr_missed n k) sh [Fr_unlock n Mod_async] sh"
| on_next: "exch_result_of k ec ok cancelled = Xr_next k' \<Longrightarrow>
     call_act f (Fr_on_closed n k) sh [Fr_opening n] (start_ops {#Pd_exch n k'#} sh)"
| on_ends: "exch_result_of k ec ok cancelled = Xr_ends s \<Longrightarrow>
     call_act f (Fr_on_closed n k) sh [Fr_resume n s, Fr_unlock n Mod_async] sh"
| on_gives_up: "exch_result_of k ec ok cancelled = Xr_gives_up \<Longrightarrow>
     call_act f (Fr_on_closed n k) sh [Fr_unlock n Mod_async] sh"
| opened: "call_act f (Fr_opening n) sh [Fr_unlock n Mod_async] (set_event n Socket_Event_Opened sh)"
| unlock: "call_act f (Fr_unlock n s) sh (if s = Mod_async then [] else [Fr_resume n s]) (set_locked n False sh)"
| timer_lock: "\<not> sh_locked sh n \<Longrightarrow> call_act f (Fr_timer_lock n) sh [Fr_timer_locked n] (set_locked n True sh)"
| timer_body: "call_act f (Fr_timer_locked n) sh [Fr_unlock n Mod_async] sh"

inductive_cases actE: "call_act f fr sh frs sh'"

text \<open>A thread that has nothing to do takes an operation that has completed, or a time-out.\<close>

fun handler_frame :: "pend \<Rightarrow> frame" where
  "handler_frame (Pd_exch n k) = Fr_on_lock n k"
| "handler_frame (Pd_conn n) = Fr_conn n"
| "handler_frame (Pd_resume n s) = Fr_resume n s"

inductive threads_act :: "'d fsm \<Rightarrow> tcp_threads \<Rightarrow> tcp_threads \<Rightarrow> bool" for f where
  "i < length (tt_stacks s) \<Longrightarrow> tt_stacks s ! i = fr # st \<Longrightarrow> call_act f fr (tt_shared s) frs sh \<Longrightarrow>
     threads_act f s \<lparr>tt_shared = sh, tt_stacks = (tt_stacks s)[i := frs @ st]\<rparr>"

inductive threads_step :: "'d fsm \<Rightarrow> tcp_threads \<Rightarrow> tcp_threads \<Rightarrow> bool" for f where
  st_act: "threads_act f s t \<Longrightarrow> threads_step f s t"
| st_take: "i < length (tt_stacks s) \<Longrightarrow> tt_stacks s ! i = [] \<Longrightarrow> sh_ops (tt_shared s) = add_mset p P \<Longrightarrow>
     threads_step f s \<lparr>tt_shared = (tt_shared s)\<lparr>sh_ops := P\<rparr>, tt_stacks = (tt_stacks s)[i := [handler_frame p]]\<rparr>"
| st_timer: "i < length (tt_stacks s) \<Longrightarrow> tt_stacks s ! i = [] \<Longrightarrow> class_at f n = Some (TcpModule p h) \<Longrightarrow>
     threads_step f s (s\<lparr>tt_stacks := (tt_stacks s)[i := [Fr_timer_lock n]]\<rparr>)"

text \<open>
  \<open>Fsm::handle_request\<close>: the data of the modules have been reset, and one of \<open>task\<close> threads is to
  run the start module.
\<close>

definition threads_start :: "'d fsm \<Rightarrow> nat \<Rightarrow> tcp_threads \<Rightarrow> bool" where
  "threads_start f task s \<longleftrightarrow>
     (\<exists>md i. fsm_start_mod f = Some md \<and> i < task \<and>
        tt_stacks s = (replicate task [])[i := [Fr_run (md_name md) Mod_start]]) \<and>
     (\<forall>n. sh_event (tt_shared s) n = Socket_Event_None \<and> \<not> sh_locked (tt_shared s) n \<and>
        sh_join (tt_shared s) n = \<lparr> jd_module_joined_num = 0, jd_failed_join = False \<rparr>) \<and>
     sh_ops (tt_shared s) = {#}"

lemma shared_fields [simp]:
  "sh_event (set_event n e sh) = (sh_event sh)(n := e)" "sh_locked (set_event n e sh) = sh_locked sh"
  "sh_ops (set_event n e sh) = sh_ops sh" "sh_event (set_locked n b sh) = sh_event sh"
  "sh_locked (set_locked n b sh) = (sh_locked sh)(n := b)" "sh_ops (set_locked n b sh) = sh_ops sh"
  "sh_event (start_ops P sh) = sh_event sh" "sh_locked (start_ops P sh) = sh_locked sh"
  "sh_ops (start_ops P sh) = P + sh_ops sh"
  by (simp_all add: set_event_def set_locked_def start_ops_def)

text \<open>All the calls of all threads; an action exchanges the top of one stack.\<close>

definition frames :: "tcp_threads \<Rightarrow> frame multiset" where
  "frames s = mset (concat (tt_stacks s))"

lemma frames_exchange:
  assumes "i < length xs" and "xs ! i = a @ st"
  obtains R where "mset (concat xs) = mset a + R" and "\<And>b. mset (concat (xs[i := b @ st])) = mset b + R"
proof
  let ?R = "mset st + mset (concat (take i xs)) + mset (concat (drop (Suc i) xs))"
  have "concat xs = concat (take i xs) @ (a @ st) @ concat (drop (Suc i) xs)"
    using id_take_nth_drop [OF assms(1)] assms(2) by (metis concat.simps(2) concat_append)
  then show "mset (concat xs) = mset a + ?R" by simp
  show "mset (concat (xs[i := b @ st])) = mset b + ?R" for b
    using assms(1) by (simp add: upd_conv_take_nth_drop)
qed

lemma act_frames:
  assumes "threads_act f s t"
  obtains fr frs R where "call_act f fr (tt_shared s) frs (tt_shared t)"
    and "frames s = add_mset fr R" and "frames t = mset frs + R"
  using assms
proof cases
  case (1 i fr st frs sh)
  from 1(3) have "tt_stacks s ! i = [fr] @ st" by simp
  with 1(2) obtain R where "frames s = mset [fr] + R" "mset (concat ((tt_stacks s)[i := frs @ st])) = mset frs + R"
    unfolding frames_def by (rule frames_exchange) blast
  with 1 show thesis by (intro that [of fr frs R]) (simp_all add: frames_def)
qed

lemma take_frames:
  assumes "i < length (tt_stacks s)" and "tt_stacks s ! i = []" and t: "tt_stacks t = (tt_stacks s)[i := [fr]]"
  shows "frames t = add_mset fr (frames s)"
proof -
  from assms(2) have "tt_stacks s ! i = [] @ []" by simp
  with assms(1) obtain R where "frames s = mset [] + R" "\<And>b. mset (concat ((tt_stacks s)[i := b @ []])) = mset b + R"
    unfolding frames_def by (rule frames_exchange) blast
  from this(1) this(2) [of "[fr]"] show ?thesis by (simp add: frames_def [of t] t)
qed

section \<open>The mutexes\<close>

fun holds :: "frame \<Rightarrow> string option" where
  "holds (Fr_run_locked n) = Some n"
| "holds (Fr_on_locked n k) = Some n"
| "holds (Fr_on_closed n k) = Some n"
| "holds (Fr_missed n k) = Some n"
| "holds (Fr_opening n) = Some n"
| "holds (Fr_unlock n s) = Some n"
| "holds (Fr_timer_locked n) = Some n"
| "holds _ = None"

fun wants :: "frame \<Rightarrow> string option" where
  "wants (Fr_run_lock n) = Some n"
| "wants (Fr_on_lock n k) = Some n"
| "wants (Fr_timer_lock n) = Some n"
| "wants _ = None"

definition held :: "string \<Rightarrow> frame multiset \<Rightarrow> nat" where
  "held n F = size {#fr \<in># F. holds fr = Some n#}"

definition mutex_ok :: "frame multiset \<Rightarrow> tcp_shared \<Rightarrow> bool" where
  "mutex_ok F sh \<longleftrightarrow> (\<forall>n. held n F = (if sh_locked sh n then 1 else 0))"

lemma held_simps [simp]:
  "held n {#} = 0" "held n (add_mset fr F) = (if holds fr = Some n then 1 else 0) + held n F"
  "held n (F + G) = held n F + held n G"
  by (simp_all add: held_def)

lemma held_member: "fr \<in># F \<Longrightarrow> holds fr = Some n \<Longrightarrow> 1 \<le> held n F"
  by (auto simp: dest: multi_member_split)

lemma held_some: "held n F \<noteq> 0 \<longleftrightarrow> (\<exists>fr\<in>#F. holds fr = Some n)"
  by (induction F) auto

lemma mutex_same:
  "mutex_ok (add_mset fr F) sh \<Longrightarrow> sh_locked sh' = sh_locked sh \<Longrightarrow> (\<And>n. held n G = (if holds fr = Some n then 1 else 0)) \<Longrightarrow>
     mutex_ok (G + F) sh'"
  by (simp add: mutex_ok_def)

lemma mutex_lock:
  "mutex_ok (add_mset fr F) sh \<Longrightarrow> holds fr = None \<Longrightarrow> \<not> sh_locked sh n \<Longrightarrow> holds fr' = Some n \<Longrightarrow>
     mutex_ok (add_mset fr' F) (set_locked n True sh)"
  by (auto simp: mutex_ok_def)

lemma mutex_unlock:
  assumes "mutex_ok (add_mset fr F) sh" and "holds fr = Some n" and "\<And>m. held m G = 0"
  shows "mutex_ok (G + F) (set_locked n False sh)"
proof -
  have "held m (add_mset fr F) = (if sh_locked sh m then 1 else 0)" for m using assms(1) by (simp add: mutex_ok_def)
  note all = this
  show ?thesis unfolding mutex_ok_def
  proof
    fix m show "held m (G + F) = (if sh_locked (set_locked n False sh) m then 1 else 0)"
      using all [of m] assms(2,3) by (cases "m = n") (auto split: if_splits)
  qed
qed

lemma act_mutex:
  assumes "call_act f fr sh frs sh'" and ok: "mutex_ok (add_mset fr F) sh"
  shows "mutex_ok (mset frs + F) sh'"
  using assms(1)
proof cases
  case (run_lock n)
  with mutex_lock [OF ok] show ?thesis by simp
next
  case (on_lock n k)
  with mutex_lock [OF ok] show ?thesis by simp
next
  case (timer_lock n)
  with mutex_lock [OF ok] show ?thesis by simp
next
  case (unlock n s)
  with mutex_unlock [OF ok, of n "mset frs"] show ?thesis by (simp split: if_splits)
qed (rule mutex_same [OF ok]; simp split: if_splits)+

section \<open>What can still come to a module\<close>

text \<open>The operations and the calls from which the machine may come to the \<open>TcpModule\<close> \<open>m\<close>.\<close>

fun op_leads :: "'d fsm \<Rightarrow> string \<Rightarrow> pend \<Rightarrow> bool" where
  "op_leads f m (Pd_exch n k) \<longleftrightarrow> m \<in> reaches f n"
| "op_leads f m (Pd_conn n) \<longleftrightarrow> m \<in> reaches f n"
| "op_leads f m (Pd_resume n s) \<longleftrightarrow> leads f n s m"

fun frame_leads :: "'d fsm \<Rightarrow> string \<Rightarrow> frame \<Rightarrow> bool" where
  "frame_leads f m (Fr_resume n s) \<longleftrightarrow> leads f n s m"
| "frame_leads f m (Fr_run n s) \<longleftrightarrow> m \<in> reaches f n"
| "frame_leads f m (Fr_conn n) \<longleftrightarrow> m \<in> reaches f n"
| "frame_leads f m (Fr_fork n i) \<longleftrightarrow> (\<exists>j\<ge>i. j < 2 ^ 16 \<and> leads f n (Mod_Fork0 + word_of_nat j) m)"
| "frame_leads f m (Fr_run_lock n) \<longleftrightarrow> m \<in> reaches f n"
| "frame_leads f m (Fr_run_locked n) \<longleftrightarrow> m \<in> reaches f n"
| "frame_leads f m (Fr_on_lock n k) \<longleftrightarrow> m \<in> reaches f n"
| "frame_leads f m (Fr_on_locked n k) \<longleftrightarrow> m \<in> reaches f n"
| "frame_leads f m (Fr_on_closed n k) \<longleftrightarrow> m \<in> reaches f n"
| "frame_leads f m (Fr_unlock n s) \<longleftrightarrow> s \<noteq> Mod_async \<and> leads f n s m"
| "frame_leads f m _ \<longleftrightarrow> False"

definition ops_to :: "'d fsm \<Rightarrow> string \<Rightarrow> pend multiset \<Rightarrow> nat" where
  "ops_to f m P = size {#p \<in># P. op_leads f m p#}"

definition frames_to :: "'d fsm \<Rightarrow> string \<Rightarrow> frame multiset \<Rightarrow> nat" where
  "frames_to f m F = size {#fr \<in># F. frame_leads f m fr#}"

definition traffic_ok :: "'d fsm \<Rightarrow> frame multiset \<Rightarrow> tcp_shared \<Rightarrow> bool" where
  "traffic_ok f F sh \<longleftrightarrow> (\<forall>m\<in>tcp_names f. ops_to f m (sh_ops sh) + frames_to f m F \<le> 1)"

lemma to_simps [simp]:
  "ops_to f m {#} = 0" "ops_to f m (add_mset p P) = (if op_leads f m p then 1 else 0) + ops_to f m P"
  "ops_to f m (P + Q) = ops_to f m P + ops_to f m Q"
  "frames_to f m {#} = 0" "frames_to f m (add_mset fr F) = (if frame_leads f m fr then 1 else 0) + frames_to f m F"
  "frames_to f m (F + G) = frames_to f m F + frames_to f m G"
  by (simp_all add: ops_to_def frames_to_def)

lemma to_member:
  "p \<in># P \<Longrightarrow> op_leads f m p \<Longrightarrow> 1 \<le> ops_to f m P" "fr \<in># F \<Longrightarrow> frame_leads f m fr \<Longrightarrow> 1 \<le> frames_to f m F"
  by (auto dest: multi_member_split)

lemma class_at_registered:
  assumes "registry_ok (fsm_mod_map f)" and "class_at f n = Some cls"
  obtains md where "registered f md" and "md_name md = n" and "md_class md = cls"
proof -
  from assms(2) obtain md where "module_of f n = Some md" "md_class md = cls" by (auto simp: class_at_def)
  with module_of_registered [OF assms(1)] that show thesis by blast
qed

lemma class_at_tcp:
  assumes "registry_ok (fsm_mod_map f)" and "class_at f n = Some (TcpModule p h)"
  shows "n \<in> tcp_names f"
  using assms by (rule class_at_registered) (auto simp: tcp_names_def)

text \<open>A branch that the loop of a fork starts leads to no module that a later branch leads to.\<close>

lemma fork_to:
  assumes reg: "registry_ok (fsm_mod_map f)" and split: "forks_split f" and m: "m \<in> tcp_names f"
    and n: "class_at f n = Some (ForkModule k g)" and i: "i < j" "j < 2 ^ 16"
    and "leads f n (Mod_Fork0 + word_of_nat i) m" "leads f n (Mod_Fork0 + word_of_nat j) m"
  shows False
proof -
  obtain md where md: "registered f md" "md_name md = n" "md_class md = ForkModule k g"
    using reg n by (rule class_at_registered)
  then have eq: "(Mod_Fork0 + word_of_nat i :: ModState) = Mod_Fork0 + word_of_nat j"
    using split assms(7,8) m unfolding forks_split_def by (metis is_fork.simps(1))
  have "distinct (map (\<lambda>i. Mod_Fork0 + word_of_nat i :: ModState) [0 ..< Suc j])"
    using i(2) by (intro fork_states_distinct) simp
  then have "inj_on (\<lambda>i. Mod_Fork0 + word_of_nat i :: ModState) {0 ..< Suc j}"
    unfolding distinct_map set_upt by blast
  from inj_onD [OF this eq] i(1) show False by simp
qed

lemma resume_leads: "leads f n s m \<Longrightarrow> m \<in> reaches f n"
  by (auto simp: reaches_def)

lemma act_to:
  assumes "call_act f fr sh frs sh'" and "registry_ok (fsm_mod_map f)" and "forks_split f" and "m \<in> tcp_names f"
  shows "ops_to f m (sh_ops sh') + frames_to f m (mset frs) \<le>
    ops_to f m (sh_ops sh) + (if frame_leads f m fr then 1 else 0)"
  using assms(1)
proof cases
  case (resume_next n s t)
  then have "leads f n s m" if "m \<in> reaches f t" using that leads_route [of f n s t] by blast
  with resume_next show ?thesis by auto
next
  case (fork_next n k g i d)
  have "i < 2 ^ 16" using fork_next(5) unsigned_less [of "g d", where 'a = nat] by simp
  with fork_to [OF assms(2-4) fork_next(4), of i] fork_next show ?thesis
    by (auto simp: Suc_le_eq intro: less_imp_le)
qed (auto simp: resume_leads split: if_splits)

lemma act_traffic:
  assumes "call_act f fr sh frs sh'" and "registry_ok (fsm_mod_map f)" and "forks_split f"
    and "traffic_ok f (add_mset fr F) sh"
  shows "traffic_ok f (mset frs + F) sh'"
  unfolding traffic_ok_def
proof
  fix m assume m: "m \<in> tcp_names f"
  with assms(4) have "ops_to f m (sh_ops sh) + frames_to f m (add_mset fr F) \<le> 1" by (simp add: traffic_ok_def)
  with act_to [OF assms(1-3) m] show "ops_to f m (sh_ops sh') + frames_to f m (mset frs + F) \<le> 1" by simp
qed

section \<open>The socket events\<close>

text \<open>
  A completion that has not been looked at yet finds the event open, or the thread that started
  the operation is about to open it. Exchanges belong to \<open>TcpModule\<close>s, and no handler has come too late.
\<close>

fun unseen :: "frame \<Rightarrow> string option" where
  "unseen (Fr_on_lock n k) = Some n"
| "unseen (Fr_on_locked n k) = Some n"
| "unseen _ = None"

definition awaited :: "string \<Rightarrow> frame multiset \<Rightarrow> tcp_shared \<Rightarrow> bool" where
  "awaited n F sh \<longleftrightarrow> (\<exists>k. Pd_exch n k \<in># sh_ops sh) \<or> (\<exists>fr\<in>#F. unseen fr = Some n)"

definition events_ok :: "frame multiset \<Rightarrow> tcp_shared \<Rightarrow> bool" where
  "events_ok F sh \<longleftrightarrow>
     (\<forall>n. awaited n F sh \<longrightarrow> sh_event sh n = Socket_Event_Opened \<or> Fr_opening n \<in># F) \<and>
     (\<forall>n k. Fr_missed n k \<notin># F)"

fun op_named :: "'d fsm \<Rightarrow> pend \<Rightarrow> bool" where
  "op_named f (Pd_exch n k) \<longleftrightarrow> n \<in> tcp_names f"
| "op_named f _ \<longleftrightarrow> True"

definition frame_named :: "'d fsm \<Rightarrow> frame \<Rightarrow> bool" where
  "frame_named f fr \<longleftrightarrow>
     (\<forall>n. holds fr = Some n \<or> wants fr = Some n \<longrightarrow> n \<in> tcp_names f) \<and>
     (\<forall>n s. fr = Fr_run n s \<longrightarrow> class_at f n \<noteq> None) \<and>
     (\<forall>n i. fr = Fr_fork n i \<longrightarrow> (\<exists>k g. class_at f n = Some (ForkModule k g)))"

definition named :: "'d fsm \<Rightarrow> frame multiset \<Rightarrow> tcp_shared \<Rightarrow> bool" where
  "named f F sh \<longleftrightarrow> (\<forall>p\<in>#sh_ops sh. op_named f p) \<and> (\<forall>fr\<in>#F. frame_named f fr)"

lemma route_class:
  assumes wf: "fsm_wf rank f" and "route f n s = Some m"
  shows "class_at f m \<noteq> None" and "rank m < rank n"
proof -
  from assms(2) obtain s' where "link_of f n s' = Some m" by (auto simp: route_def split: option.splits)
  with wf have m: "sm_find (fsm_mod_map f) m \<noteq> None" and "rank m < rank n" and "registry_ok (fsm_mod_map f)"
    by (auto simp: fsm_wf_def links_ok_def)
  then show "rank m < rank n" by simp
  obtain md where "sm_find (fsm_mod_map f) m = Some (Some md)"
    using registered_entry [OF \<open>registry_ok (fsm_mod_map f)\<close> m] by blast
  then show "class_at f m \<noteq> None" by (simp add: class_at_def module_of_def)
qed

lemma wf_registry: "fsm_wf rank f \<Longrightarrow> registry_ok (fsm_mod_map f)"
  by (simp add: fsm_wf_def)

lemma act_named:
  assumes "call_act f fr sh frs sh'" and wf: "fsm_wf rank f" and ok: "named f (add_mset fr F) sh"
  shows "named f (mset frs + F) sh'"
  using assms(1)
proof cases
  case (resume_next n s m)
  with route_class(1) [OF wf] ok show ?thesis by (auto simp: named_def frame_named_def)
next
  case (run_tcp n p h d s)
  with class_at_tcp [OF wf_registry [OF wf]] ok show ?thesis by (auto simp: named_def frame_named_def)
qed (use ok in \<open>auto simp: named_def frame_named_def split: if_splits\<close>)

text \<open>When a handler has the mutex, nothing else comes to its module, and nobody is about to open it.\<close>

lemma alone:
  assumes "traffic_ok f (add_mset (Fr_on_locked n k) F) sh" and "named f (add_mset (Fr_on_locked n k) F) sh"
  shows "\<not> awaited n F sh"
proof
  have n: "n \<in> tcp_names f" "n \<in> reaches f n" using assms(2) by (auto simp: named_def frame_named_def reaches_def)
  with assms(1) have none: "ops_to f n (sh_ops sh) = 0" "frames_to f n F = 0" by (auto simp: traffic_ok_def)
  assume "awaited n F sh"
  then show False unfolding awaited_def
  proof
    assume "\<exists>k. Pd_exch n k \<in># sh_ops sh"
    with n none to_member(1) [of _ "sh_ops sh" f n] show False by fastforce
  next
    assume "\<exists>fr\<in>#F. unseen fr = Some n"
    then obtain fr where fr: "fr \<in># F" "unseen fr = Some n" by blast
    with n have "frame_leads f n fr" by (cases fr) auto
    from none to_member(2) [OF fr(1) this] show False by simp
  qed
qed

lemma not_opening:
  assumes "mutex_ok (add_mset fr F) sh" and "holds fr = Some n"
  shows "Fr_opening n \<notin># F"
proof
  assume "Fr_opening n \<in># F"
  then have "1 \<le> held n F" by (rule held_member) simp
  moreover have "held n (add_mset fr F) \<le> 1" using assms(1) by (simp add: mutex_ok_def)
  ultimately show False using assms(2) by simp
qed

lemma awaited_add [simp]:
  "awaited n (add_mset fr F) sh \<longleftrightarrow> unseen fr = Some n \<or> awaited n F sh"
  by (auto simp: awaited_def)

lemma awaited_shared [simp]:
  "awaited n F (set_event m e sh) = awaited n F sh" "awaited n F (set_locked m b sh) = awaited n F sh"
  "awaited n F (start_ops P sh) \<longleftrightarrow> (\<exists>k. Pd_exch n k \<in># P) \<or> awaited n F sh"
  "awaited n F (sh\<lparr>sh_join := j\<rparr>) = awaited n F sh"
  by (auto simp: awaited_def)

lemma act_events:
  assumes "call_act f fr sh frs sh'" and ok: "events_ok (add_mset fr F) sh"
    and mutex: "mutex_ok (add_mset fr F) sh" and traffic: "traffic_ok f (add_mset fr F) sh"
    and named: "named f (add_mset fr F) sh"
  shows "events_ok (mset frs + F) sh'"
  using assms(1)
proof cases
  case (on_open n k)
  with alone [of f n k F sh] traffic named ok show ?thesis by (auto simp: events_ok_def)
next
  case (on_called n k)
  with not_opening [OF mutex, of n] ok have False by (auto simp: events_ok_def)
  then show ?thesis ..
next
  case (unlock n s)
  with ok show ?thesis by (auto simp: events_ok_def)
qed (use ok in \<open>auto simp: events_ok_def split: if_splits\<close>)

section \<open>The order of the mutexes\<close>

text \<open>
  A call only ever locks mutexes of modules below a rank: those that come after the module. What
  is on top of a call that holds a mutex locks only mutexes of smaller rank.
\<close>

fun locks_below :: "(string \<Rightarrow> nat) \<Rightarrow> frame \<Rightarrow> nat" where
  "locks_below rank (Fr_resume n s) = rank n"
| "locks_below rank (Fr_unlock n s) = rank n"
| "locks_below rank (Fr_fork n i) = rank n"
| "locks_below rank (Fr_run n s) = Suc (rank n)"
| "locks_below rank (Fr_conn n) = Suc (rank n)"
| "locks_below rank (Fr_run_lock n) = Suc (rank n)"
| "locks_below rank (Fr_run_locked n) = Suc (rank n)"
| "locks_below rank (Fr_on_lock n k) = Suc (rank n)"
| "locks_below rank (Fr_on_locked n k) = Suc (rank n)"
| "locks_below rank (Fr_on_closed n k) = Suc (rank n)"
| "locks_below rank (Fr_missed n k) = Suc (rank n)"
| "locks_below rank (Fr_opening n) = Suc (rank n)"
| "locks_below rank (Fr_timer_lock n) = Suc (rank n)"
| "locks_below rank (Fr_timer_locked n) = Suc (rank n)"

definition under :: "(string \<Rightarrow> nat) \<Rightarrow> frame \<Rightarrow> frame \<Rightarrow> bool" where
  "under rank fr fr' \<longleftrightarrow> (\<forall>n. holds fr' = Some n \<longrightarrow> locks_below rank fr \<le> rank n)"

abbreviation ordered :: "(string \<Rightarrow> nat) \<Rightarrow> frame list \<Rightarrow> bool" where
  "ordered rank \<equiv> sorted_wrt (under rank)"

lemma wants_below: "wants fr = Some n \<Longrightarrow> locks_below rank fr = Suc (rank n)"
  by (cases fr) auto

lemma act_below:
  assumes "call_act f fr sh frs sh'" and "fsm_wf rank f" and "fr' \<in> set frs"
  shows "locks_below rank fr' \<le> locks_below rank fr"
  using assms(1)
proof cases
  case (resume_next n s m)
  with route_class(2) [OF assms(2)] assms(3) show ?thesis by (auto simp: Suc_le_eq)
qed (use assms(3) in \<open>auto split: if_splits\<close>)

lemma act_ordered:
  assumes call_act: "call_act f fr sh frs sh'" and wf: "fsm_wf rank f" and ord: "ordered rank (fr # st)"
  shows "ordered rank (frs @ st)"
proof -
  have "ordered rank frs" using call_act by cases (auto simp: under_def split: if_splits)
  moreover have "under rank x y" if "x \<in> set frs" "y \<in> set st" for x y
    using act_below [OF call_act wf that(1)] ord that(2) by (force simp: under_def)
  ultimately show ?thesis using ord by (simp add: sorted_wrt_append)
qed

text \<open>Every call that does not wait for a mutex that is taken can go on.\<close>

lemma can_act:
  assumes "frame_named f fr" and "\<And>n. wants fr = Some n \<Longrightarrow> \<not> sh_locked sh n"
  shows "\<exists>frs sh'. call_act f fr sh frs sh'"
proof (cases fr)
  case (Fr_run n s)
  with assms(1) obtain cls where cls: "class_at f n = Some cls" by (auto simp: frame_named_def)
  obtain jd where jd: "join_arrive s (sh_join sh n) = jd" by blast
  show ?thesis
    using cls unfolding Fr_run by (cases cls; cases jd) (use jd in \<open>blast intro: call_act.intros\<close>)+
next
  case (Fr_fork n i)
  with assms(1) obtain k g where n: "class_at f n = Some (ForkModule k g)" by (auto simp: frame_named_def)
  show ?thesis
    using fork_next [OF n, of i undefined] fork_done [OF n, of undefined i] unfolding Fr_fork
    by (cases "i < unat (g undefined)") (fastforce simp: not_less)+
next
  case (Fr_resume n s)
  then show ?thesis by (cases "ends_at f n"; cases "route f n s") (blast intro: call_act.intros)+
next
  case (Fr_on_locked n k)
  then show ?thesis by (cases "sh_event sh n = Socket_Event_Opened") (blast intro: call_act.intros)+
next
  case (Fr_on_closed n k)
  show ?thesis
    unfolding Fr_on_closed by (cases "exch_result_of k no_error True True") (blast intro: call_act.intros)+
qed (use assms(2) in \<open>fastforce intro: call_act.intros\<close>)+

text \<open>How many actions a call has left at most, with all that it calls. A fork has less than \<open>2 ^ 16\<close> branches.\<close>

fun effort :: "(string \<Rightarrow> nat) \<Rightarrow> frame \<Rightarrow> nat" where
  "effort rank (Fr_run n s) = 65550 * rank n + 65549"
| "effort rank (Fr_fork n i) = Suc (2 ^ 16 - i)"
| "effort rank (Fr_run_lock n) = 65550 * rank n + 8"
| "effort rank (Fr_run_locked n) = 65550 * rank n + 7"
| "effort rank (Fr_conn n) = 65550 * rank n + 2"
| "effort rank (Fr_on_lock n k) = 65550 * rank n + 6"
| "effort rank (Fr_on_locked n k) = 65550 * rank n + 5"
| "effort rank (Fr_on_closed n k) = 65550 * rank n + 3"
| "effort rank (Fr_missed n k) = 2"
| "effort rank (Fr_opening n) = 2"
| "effort rank (Fr_unlock n s) = (if s = Mod_async then 1 else 65550 * rank n + 2)"
| "effort rank (Fr_resume n s) = 65550 * rank n + 1"
| "effort rank (Fr_timer_lock n) = 3"
| "effort rank (Fr_timer_locked n) = 2"

definition labour :: "(string \<Rightarrow> nat) \<Rightarrow> tcp_threads \<Rightarrow> nat" where
  "labour rank s = (\<Sum>fr\<in>#frames s. effort rank fr)"

lemma act_effort:
  assumes "call_act f fr sh frs sh'" and "fsm_wf rank f"
  shows "(\<Sum>x\<in>#mset frs. effort rank x) < effort rank fr"
  using assms(1)
proof cases
  case (resume_next n s m)
  with route_class(2) [OF assms(2)] show ?thesis by fastforce
next
  case (fork_next n k g i d)
  then show ?thesis using unsigned_less [of "g d", where 'a = nat] by simp
qed auto

lemma threads_act_labour: "threads_act f s t \<Longrightarrow> fsm_wf rank f \<Longrightarrow> labour rank t < labour rank s"
  by (erule act_frames) (use act_effort in \<open>fastforce simp: labour_def\<close>)

section \<open>Invariants\<close>

definition locks_inv :: "(string \<Rightarrow> nat) \<Rightarrow> 'd fsm \<Rightarrow> tcp_threads \<Rightarrow> bool" where
  "locks_inv rank f s \<longleftrightarrow>
     fsm_wf rank f \<and> mutex_ok (frames s) (tt_shared s) \<and> named f (frames s) (tt_shared s) \<and>
     (\<forall>st\<in>set (tt_stacks s). ordered rank st)"

definition exch_inv :: "(string \<Rightarrow> nat) \<Rightarrow> 'd fsm \<Rightarrow> tcp_threads \<Rightarrow> bool" where
  "exch_inv rank f s \<longleftrightarrow>
     locks_inv rank f s \<and> forks_split f \<and> traffic_ok f (frames s) (tt_shared s) \<and>
     events_ok (frames s) (tt_shared s)"

lemma start_frames:
  assumes "threads_start f task s"
  obtains md where "fsm_start_mod f = Some md" and "frames s = {#Fr_run (md_name md) Mod_start#}"
    and "\<And>st. st \<in> set (tt_stacks s) \<Longrightarrow> st = [] \<or> st = [Fr_run (md_name md) Mod_start]"
proof -
  obtain md i where md: "fsm_start_mod f = Some md" and i: "i < task"
    and st: "tt_stacks s = (replicate task [])[i := [Fr_run (md_name md) Mod_start]]"
    using assms unfolding threads_start_def by blast
  have "concat (replicate k [] :: frame list list) = []" for k by (induction k) simp_all
  with i have "frames s = {#Fr_run (md_name md) Mod_start#}"
    unfolding frames_def st by (simp add: upd_conv_take_nth_drop)
  moreover have "x = [] \<or> x = [Fr_run (md_name md) Mod_start]" if "x \<in> set (tt_stacks s)" for x
    using that set_update_subset_insert unfolding st by fastforce
  ultimately show thesis using md that by blast
qed

lemma locks_start:
  assumes "threads_start f task s" and wf: "fsm_wf rank f"
  shows "locks_inv rank f s"
  using assms(1)
proof (rule start_frames)
  fix md assume md: "fsm_start_mod f = Some md" and F: "frames s = {#Fr_run (md_name md) Mod_start#}"
    and st: "\<And>st. st \<in> set (tt_stacks s) \<Longrightarrow> st = [] \<or> st = [Fr_run (md_name md) Mod_start]"
  from md wf have "registered f md" by (auto simp: fsm_wf_def start_ok_def)
  then have "class_at f (md_name md) \<noteq> None" by (simp add: class_at_def module_of_def registered_def)
  then have "named f (frames s) (tt_shared s)"
    using assms(1) unfolding F by (auto simp: named_def frame_named_def threads_start_def)
  moreover have "mutex_ok (frames s) (tt_shared s)"
    using assms(1) unfolding F by (auto simp: mutex_ok_def threads_start_def)
  moreover have "ordered rank st" if "st \<in> set (tt_stacks s)" for st using st [OF that] by auto
  ultimately show ?thesis using wf by (simp add: locks_inv_def)
qed

lemma exch_start:
  assumes "threads_start f task s" and wf: "fsm_wf rank f" and split: "forks_split f"
  shows "exch_inv rank f s"
  using assms(1)
proof (rule start_frames)
  fix md assume F: "frames s = {#Fr_run (md_name md) Mod_start#}"
  have "sh_ops (tt_shared s) = {#}" using assms(1) by (simp add: threads_start_def)
  with F have "traffic_ok f (frames s) (tt_shared s)" "events_ok (frames s) (tt_shared s)"
    by (auto simp: traffic_ok_def events_ok_def awaited_def)
  with locks_start [OF assms(1) wf] split show ?thesis by (simp add: exch_inv_def)
qed

text \<open>A thread that takes a completion or a time-out only moves what there is.\<close>

lemma handler_frame_simps [simp]:
  "holds (handler_frame p) = None" "frame_leads f m (handler_frame p) = op_leads f m p"
  "unseen (handler_frame p) = Some n \<longleftrightarrow> (\<exists>k. p = Pd_exch n k)" "handler_frame p \<noteq> Fr_missed n k"
  "Fr_missed n k \<noteq> handler_frame p"
  "op_named f p \<Longrightarrow> frame_named f (handler_frame p)"
  by (cases p; simp add: frame_named_def)+

lemma take_ok:
  assumes "sh_ops sh = add_mset p P"
  shows "mutex_ok F sh \<Longrightarrow> mutex_ok (add_mset (handler_frame p) F) (sh\<lparr>sh_ops := P\<rparr>)"
    and "named f F sh \<Longrightarrow> named f (add_mset (handler_frame p) F) (sh\<lparr>sh_ops := P\<rparr>)"
    and "traffic_ok f F sh \<Longrightarrow> traffic_ok f (add_mset (handler_frame p) F) (sh\<lparr>sh_ops := P\<rparr>)"
    and "events_ok F sh \<Longrightarrow> events_ok (add_mset (handler_frame p) F) (sh\<lparr>sh_ops := P\<rparr>)"
  using assms by (auto simp: mutex_ok_def named_def traffic_ok_def events_ok_def awaited_def)

lemma timer_ok:
  "mutex_ok F sh \<Longrightarrow> mutex_ok (add_mset (Fr_timer_lock n) F) sh"
  "named f F sh \<Longrightarrow> n \<in> tcp_names f \<Longrightarrow> named f (add_mset (Fr_timer_lock n) F) sh"
  "traffic_ok f F sh \<Longrightarrow> traffic_ok f (add_mset (Fr_timer_lock n) F) sh"
  "events_ok F sh \<Longrightarrow> events_ok (add_mset (Fr_timer_lock n) F) sh"
  by (auto simp: mutex_ok_def named_def frame_named_def traffic_ok_def events_ok_def)

lemma ordered_update:
  assumes "\<forall>st\<in>set xs. ordered rank st" and "ordered rank st'"
  shows "\<forall>st\<in>set (xs[i := st']). ordered rank st"
  using assms set_update_subset_insert [of xs i st'] by auto

lemma locks_step:
  assumes inv: "locks_inv rank f s" and step: "threads_step f s t"
  shows "locks_inv rank f t"
proof -
  have wf: "fsm_wf rank f" and ok: "mutex_ok (frames s) (tt_shared s)" "named f (frames s) (tt_shared s)"
    and ord: "\<forall>st\<in>set (tt_stacks s). ordered rank st"
    using inv by (auto simp: locks_inv_def)
  from step show ?thesis
  proof cases
    case st_act
    then obtain fr frs R where call_act: "call_act f fr (tt_shared s) frs (tt_shared t)"
      and R: "frames s = add_mset fr R" "frames t = mset frs + R" by (rule act_frames)
    have "mutex_ok (frames t) (tt_shared t)" "named f (frames t) (tt_shared t)"
      using act_mutex [OF call_act] act_named [OF call_act wf] ok unfolding R by blast+
    moreover from st_act have "\<forall>st\<in>set (tt_stacks t). ordered rank st"
    proof cases
      case (1 i fr st frs sh)
      then have "fr # st \<in> set (tt_stacks s)" by (metis nth_mem)
      with ord have "ordered rank (fr # st)" by blast
      from ordered_update [OF ord act_ordered [OF 1(4) wf this]] 1 show ?thesis by simp
    qed
    ultimately show ?thesis using wf by (simp add: locks_inv_def)
  next
    case (st_take i p P)
    then have "frames t = add_mset (handler_frame p) (frames s)" by (intro take_frames) simp_all
    with st_take take_ok(1) [OF st_take(4) ok(1)] take_ok(2) [OF st_take(4) ok(2)] wf
      ordered_update [OF ord, of "[handler_frame p]" i]
    show ?thesis by (simp add: locks_inv_def)
  next
    case (st_timer i n p h)
    then have "frames t = add_mset (Fr_timer_lock n) (frames s)" by (intro take_frames) simp_all
    with st_timer timer_ok(1) [OF ok(1)] timer_ok(2) [OF ok(2)] class_at_tcp [OF wf_registry [OF wf]]
      wf ordered_update [OF ord, of "[Fr_timer_lock n]" i]
    show ?thesis by (simp add: locks_inv_def)
  qed
qed

lemma exch_step:
  assumes inv: "exch_inv rank f s" and step: "threads_step f s t"
  shows "exch_inv rank f t"
proof -
  have locks: "locks_inv rank f s" and split: "forks_split f"
    and ok: "traffic_ok f (frames s) (tt_shared s)" "events_ok (frames s) (tt_shared s)"
    using inv by (auto simp: exch_inv_def)
  then have wf: "fsm_wf rank f" by (simp add: locks_inv_def)
  from step have "traffic_ok f (frames t) (tt_shared t) \<and> events_ok (frames t) (tt_shared t)"
  proof cases
    case st_act
    then obtain fr frs R where call_act: "call_act f fr (tt_shared s) frs (tt_shared t)"
      and R: "frames s = add_mset fr R" "frames t = mset frs + R" by (rule act_frames)
    from locks have "mutex_ok (add_mset fr R) (tt_shared s)" "named f (add_mset fr R) (tt_shared s)"
      by (simp_all add: locks_inv_def R)
    with act_traffic [OF call_act wf_registry [OF wf] split] act_events [OF call_act] ok show ?thesis
      unfolding R by blast
  next
    case (st_take i p P)
    then have "frames t = add_mset (handler_frame p) (frames s)" by (intro take_frames) simp_all
    with st_take take_ok(3) [OF st_take(4) ok(1)] take_ok(4) [OF st_take(4) ok(2)]
    show ?thesis by simp
  next
    case (st_timer i n p h)
    then have "frames t = add_mset (Fr_timer_lock n) (frames s)" by (intro take_frames) simp_all
    with st_timer timer_ok(3) [OF ok(1)] timer_ok(4) [OF ok(2)]
    show ?thesis by simp
  qed
  with locks_step [OF locks step] split show ?thesis by (simp add: exch_inv_def)
qed

interpretation locks: invariant "\<lambda>s. fsm_wf rank f \<and> threads_start f task s" "threads_step f" "locks_inv rank f"
  for rank f task
  by unfold_locales (auto intro: locks_start locks_step)

interpretation exchanges: invariant "\<lambda>s. (fsm_wf rank f \<and> forks_split f) \<and> threads_start f task s"
  "threads_step f" "exch_inv rank f" for rank f task
  by unfold_locales (auto intro: exch_start exch_step)

section \<open>Properties\<close>

text \<open>
  A thread that waits for the mutex of \<open>n\<close> while it is taken: whoever has it waits for one of
  smaller rank, if it waits.
\<close>

lemma holder_below:
  assumes inv: "locks_inv rank f s" and "sh_locked (tt_shared s) n"
  obtains fr st where "fr # st \<in> set (tt_stacks s)"
    and "holds fr = Some n \<or> locks_below rank fr \<le> rank n"
proof -
  have "held n (frames s) = 1" using assms by (simp add: locks_inv_def mutex_ok_def)
  then obtain g where "g \<in># frames s" and g: "holds g = Some n"
    using held_some [of n "frames s"] by auto
  then obtain st where st: "st \<in> set (tt_stacks s)" "g \<in> set st" by (auto simp: frames_def)
  from st(2) obtain fr st' where "st = fr # st'" by (cases st) auto
  moreover have "ordered rank st" using inv st(1) by (simp add: locks_inv_def)
  ultimately show thesis using that [of fr st'] st g by (auto simp: under_def)
qed

text \<open>Among the threads that wait, the one for the mutex of smallest rank waits for a thread that can go on.\<close>

lemma some_thread_acts:
  assumes inv: "locks_inv rank f s" and "st \<in> set (tt_stacks s)" and "st \<noteq> []"
  shows "\<exists>t. threads_act f s t"
proof -
  have go: "\<exists>t. threads_act f s t"
    if "fr # st \<in> set (tt_stacks s)" "\<And>n. wants fr = Some n \<Longrightarrow> \<not> sh_locked (tt_shared s) n" for fr st
  proof -
    from that(1) obtain i where i: "i < length (tt_stacks s)" "tt_stacks s ! i = fr # st" by (metis in_set_conv_nth)
    have "fr \<in># frames s" using that(1) by (force simp: frames_def)
    with inv have "frame_named f fr" by (simp add: locks_inv_def named_def)
    with can_act [of f fr] that(2) obtain frs sh where "call_act f fr (tt_shared s) frs sh" by blast
    with i show ?thesis by (blast intro: threads_act.intros)
  qed
  have "\<exists>t. threads_act f s t" if "fr # st \<in> set (tt_stacks s)" for fr st
    using that
  proof (induction "locks_below rank fr" arbitrary: fr st rule: less_induct)
    case less
    show ?case
    proof (cases "\<exists>n. wants fr = Some n \<and> sh_locked (tt_shared s) n")
      case True
      then obtain n where n: "wants fr = Some n" "sh_locked (tt_shared s) n" by blast
      from inv n(2) obtain fr' st' where fr': "fr' # st' \<in> set (tt_stacks s)"
        "holds fr' = Some n \<or> locks_below rank fr' \<le> rank n" by (rule holder_below)
      show ?thesis
      proof (cases "wants fr'")
        case None
        with go [OF fr'(1)] show ?thesis by simp
      next
        case (Some m)
        then have "holds fr' = None" by (cases fr') auto
        with fr' wants_below [OF n(1)] have "locks_below rank fr' < locks_below rank fr" by simp
        with less.hyps fr'(1) show ?thesis by blast
      qed
    qed (use go [OF less.prems] in blast)
  qed
  with assms(2,3) show ?thesis by (metis neq_Nil_conv)
qed

lemma locks_reach:
  "fsm_wf rank f \<Longrightarrow> reach (threads_start f task) (threads_step f) s \<Longrightarrow> locks_inv rank f s"
  by (rule locks.inv_reach [of rank f task], erule reach_weaken) simp

lemma exch_reach:
  "fsm_wf rank f \<Longrightarrow> forks_split f \<Longrightarrow> reach (threads_start f task) (threads_step f) s \<Longrightarrow> exch_inv rank f s"
  by (rule exchanges.inv_reach [of rank f task], erule reach_weaken) simp

text \<open>
  C10: Threads never deadlock. The threads that serve a request of a machine whose links descend in
  a rank hold the mutex of one \<open>TcpModule\<close> while they run the modules after it, which lock
  theirs. Still, in every state they can reach, whatever has completed in whatever order, some thread
  that is in a call can go on; every action lowers the number of actions that the calls have left,
  so they all return; and when they have returned no mutex is locked.
\<close>

theorem threads_never_deadlock:
  assumes "fsm_wf rank f" and "reach (threads_start f task) (threads_step f) s"
  shows "((\<exists>st\<in>set (tt_stacks s). st \<noteq> []) \<longrightarrow> (\<exists>t. threads_act f s t)) \<and>
    (\<forall>t. threads_act f s t \<longrightarrow> labour rank t < labour rank s) \<and>
    ((\<forall>st\<in>set (tt_stacks s). st = []) \<longrightarrow> (\<forall>n. \<not> sh_locked (tt_shared s) n))"
proof -
  have inv: "locks_inv rank f s" using assms by (rule locks_reach)
  have "\<not> sh_locked (tt_shared s) n" if "\<forall>st\<in>set (tt_stacks s). st = []" for n
    using holder_below [OF inv, of n] that by blast
  with some_thread_acts [OF inv] threads_act_labour [OF _ assms(1)] show ?thesis by blast
qed

text \<open>
  C9: Completion handlers do not get into each other's way. When several threads serve a machine
  whose forks split, then in every state they can reach: no handler of a \<open>TcpModule\<close> finds that it
  has already been called, although an operation is started before \<open>socket_event_\<close> is set and may
  complete on another thread in between; no two threads are in calls of one module that need its
  mutex; at most one pending operation or call can still come to a given \<open>TcpModule\<close>; and an operation
  that is pending for a module nobody is in finds the event open.
\<close>

theorem handlers_never_miss:
  assumes "fsm_wf rank f" and "forks_split f" and "reach (threads_start f task) (threads_step f) s"
  shows "(\<forall>n k. Fr_missed n k \<notin># frames s) \<and> (\<forall>n. held n (frames s) \<le> 1) \<and>
    (\<forall>m\<in>tcp_names f. ops_to f m (sh_ops (tt_shared s)) + frames_to f m (frames s) \<le> 1) \<and>
    (\<forall>n k. Pd_exch n k \<in># sh_ops (tt_shared s) \<and> held n (frames s) = 0 \<longrightarrow>
       sh_event (tt_shared s) n = Socket_Event_Opened)"
proof -
  have "exch_inv rank f s" using assms by (rule exch_reach)
  then have "mutex_ok (frames s) (tt_shared s)" and ev: "events_ok (frames s) (tt_shared s)"
    and "traffic_ok f (frames s) (tt_shared s)" by (simp_all add: exch_inv_def locks_inv_def)
  moreover have "sh_event (tt_shared s) n = Socket_Event_Opened"
    if "Pd_exch n k \<in># sh_ops (tt_shared s)" "held n (frames s) = 0" for n k
  proof -
    have "Fr_opening n \<notin># frames s" using held_member [of "Fr_opening n" "frames s" n] that(2) by auto
    with ev that(1) show ?thesis unfolding events_ok_def awaited_def by blast
  qed
  ultimately show ?thesis by (auto simp: mutex_ok_def traffic_ok_def events_ok_def)
qed

end
