(* ===== verification/Tcp_Actions.thy ===== *)
theory Tcp_Actions
  imports Tcp_Concurrency Tcp_Exchange
begin

text \<open>
  The methods of \<open>TcpModule\<close> as \<open>Tcp_Module\<close> has them, each run without interruption, and the actions
  of the threads in \<open>Tcp_Concurrency\<close>: a method takes the shared part of a world (socket events,
  mutexes, join counters and pending operations of a context) to where the actions of its call take
  it one after the other, and it ends the way the completion, the application's answer and the timer
  decide.
\<close>

section \<open>What threads share, in a world\<close>

fun pend_of :: "ctx_id \<Rightarrow> 'd handler \<Rightarrow> pend option" where
  "pend_of c (On_read_version md c' len) = (if c' = c then Some (Pd_conn (md_name md)) else None)"
| "pend_of c (On_read_head md c' len) = (if c' = c then Some (Pd_conn (md_name md)) else None)"
| "pend_of c (On_read_body md c' len) = (if c' = c then Some (Pd_conn (md_name md)) else None)"
| "pend_of c (On_write_resp md c') = (if c' = c then Some (Pd_conn (md_name md)) else None)"
| "pend_of c (On_connect md c' ip port) = (if c' = c then Some (Pd_exch (md_name md) Ex_connect) else None)"
| "pend_of c (On_write_req md c' req) = (if c' = c then Some (Pd_exch (md_name md) Ex_write) else None)"
| "pend_of c (On_recv_resp_head md c' len) = (if c' = c then Some (Pd_exch (md_name md) Ex_head) else None)"
| "pend_of c (On_recv_resp_body md c' len) = (if c' = c then Some (Pd_exch (md_name md) Ex_body) else None)"
| "pend_of c (On_forked md c' s) = (if c' = c then Some (Pd_resume (md_name md) s) else None)"
| "pend_of c (On_joined md c' s) = (if c' = c then Some (Pd_resume (md_name md) s) else None)"
| "pend_of c _ = None"

definition pends :: "ctx_id \<Rightarrow> 'd async_op list \<Rightarrow> pend multiset" where
  "pends c ops = mset (List.map_filter (\<lambda>a. pend_of c (op_handler a)) ops)"

lemma pends_simps [simp]:
  "pends c [] = {#}" "pends c (ops @ ops') = pends c ops + pends c ops'"
  "pends c (a # ops) = (case pend_of c (op_handler a) of None \<Rightarrow> {#} | Some p \<Rightarrow> {#p#}) + pends c ops"
  by (simp_all add: pends_def map_filter_def split: option.split)

definition shared_of :: "ctx_id \<Rightarrow> 'd world \<Rightarrow> tcp_shared" where
  "shared_of c w =
     \<lparr> sh_event = (\<lambda>n. case mdata w c n of Some (Some (Tcp_data d)) \<Rightarrow> td_socket_event d | _ \<Rightarrow> Socket_Event_None),
       sh_locked = (\<lambda>n. case mdata w c n of Some (Some (Tcp_data d)) \<Rightarrow> td_locked d | _ \<Rightarrow> False),
       sh_join = (\<lambda>n. case mdata w c n of Some (Some (Join_data d)) \<Rightarrow> d
                  | _ \<Rightarrow> \<lparr> jd_module_joined_num = 0, jd_failed_join = False \<rparr>),
       sh_ops = pends c (w_pending w) \<rparr>"

lemma mdata_tcp_state:
  assumes "w_contexts w c \<noteq> None"
  shows "mdata (tcp_state c md d x w) c n =
    (if n = md_name md then Some (Some (Tcp_data d)) else mdata w c n)"
  using assms ctx_state [of w c] by (fastforce simp: mdata_def sm_find_put)

lemma mdata_add_ops [simp]: "mdata (add_ops ops w) = mdata w"
  by (simp add: mdata_def add_ops_def fun_eq_iff)

lemma shared_state:
  assumes ctx: "w_contexts w c \<noteq> None" and w': "w_contexts w' = w_contexts w" "w_pending w' = w_pending w"
  shows "shared_of c (tcp_state c md d' x' (add_ops ops w')) =
    start_ops (pends c ops) (set_locked (md_name md) (td_locked d')
      (set_event (md_name md) (td_socket_event d') (shared_of c (tcp_state c md d x w))))"
proof -
  have "mdata w' = mdata w" using w'(1) by (simp add: mdata_def fun_eq_iff)
  then have m: "mdata (tcp_state c md d' x' (add_ops ops w')) c n =
      (if n = md_name md then Some (Some (Tcp_data d')) else mdata w c n)" for n
    using ctx w'(1) by (simp add: mdata_tcp_state)
  show ?thesis
    using w'(2) by (simp add: shared_of_def m mdata_tcp_state [OF ctx] start_ops_def set_locked_def set_event_def fun_eq_iff)
qed

lemma shared_fields_at:
  assumes "w_contexts w c \<noteq> None"
  shows "sh_event (shared_of c (tcp_state c md d x w)) (md_name md) = td_socket_event d"
    "sh_locked (shared_of c (tcp_state c md d x w)) (md_name md) = td_locked d"
    "sh_ops (shared_of c (tcp_state c md d x w)) = pends c (w_pending w)"
  by (simp_all add: shared_of_def mdata_tcp_state [OF assms])

section \<open>The actions of one call\<close>

text \<open>The stack of one thread, which acts alone.\<close>

inductive stack_act :: "'d fsm \<Rightarrow> frame list \<times> tcp_shared \<Rightarrow> frame list \<times> tcp_shared \<Rightarrow> bool" for f where
  "call_act f fr sh frs sh' \<Longrightarrow> stack_act f (fr # st, sh) (frs @ st, sh')"

abbreviation acts :: "'d fsm \<Rightarrow> frame list \<times> tcp_shared \<Rightarrow> frame list \<times> tcp_shared \<Rightarrow> bool" where
  "acts f \<equiv> (stack_act f)\<^sup>*\<^sup>*"

lemma one_act: "call_act f fr sh frs sh' \<Longrightarrow> acts f ([fr], sh) (frs, sh')"
  using stack_act.intros [of f fr sh frs sh' "[]"] by auto

lemma act_on: "acts f s ([fr], sh) \<Longrightarrow> call_act f fr sh frs sh' \<Longrightarrow> acts f s (frs, sh')"
  by (erule rtranclp_trans) (rule one_act)

lemma unlock_act: "call_act f (Fr_unlock n Mod_async) sh [] (set_locked n False sh)"
  using unlock [of f n Mod_async sh] by simp

lemma unlock_failed: "call_act f (Fr_unlock n Mod_Failed) sh [Fr_resume n Mod_Failed] (set_locked n False sh)"
  using unlock [of f n Mod_Failed sh] by (simp add: mod_state_defs)

lemmas shared_defs = set_locked_def set_event_def start_ops_def

lemma relocked: "\<not> sh_locked sh n \<Longrightarrow> set_locked n False (set_locked n True sh) = sh"
  by (cases sh) (auto simp: shared_defs fun_upd_idem_iff)

lemma entered:
  assumes "\<not> sh_locked sh n" and "sh_event sh n = Socket_Event_Opened"
  shows "acts f ([Fr_on_lock n k], sh) ([Fr_on_closed n k], set_event n Socket_Event_Closed (set_locked n True sh))"
  by (rule act_on [OF one_act [OF on_lock]]) (use assms in \<open>auto intro: on_open\<close>)

lemma missed_acts:
  assumes "\<not> sh_locked sh n" and "sh_event sh n \<noteq> Socket_Event_Opened"
  shows "acts f ([Fr_on_lock n k], sh) ([], sh)"
proof -
  have "acts f ([Fr_on_lock n k], sh) ([Fr_unlock n Mod_async], set_locked n True sh)"
    by (rule act_on [OF act_on [OF one_act [OF on_lock] on_called] on_missed]) (use assms in simp_all)
  from act_on [OF this unlock_act] relocked [OF assms(1)] show ?thesis by simp
qed

lemma next_acts:
  assumes "\<not> sh_locked sh n" and "sh_event sh n = Socket_Event_Opened" and "exch_result_of k ec ok b = Xr_next k'"
  shows "acts f ([Fr_on_lock n k], sh) ([], start_ops {#Pd_exch n k'#} sh)"
proof -
  note act_on [OF act_on [OF act_on [OF entered [OF assms(1,2)] on_next [OF assms(3)]] opened] unlock_act]
  moreover have "set_locked n False (set_event n Socket_Event_Opened (start_ops {#Pd_exch n k'#}
      (set_event n Socket_Event_Closed (set_locked n True sh)))) = start_ops {#Pd_exch n k'#} sh"
    using assms(1,2) by (cases sh) (auto simp: shared_defs fun_upd_idem_iff)
  ultimately show ?thesis by metis
qed

lemma ends_acts:
  assumes "\<not> sh_locked sh n" and "sh_event sh n = Socket_Event_Opened" and "exch_result_of k ec ok b = Xr_ends s"
  shows "acts f ([Fr_on_lock n k], sh)
    ([Fr_resume n s, Fr_unlock n Mod_async], set_event n Socket_Event_Closed (set_locked n True sh))"
  by (rule act_on [OF entered [OF assms(1,2)] on_ends [OF assms(3)]])

lemma gives_up_acts:
  assumes "\<not> sh_locked sh n" and "sh_event sh n = Socket_Event_Opened" and "exch_result_of k ec ok b = Xr_gives_up"
  shows "acts f ([Fr_on_lock n k], sh) ([], set_event n Socket_Event_Closed sh)"
proof -
  note act_on [OF act_on [OF entered [OF assms(1,2)] on_gives_up [OF assms(3)]] unlock_act]
  moreover have "set_locked n False (set_event n Socket_Event_Closed (set_locked n True sh)) =
      set_event n Socket_Event_Closed sh"
    using assms(1) by (cases sh) (auto simp: shared_defs fun_upd_idem_iff)
  ultimately show ?thesis by metis
qed

lemma timer_acts:
  assumes "\<not> sh_locked sh n"
  shows "acts f ([Fr_timer_lock n], sh) ([], sh)"
  using act_on [OF act_on [OF one_act [OF timer_lock [OF assms]] timer_body] unlock_act] relocked [OF assms] by simp

lemma run_acts:
  assumes "class_at f n = Some (TcpModule p h)" and "sint (tm_get_client_type_id h x) \<noteq> -1" and "\<not> sh_locked sh n"
  shows "acts f ([Fr_run n s], sh) ([Fr_resume n Mod_Failed], sh)"
    and "k = Ex_connect \<or> k = Ex_write \<Longrightarrow>
      acts f ([Fr_run n s], sh) ([], set_event n Socket_Event_Opened (start_ops {#Pd_exch n k#} sh))"
proof -
  have locked: "acts f ([Fr_run n s], sh) ([Fr_run_locked n], set_locked n True sh)"
    by (rule act_on [OF one_act [OF run_tcp [OF assms(1,2)]] run_lock [OF assms(3)]])
  from act_on [OF act_on [OF this run_fails] unlock_failed] relocked [OF assms(3)]
  show "acts f ([Fr_run n s], sh) ([Fr_resume n Mod_Failed], sh)" by simp
  assume k: "k = Ex_connect \<or> k = Ex_write"
  note act_on [OF act_on [OF act_on [OF locked run_starts [OF k]] opened] unlock_act]
  moreover have "set_locked n False (set_event n Socket_Event_Opened (start_ops {#Pd_exch n k#} (set_locked n True sh))) =
      set_event n Socket_Event_Opened (start_ops {#Pd_exch n k#} sh)"
    using assms(3) by (cases sh) (auto simp: shared_defs fun_upd_idem_iff)
  ultimately show "acts f ([Fr_run n s], sh) ([], set_event n Socket_Event_Opened (start_ops {#Pd_exch n k#} sh))"
    by metis
qed

section \<open>Handlers\<close>

text \<open>The socket handlers, by the operation that completed, and what the application says of the bytes.\<close>

fun exch_handler ::
  "asio_env \<Rightarrow> 'd module_run \<Rightarrow> nat \<Rightarrow> 'd module \<Rightarrow> nat \<Rightarrow> 'd tcp_hooks \<Rightarrow> ctx_id \<Rightarrow> string \<times> u16 \<Rightarrow> bytes \<times> u32 \<Rightarrow>
   exch_op \<Rightarrow> error_code \<Rightarrow> 'd world \<Rightarrow> 'd world res" where
  "exch_handler env mrun n md pool h c addr buf Ex_connect ec w = on_connect env mrun n md h c (fst addr) (snd addr) ec w"
| "exch_handler env mrun n md pool h c addr buf Ex_write ec w = on_write_req env mrun n md h c ec w"
| "exch_handler env mrun n md pool h c addr buf Ex_head ec w =
     on_recv_resp_head env mrun n md h c (fst buf) (snd buf) ec w"
| "exch_handler env mrun n md pool h c addr buf Ex_body ec w =
     on_recv_resp_body env mrun n md pool h c (fst buf) (snd buf) ec w"

fun app_answer :: "'d tcp_hooks \<Rightarrow> exch_op \<Rightarrow> bytes \<times> u32 \<Rightarrow> 'd \<Rightarrow> bool" where
  "app_answer h Ex_head buf x = fst (tm_on_read_head_impl h (fst buf) (snd buf) x)"
| "app_answer h Ex_body buf x = fst (tm_on_read_body_impl h (fst buf) (snd buf) x)"
| "app_answer h _ buf x = True"

text \<open>
  What a handler that found the event open does, by its result, from the world \<open>w\<close>: it returns, having
  started the next operation and nothing else and opened the event again; or it calls \<open>resume\<close> with the mutex
  held, the event closed and nothing started, and then gives the mutex back; or it returns with the
  event closed and nothing started. Each time the actions of its call lead to where it is.
\<close>

definition handler_does ::
  "'d fsm \<Rightarrow> 'd module_run \<Rightarrow> nat \<Rightarrow> 'd module \<Rightarrow> ctx_id \<Rightarrow> exch_op \<Rightarrow> 'd world \<Rightarrow> 'd world res \<Rightarrow> exch_result \<Rightarrow> bool" where
  "handler_does f mrun n md c k w res r =
     (case r of
        Xr_next k' \<Rightarrow> (\<exists>w'. res = Inr w' \<and>
          acts f ([Fr_on_lock (md_name md) k], shared_of c w) ([], shared_of c w') \<and>
          shared_of c w' = start_ops {#Pd_exch (md_name md) k'#} (shared_of c w))
      | Xr_ends s \<Rightarrow> (\<exists>w'. res = rbind (resume mrun n md s c w') (tcp_unlock md c) \<and>
          acts f ([Fr_on_lock (md_name md) k], shared_of c w)
            ([Fr_resume (md_name md) s, Fr_unlock (md_name md) Mod_async], shared_of c w') \<and>
          shared_of c w' = set_event (md_name md) Socket_Event_Closed (set_locked (md_name md) True (shared_of c w)))
      | Xr_gives_up \<Rightarrow> (\<exists>w'. res = Inr w' \<and>
          acts f ([Fr_on_lock (md_name md) k], shared_of c w) ([], shared_of c w') \<and>
          shared_of c w' = set_event (md_name md) Socket_Event_Closed (shared_of c w)))"

text \<open>The completion of an operation whose event is open, the mutex being free.\<close>

definition completes :: "ctx_id \<Rightarrow> tcp_data \<Rightarrow> 'd world \<Rightarrow> bool" where
  "completes c d w \<longleftrightarrow>
     w_contexts w c \<noteq> None \<and> td_socket_event d = Socket_Event_Opened \<and> \<not> td_locked d \<and> td_client d \<noteq> None"

lemma completes_shared:
  assumes "completes c d w"
  shows "\<not> sh_locked (shared_of c (tcp_state c md d x w)) (md_name md)"
    "sh_event (shared_of c (tcp_state c md d x w)) (md_name md) = Socket_Event_Opened"
  using assms by (simp_all add: completes_def shared_fields_at)

lemma set_same:
  "\<not> sh_locked sh n \<Longrightarrow> set_locked n False sh = sh" "sh_event sh n = e \<Longrightarrow> set_event n e sh = sh"
  "set_locked n False (set_event n e sh) = set_event n e (set_locked n False sh)"
  "set_locked n True (set_event n e sh) = set_event n e (set_locked n True sh)" "start_ops {#} sh = sh"
  by (cases sh; auto simp: shared_defs fun_upd_idem_iff)+

lemma handler_next:
  assumes c: "completes c d w" and r: "exch_result_of k ec ok b = Xr_next k'"
    and res: "res = Inr (tcp_state c md d x' (add_ops ops w))" and ops: "pends c ops = {#Pd_exch (md_name md) k'#}"
  shows "handler_does f mrun n md c k (tcp_state c md d x w) res (exch_result_of k ec ok b)"
proof -
  have "w_contexts w c \<noteq> None" using c by (simp add: completes_def)
  from shared_state [OF this refl refl, of md d x' ops d x] ops c completes_shared [OF c, of md x]
  have "shared_of c (tcp_state c md d x' (add_ops ops w)) =
      start_ops {#Pd_exch (md_name md) k'#} (shared_of c (tcp_state c md d x w))"
    by (simp add: set_same completes_def)
  with next_acts [OF completes_shared [OF c] r] res r show ?thesis by (auto simp: handler_does_def)
qed

lemma handler_ends:
  assumes c: "completes c d w" and r: "exch_result_of k ec ok b = Xr_ends s"
    and res: "res = rbind (resume mrun n md s c (tcp_state c md d' x' w')) (tcp_unlock md c)"
    and d': "td_locked d'" "td_socket_event d' = Socket_Event_Closed"
    and w': "w_contexts w' = w_contexts w" "w_pending w' = w_pending w"
  shows "handler_does f mrun n md c k (tcp_state c md d x w) res (exch_result_of k ec ok b)"
proof -
  have "w_contexts w c \<noteq> None" using c by (simp add: completes_def)
  from shared_state [OF this w', of md d' x' "[]" d x] d'
  have "shared_of c (tcp_state c md d' x' w') =
      set_event (md_name md) Socket_Event_Closed (set_locked (md_name md) True (shared_of c (tcp_state c md d x w)))"
    by (simp add: set_same add_ops_def)
  with ends_acts [OF completes_shared [OF c] r] res r show ?thesis
    unfolding handler_does_def r by (auto intro!: exI [of _ "tcp_state c md d' x' w'"])
qed

lemma handler_gives_up:
  assumes c: "completes c d w" and r: "exch_result_of k ec ok b = Xr_gives_up"
    and res: "res = Inr (tcp_state c md (d\<lparr>td_socket_event := Socket_Event_Closed\<rparr>) x' w)"
  shows "handler_does f mrun n md c k (tcp_state c md d x w) res (exch_result_of k ec ok b)"
proof -
  have "w_contexts w c \<noteq> None" using c by (simp add: completes_def)
  from shared_state [OF this refl refl, of md "d\<lparr>td_socket_event := Socket_Event_Closed\<rparr>" x' "[]" d x]
    c completes_shared [OF c, of md x]
  have "shared_of c (tcp_state c md (d\<lparr>td_socket_event := Socket_Event_Closed\<rparr>) x' w) =
      set_event (md_name md) Socket_Event_Closed (shared_of c (tcp_state c md d x w))"
    by (simp add: set_same add_ops_def completes_def)
  with gives_up_acts [OF completes_shared [OF c] r] res r show ?thesis by (auto simp: handler_does_def)
qed

lemma cancel_fails:
  "w_contexts w c \<noteq> None \<Longrightarrow> \<not> cancels env c md \<Longrightarrow>
     cancel_time_out_timer env md c (tcp_state c md d x w) = Inr (False, tcp_state c md d x w)"
  by (simp add: cancel_time_out_timer_def tcp_lock_state del: rbind_eq_Inr)

lemma unlocked_record:
  "\<not> td_locked d \<Longrightarrow> d\<lparr>td_socket_event := e, td_locked := False\<rparr> = d\<lparr>td_socket_event := e\<rparr>"
  by (cases d) simp

lemma opened_record:
  "\<not> td_locked d \<Longrightarrow> td_socket_event d = Socket_Event_Opened \<Longrightarrow>
     d\<lparr>td_socket_event := Socket_Event_Opened, td_locked := False\<rparr> = d"
  by (cases d) simp

lemma free_record: "\<not> td_locked d \<Longrightarrow> d\<lparr>td_locked := False\<rparr> = d"
  by (cases d) simp

lemma failed_does:
  assumes c: "completes c d w" and r: "exch_result_of k ec ok (cancels env c md) = failed_result ec (cancels env c md)"
    and failed: "on_failed (tcp_state c md (d\<lparr>td_locked := True, td_socket_event := Socket_Event_Closed\<rparr>) x1 w) =
      Inr (tcp_state c md (d\<lparr>td_locked := True, td_socket_event := Socket_Event_Closed\<rparr>) x' w')"
    and w': "w_contexts w' = w_contexts w" "w_pending w' = w_pending w"
  shows "handler_does f mrun n md c k (tcp_state c md d x w)
    (rbind (tcp_failed env mrun n md on_failed c ec
       (tcp_state c md (d\<lparr>td_locked := True, td_socket_event := Socket_Event_Closed\<rparr>) x1 w)) (tcp_unlock md c))
    (exch_result_of k ec ok (cancels env c md))"
proof -
  let ?d = "d\<lparr>td_locked := True, td_socket_event := Socket_Event_Closed\<rparr>"
  have ctx: "w_contexts w c \<noteq> None" and d: "\<not> td_locked d" using c by (simp_all add: completes_def)
  consider "ec = operation_aborted" | "ec \<noteq> operation_aborted" "cancels env c md"
    | "ec \<noteq> operation_aborted" "\<not> cancels env c md" by blast
  then show ?thesis
  proof cases
    case 1
    then show ?thesis using r
      by (intro handler_ends [OF c, of _ _ _ _ Mod_Timeout _ _ _ _ ?d x1 w]) (simp_all add: tcp_failed_def failed_result_def)
  next
    case 2
    then show ?thesis using r w' ctx
      by (intro handler_ends [OF c, of _ _ _ _ Mod_Failed _ _ _ _ ?d x' w'])
        (simp_all add: tcp_failed_def cancel_state failed failed_result_def del: rbind_eq_Inr)
  next
    case 3
    then show ?thesis using r ctx unlocked_record [OF d]
      by (intro handler_gives_up [OF c, of _ _ _ _ _ _ x1])
        (simp_all add: tcp_failed_def cancel_fails failed_result_def tcp_lock_state del: rbind_eq_Inr)
  qed
qed

lemma tcp_state_clients:
  "(tcp_state c md d x w)\<lparr>w_clients := H\<rparr> = tcp_state c md d x (w\<lparr>w_clients := H\<rparr>)"
  by (simp add: tcp_state_def)

lemma connect_does:
  assumes c: "completes c d w"
  shows "handler_does f mrun n md c Ex_connect (tcp_state c md d x w)
    (on_connect env mrun n md h c ip port ec (tcp_state c md d x w)) (exch_result_of Ex_connect ec ok (cancels env c md))"
proof -
  obtain i where ctx: "w_contexts w c \<noteq> None"
    and d: "td_socket_event d = Socket_Event_Opened" "\<not> td_locked d" "td_client d = Some i"
    using c by (auto simp: completes_def)
  show ?thesis
  proof (cases "ec_set ec")
    case True
    with failed_does [OF c, of Ex_connect ec ok env md "app_do c (tm_on_connect_failed h ip port)" x
        "tm_on_connect_failed h ip port x" w f mrun n x]
    show ?thesis by (simp add: on_connect_def tcp_event_state [OF ctx d(1,2)] app_do_state [OF ctx])
  next
    case False
    show ?thesis
    proof (cases "cancels env c md")
      case True
      obtain req x' where req: "tm_get_request h x = (req, x')" by fastforce
      show ?thesis
        using False True d ctx send_state [OF ctx req, of "d\<lparr>td_locked := True, td_socket_event := Socket_Event_Closed\<rparr>" i md]
        by (intro handler_next [OF c, of _ _ _ _ Ex_write _ _ x'
              "[Async_wait (timer_of c md) (tm_get_time_out_ms h) (On_handle_time_out md c),
                Async_write (Client_socket i) req (On_write_req md c req)]"])
          (simp_all add: on_connect_def tcp_event_state cancel_state tcp_lock_state opened_record del: rbind_eq_Inr)
    next
      case no: False
      with False d ctx show ?thesis
        by (intro handler_gives_up [OF c, of _ _ _ _ _ _ x])
          (simp_all add: on_connect_def tcp_event_state cancel_fails tcp_lock_state unlocked_record del: rbind_eq_Inr)
    qed
  qed
qed

lemma write_does:
  assumes c: "completes c d w"
  shows "handler_does f mrun n md c Ex_write (tcp_state c md d x w)
    (on_write_req env mrun n md h c ec (tcp_state c md d x w)) (exch_result_of Ex_write ec ok (cancels env c md))"
proof -
  obtain i where ctx: "w_contexts w c \<noteq> None"
    and d: "td_socket_event d = Socket_Event_Opened" "\<not> td_locked d" "td_client d = Some i"
    using c by (auto simp: completes_def)
  show ?thesis
  proof (cases "ec_set ec")
    case True
    with failed_does [OF c, of Ex_write ec ok env md "app_do c (tm_on_send_req_failed h)" x
        "tm_on_send_req_failed h x" w f mrun n x]
    show ?thesis by (simp add: on_write_req_def tcp_event_state [OF ctx d(1,2)] app_do_state [OF ctx])
  next
    case False
    then show ?thesis using d ctx
      by (intro handler_next [OF c, of _ _ _ _ Ex_head _ _ x
            "[Async_read (Client_socket i) (tm_get_resp_head_len h) (On_recv_resp_head md c (tm_get_resp_head_len h))]"])
        (simp_all add: on_write_req_def tcp_event_state tcp_lock_state tcp_states Let_def start_op_add opened_record
          del: rbind_eq_Inr)
  qed
qed

lemma head_does:
  assumes c: "completes c d w"
  shows "handler_does f mrun n md c Ex_head (tcp_state c md d x w)
    (on_recv_resp_head env mrun n md h c head len ec (tcp_state c md d x w))
    (exch_result_of Ex_head ec (fst (tm_on_read_head_impl h head len x)) (cancels env c md))"
proof -
  let ?d = "d\<lparr>td_locked := True, td_socket_event := Socket_Event_Closed\<rparr>"
  let ?failed = "\<lambda>w. rbind (tcp_close_client md c w) (\<lambda>w. app_do c (tm_on_read_head_failed h) w)"
  let ?ok = "fst (tm_on_read_head_impl h head len x)"
  obtain i where ctx: "w_contexts w c \<noteq> None"
    and d: "td_socket_event d = Socket_Event_Opened" "\<not> td_locked d" "td_client d = Some i"
    using c by (auto simp: completes_def)
  have failed: "?failed (tcp_state c md ?d x' w) =
      Inr (tcp_state c md ?d (tm_on_read_head_failed h x') (w\<lparr>w_clients := (w_clients w)(i := close (w_clients w i))\<rparr>))" for x'
    using ctx d(3) by (simp add: tcp_close_client_def tcp_lock_state tcp_state_clients app_do_state del: rbind_eq_Inr)
  show ?thesis
  proof (cases "ec_set ec \<or> \<not> ?ok")
    case True
    have "on_recv_resp_head env mrun n md h c head len ec (tcp_state c md d x w) =
        rbind (tcp_failed env mrun n md ?failed c ec
          (tcp_state c md ?d (if ec_set ec then x else snd (tm_on_read_head_impl h head len x)) w)) (tcp_unlock md c)"
      using True unfolding on_recv_resp_head_def tcp_event_state [OF ctx d(1,2)]
      by (auto simp: app_call_state [OF ctx] simp del: rbind_eq_Inr)
    moreover have "exch_result_of Ex_head ec ?ok (cancels env c md) = failed_result ec (cancels env c md)"
      using True by simp
    ultimately show ?thesis using failed_does [OF c, of Ex_head ec ?ok env md ?failed, OF _ failed] by simp
  next
    case False
    then obtain x' where "tm_on_read_head_impl h head len x = (True, x')" by (metis prod.collapse)
    with False d ctx show ?thesis
      by (intro handler_next [OF c, of _ _ _ _ Ex_body _ _ x'
            "[Async_read (Client_socket i) (tm_get_resp_body_len h x') (On_recv_resp_body md c (tm_get_resp_body_len h x'))]"])
        (simp_all add: on_recv_resp_head_def tcp_event_state tcp_lock_state tcp_states Let_def start_op_add opened_record
          del: rbind_eq_Inr)
  qed
qed

lemma body_does:
  assumes c: "completes c d w"
  shows "handler_does f mrun n md c Ex_body (tcp_state c md d x w)
    (on_recv_resp_body env mrun n md pool h c body len ec (tcp_state c md d x w))
    (exch_result_of Ex_body ec (fst (tm_on_read_body_impl h body len x)) (cancels env c md))"
proof -
  obtain i where ctx: "w_contexts w c \<noteq> None"
    and d: "td_socket_event d = Socket_Event_Opened" "\<not> td_locked d" "td_client d = Some i"
    using c by (auto simp: completes_def)
  show ?thesis
  proof (cases "ec_set ec")
    case True
    with failed_does [OF c, of Ex_body ec "fst (tm_on_read_body_impl h body len x)" env md
        "app_do c (tm_on_read_body_failed h)" x "tm_on_read_body_failed h x" w f mrun n x]
    show ?thesis by (simp add: on_recv_resp_body_def tcp_event_state [OF ctx d(1,2)] app_do_state [OF ctx])
  next
    case False
    show ?thesis
    proof (cases "cancels env c md")
      case True
      obtain p hp where rec: "recollect env (td_client d) (w_pools w pool) (w_clients w) = (p, hp)" by fastforce
      obtain ok x' where app: "tm_on_read_body_impl h body len x = (ok, x')" by fastforce
      show ?thesis
        using False True d ctx rec app
        by (intro handler_ends [OF c, of _ _ _ _ "if ok then Mod_Succeed else Mod_Failed" _ _ _ _
              "d\<lparr>td_locked := True, td_socket_event := Socket_Event_Closed, td_client := None\<rparr>"
              x' "w\<lparr>w_pools := (w_pools w)(pool := p), w_clients := hp\<rparr>"])
          (simp_all add: on_recv_resp_body_def tcp_event_state cancel_state tcp_give_client_def tcp_states del: rbind_eq_Inr)
    next
      case no: False
      with False d ctx show ?thesis
        by (intro handler_gives_up [OF c, of _ _ _ _ _ _ x])
          (simp_all add: on_recv_resp_body_def tcp_event_state cancel_fails tcp_lock_state unlocked_record del: rbind_eq_Inr)
    qed
  qed
qed

section \<open>\<open>run\<close> and the time-outs\<close>

text \<open>
  Which socket operation \<open>TcpModule::run\<close> starts: none when the application gives no client type, a
  write when the pool has a client, a connect when there is an address, it can be parsed and a socket
  opened, and none otherwise.
\<close>

definition tcp_run_op :: "asio_env \<Rightarrow> nat \<Rightarrow> 'd tcp_hooks \<Rightarrow> 'd \<Rightarrow> 'd world \<Rightarrow> exch_op option" where
  "tcp_run_op env pool h x w =
     (let peer = sint (tm_get_client_type_id h x) in
      if peer = -1 then None
      else (case fst (get_client env peer (w_pools w pool) (w_clients w)) of
              Some i \<Rightarrow> Some Ex_write
            | None \<Rightarrow>
                (case fst (tm_get_server_ip_port h x) of
                   None \<Rightarrow> None
                 | Some (ip, port) \<Rightarrow>
                     if ev_address_parses env ip \<and> ev_socket_opens env then Some Ex_connect else None)))"

text \<open>
  What \<open>run\<close> does when it starts that operation: it opens the event and returns \<open>Mod_async\<close>, or it
  starts none, leaves the event and returns \<open>Mod_Failed\<close>. Either way the mutex is free again.
\<close>

definition run_does ::
  "'d fsm \<Rightarrow> 'd module \<Rightarrow> ctx_id \<Rightarrow> ModState \<Rightarrow> 'd world \<Rightarrow> (ModState \<times> 'd world) res \<Rightarrow> exch_op option \<Rightarrow> bool" where
  "run_does f md c s w res op =
     (case op of
        None \<Rightarrow> (\<exists>w'. res = Inr (Mod_Failed, w') \<and>
          acts f ([Fr_run (md_name md) s], shared_of c w) ([Fr_resume (md_name md) Mod_Failed], shared_of c w') \<and>
          shared_of c w' = shared_of c w)
      | Some k \<Rightarrow> (\<exists>w'. res = Inr (Mod_async, w') \<and>
          acts f ([Fr_run (md_name md) s], shared_of c w) ([], shared_of c w') \<and>
          shared_of c w' =
            set_event (md_name md) Socket_Event_Opened (start_ops {#Pd_exch (md_name md) k#} (shared_of c w))))"

lemma run_does_none:
  assumes ctx: "w_contexts w c \<noteq> None" and d: "\<not> td_locked d"
    and acts: "acts f ([Fr_run (md_name md) s], shared_of c (tcp_state c md d x w))
      ([Fr_resume (md_name md) Mod_Failed], shared_of c (tcp_state c md d x w))"
    and res: "res = Inr (Mod_Failed, tcp_state c md d' x' (add_ops ops w'))" and ops: "pends c ops = {#}"
    and d': "\<not> td_locked d'" "td_socket_event d' = td_socket_event d"
    and w': "w_contexts w' = w_contexts w" "w_pending w' = w_pending w"
  shows "run_does f md c s (tcp_state c md d x w) res None"
proof -
  from shared_state [OF ctx w', of md d' x' ops d x] shared_fields_at [OF ctx, of md d x] d d' ops
  have "shared_of c (tcp_state c md d' x' (add_ops ops w')) = shared_of c (tcp_state c md d x w)"
    by (simp add: set_same)
  with acts res show ?thesis by (auto simp: run_does_def)
qed

lemma run_does_some:
  assumes ctx: "w_contexts w c \<noteq> None" and d: "\<not> td_locked d"
    and n: "class_at f (md_name md) = Some (TcpModule pool h)" "sint (tm_get_client_type_id h x) \<noteq> -1"
    and k: "k = Ex_connect \<or> k = Ex_write"
    and res: "res = Inr (Mod_async, tcp_state c md d' x' (add_ops ops w'))" and ops: "pends c ops = {#Pd_exch (md_name md) k#}"
    and d': "\<not> td_locked d'" "td_socket_event d' = Socket_Event_Opened"
    and w': "w_contexts w' = w_contexts w" "w_pending w' = w_pending w"
  shows "run_does f md c s (tcp_state c md d x w) res (Some k)"
proof -
  let ?sh = "shared_of c (tcp_state c md d x w)"
  have free: "\<not> sh_locked ?sh (md_name md)" using shared_fields_at [OF ctx] d by simp
  have "start_ops P (set_event (md_name md) e sh) = set_event (md_name md) e (start_ops P sh)" for P e sh
    by (simp add: shared_defs)
  with shared_state [OF ctx w', of md d' x' ops d x] free d' ops
  have "shared_of c (tcp_state c md d' x' (add_ops ops w')) =
      set_event (md_name md) Socket_Event_Opened (start_ops {#Pd_exch (md_name md) k#} ?sh)"
    by (simp add: set_same)
  with run_acts(2) [OF n free k, of s] res show ?thesis by (auto simp: run_does_def)
qed

lemma add_no_ops: "add_ops [] w = w"
  by (simp add: add_ops_def)

lemma tcp_run_does:
  assumes ctx: "w_contexts w c \<noteq> None" and d: "\<not> td_locked d"
    and cls: "class_at f (md_name md) = Some (TcpModule pool h)"
  shows "run_does f md c s (tcp_state c md d x w) (tcp_run env md pool h c s (tcp_state c md d x w))
    (tcp_run_op env pool h x w)"
proof -
  define peer where "peer = sint (tm_get_client_type_id h x)"
  obtain cl p hp where pool: "get_client env peer (w_pools w pool) (w_clients w) = (cl, p, hp)" by (metis prod_cases3)
  define w1 where "w1 = w\<lparr>w_pools := (w_pools w)(pool := p), w_clients := hp\<rparr>"
  define d1 where "d1 = d\<lparr>td_locked := True, td_client := cl\<rparr>"
  have w1: "w_contexts w1 c \<noteq> None" "w_contexts w1 = w_contexts w" "w_pending w1 = w_pending w"
    using ctx by (simp_all add: w1_def)
  have take: "tcp_take_client env md pool c peer (tcp_state c md (d\<lparr>td_locked := True\<rparr>) x w) =
      Inr (cl, tcp_state c md d1 x w1)"
    using pool ctx by (simp add: tcp_take_client_def Let_def tcp_states w1_def d1_def)
  have free: "\<not> sh_locked (shared_of c (tcp_state c md d x w)) (md_name md)" using shared_fields_at [OF ctx] d by simp
  note op = tcp_run_op_def [of env pool h x w, folded peer_def, unfolded Let_def pool fst_conv]
  consider (type) "peer = -1" | (pooled) i where "peer \<noteq> -1" "cl = Some i"
    | (none) x' where "peer \<noteq> -1" "cl = None" "tm_get_server_ip_port h x = (None, x')"
    | (found) ip port x' where "peer \<noteq> -1" "cl = None" "tm_get_server_ip_port h x = (Some (ip, port), x')"
    by (cases cl; cases "tm_get_server_ip_port h x"; cases "fst (tm_get_server_ip_port h x)") auto
  then show ?thesis
  proof cases
    case type
    then have "tcp_run env md pool h c s (tcp_state c md d x w) = Inr (Mod_Failed, tcp_state c md d x (add_ops [] w))"
      by (simp add: tcp_run_def app_get_state [OF ctx] peer_def add_no_ops)
    moreover have "acts f ([Fr_run (md_name md) s], sh) ([Fr_resume (md_name md) Mod_Failed], sh)" for sh
      by (rule one_act [OF run_no_type [OF cls]]) (use type in \<open>simp add: peer_def\<close>)
    ultimately show ?thesis using type d by (auto simp: op intro!: run_does_none [OF ctx d, where ops = "[]" and w' = w])
  next
    case (pooled i)
    obtain req x' where req: "tm_get_request h x = (req, x')" by fastforce
    have "td_client d1 = Some i" using pooled by (simp add: d1_def)
    from send_state [OF w1(1) req this, of md] pooled
    have "tcp_run env md pool h c s (tcp_state c md d x w) =
        Inr (Mod_async, tcp_state c md (d1\<lparr>td_socket_event := Socket_Event_Opened, td_locked := False\<rparr>) x'
          (add_ops [Async_wait (timer_of c md) (tm_get_time_out_ms h) (On_handle_time_out md c),
            Async_write (Client_socket i) req (On_write_req md c req)] w1))"
      using d ctx w1(1) take
      by (simp add: tcp_run_def app_get_state with_tcp_lock_def tcp_lock_state peer_def [symmetric] del: rbind_eq_Inr)
    from run_does_some [OF ctx d cls _ _ this] pooled w1 show ?thesis by (simp add: op peer_def)
  next
    case (none x')
    then have "tcp_run env md pool h c s (tcp_state c md d x w) =
        Inr (Mod_Failed, tcp_state c md (d1\<lparr>td_locked := False\<rparr>) x' (add_ops [] w1))"
      using d ctx w1(1) take
      by (simp add: tcp_run_def app_get_state with_tcp_lock_def tcp_lock_state peer_def [symmetric] add_no_ops
          app_call_state del: rbind_eq_Inr)
    from run_does_none [OF ctx d run_acts(1) [OF cls _ free] this] none w1 show ?thesis by (simp add: op peer_def d1_def)
  next
    case (found ip port x')
    then have run: "tcp_run env md pool h c s (tcp_state c md d x w) =
        rbind (tcp_connect env md h c peer ip port (tcp_state c md d1 x' w1)) (\<lambda>(r, w).
          rbind (tcp_unlock md c w) (\<lambda>w. Inr (r, w)))"
      using d ctx w1(1) take
      by (simp add: tcp_run_def app_get_state with_tcp_lock_def tcp_lock_state peer_def [symmetric]
          app_call_state del: rbind_eq_Inr)
    let ?t = "Async_wait (timer_of c md) (tm_get_connect_time_out_ms h) (On_handle_connect_time_out md c ip port)"
    note no = run_does_none [OF ctx d run_acts(1) [OF cls _ free]]
    consider "\<not> ev_address_parses env ip" | "ev_address_parses env ip" "\<not> ev_socket_opens env"
      | "ev_address_parses env ip" "ev_socket_opens env" by blast
    then show ?thesis
    proof cases
      case 1
      then have "tcp_run env md pool h c s (tcp_state c md d x w) =
          Inr (Mod_Failed, tcp_state c md (d1\<lparr>td_locked := False\<rparr>) x' (add_ops [] w1))"
        unfolding run using w1(1) by (simp add: tcp_connect_def tcp_lock_state add_no_ops)
      from no [OF _ this] found 1 w1 show ?thesis by (simp add: op peer_def d1_def)
    next
      case 2
      then have "tcp_run env md pool h c s (tcp_state c md d x w) =
          Inr (Mod_Failed, tcp_state c md (d1\<lparr>td_locked := False\<rparr>) x' (add_ops [?t] w1))"
        unfolding run using w1(1) by (simp add: tcp_connect_def tcp_lock_state start_op_add del: rbind_eq_Inr)
      from no [OF _ this] found 2 w1 show ?thesis by (simp add: op peer_def d1_def)
    next
      case 3
      let ?i = "w_next_client w1"
      have "tcp_run env md pool h c s (tcp_state c md d x w) =
          Inr (Mod_async, tcp_state c md
            (d1\<lparr>td_client := Some ?i, td_socket_event := Socket_Event_Opened, td_locked := False\<rparr>) x'
            (add_ops [?t, Async_connect (Client_socket ?i) ip port (On_connect md c ip port)]
              (w1\<lparr>w_clients := (w_clients w1)(?i := tcp_client_new env peer), w_next_client := Suc ?i\<rparr>)))"
        unfolding run using w1(1) 3
        by (simp add: tcp_connect_def tcp_lock_state tcp_states client_new_def Let_def start_op_add del: rbind_eq_Inr)
      from run_does_some [OF ctx d cls _ _ this] found 3 w1 show ?thesis by (simp add: op peer_def)
    qed
  qed
qed

text \<open>The handlers of the time-outs take the mutex and give it back.\<close>

definition timer_does :: "'d fsm \<Rightarrow> 'd module \<Rightarrow> ctx_id \<Rightarrow> 'd world \<Rightarrow> 'd world res \<Rightarrow> bool" where
  "timer_does f md c w res \<longleftrightarrow>
     (\<exists>w'. res = Inr w' \<and> acts f ([Fr_timer_lock (md_name md)], shared_of c w) ([], shared_of c w') \<and>
        shared_of c w' = shared_of c w)"

lemma cancel_socket_state: "cancel_socket so (tcp_state c md d x w) = tcp_state c md d x (cancel_socket so w)"
  by (simp add: cancel_socket_def tcp_state_def)

lemma time_out_does:
  assumes ctx: "w_contexts w c \<noteq> None" and d: "\<not> td_locked d"
  shows "timer_does f md c (tcp_state c md d x w) (in_tcp_lock md c (\<lambda>w. if ec_set ec then Inr w
    else rbind (tcp_cancel_client md c w) (\<lambda>w. app_do c g w)) (tcp_state c md d x w))"
proof -
  let ?w = "case td_client d of None \<Rightarrow> w | Some i \<Rightarrow> cancel_socket (Client_socket i) w"
  let ?v = "if ec_set ec then tcp_state c md d x w else tcp_state c md d (g x) ?w"
  have w': "w_contexts ?w = w_contexts w" "w_pending ?w = w_pending w" by (simp_all split: option.split)
  have "in_tcp_lock md c (\<lambda>w. if ec_set ec then Inr w
      else rbind (tcp_cancel_client md c w) (\<lambda>w. app_do c g w)) (tcp_state c md d x w) = Inr ?v"
    using ctx d by (cases "td_client d") (simp_all add: in_tcp_lock_eq tcp_lock_state tcp_cancel_client_def tcp_get_state
        app_do_state cancel_socket_state free_record del: rbind_eq_Inr)
  moreover have "shared_of c ?v = shared_of c (tcp_state c md d x w)"
    using shared_state [OF ctx w', of md d "g x" "[]" d x] shared_fields_at [OF ctx, of md d x] d
    by (simp add: set_same add_no_ops)
  moreover have "\<not> sh_locked (shared_of c (tcp_state c md d x w)) (md_name md)" using shared_fields_at [OF ctx] d by simp
  note timer_acts [OF this, of f]
  ultimately show ?thesis unfolding timer_does_def by metis
qed

section \<open>Methods and actions\<close>

lemma missed_does:
  assumes "w_contexts w c \<noteq> None" and "\<not> td_locked d" and "td_socket_event d \<noteq> Socket_Event_Opened"
  shows "exch_handler env mrun n md pool h c addr buf k ec (tcp_state c md d x w) = Inr (tcp_state c md d x w)"
    and "acts f ([Fr_on_lock (md_name md) k], shared_of c (tcp_state c md d x w)) ([], shared_of c (tcp_state c md d x w))"
proof -
  have "tcp_event md c body (tcp_state c md d x w) = Inr (tcp_state c md d x w)" for body
    using assms by (cases d) (simp add: tcp_event_def in_tcp_lock_eq tcp_lock_state tcp_states)
  then show "exch_handler env mrun n md pool h c addr buf k ec (tcp_state c md d x w) = Inr (tcp_state c md d x w)"
    by (cases k) (simp_all add: on_connect_def on_write_req_def on_recv_resp_head_def on_recv_resp_body_def)
  show "acts f ([Fr_on_lock (md_name md) k], shared_of c (tcp_state c md d x w)) ([], shared_of c (tcp_state c md d x w))"
    using assms by (intro missed_acts) (simp_all add: shared_fields_at)
qed

text \<open>
  C11: The actions of the threads are those of the methods. Take a \<open>TcpModule\<close> of the machine, called alone
  with its mutex free, and let \<open>shared_of\<close> be the socket events, mutexes, join counters and pending
  operations of the context. A socket handler whose event is not open returns and changes nothing. When
  the event is open and the module has its client, the handler ends as the operation that completed, its
  error code, the application's answer and the cancelling of the timer say (\<open>exch_result_of\<close>): with
  \<open>operation_aborted\<close> it resumes in \<open>Mod_Timeout\<close>; with another error, or a head the application refuses,
  in \<open>Mod_Failed\<close>; after a connect, a write or a head without error it starts the next operation of the
  exchange and opens the event again; after the body it resumes in the state the application decides; and
  it gives up exactly where it has to cancel the timer and cannot. It resumes with the mutex held and the
  event closed. \<open>run\<close> starts a write when the pool has a client, else a connect when the application gives
  an address that can be parsed and a socket opens, and opens the event; it fails in all other cases. The
  handlers of the time-outs leave all of this alone. In every case the actions of the call in the thread
  model lead from the shared state before to the one after, with the same calls left on the stack.
\<close>

theorem methods_do_actions:
  assumes "w_contexts w c \<noteq> None" and "\<not> td_locked d" and "class_at f (md_name md) = Some (TcpModule pool h)"
  shows "(td_socket_event d \<noteq> Socket_Event_Opened \<longrightarrow>
       exch_handler env mrun n md pool h c addr buf k ec (tcp_state c md d x w) = Inr (tcp_state c md d x w) \<and>
       acts f ([Fr_on_lock (md_name md) k], shared_of c (tcp_state c md d x w))
         ([], shared_of c (tcp_state c md d x w))) \<and>
    (td_socket_event d = Socket_Event_Opened \<and> td_client d \<noteq> None \<longrightarrow>
       handler_does f mrun n md c k (tcp_state c md d x w)
         (exch_handler env mrun n md pool h c addr buf k ec (tcp_state c md d x w))
         (exch_result_of k ec (app_answer h k buf x) (cancels env c md))) \<and>
    run_does f md c s (tcp_state c md d x w) (tcp_run env md pool h c s (tcp_state c md d x w))
      (tcp_run_op env pool h x w) \<and>
    timer_does f md c (tcp_state c md d x w)
      (on_handle_connect_time_out md h c (fst addr) (snd addr) ec (tcp_state c md d x w)) \<and>
    timer_does f md c (tcp_state c md d x w) (on_handle_time_out md h c ec (tcp_state c md d x w))"
proof (intro conjI impI)
  assume "td_socket_event d = Socket_Event_Opened \<and> td_client d \<noteq> None"
  with assms have c: "completes c d w" by (simp add: completes_def)
  show "handler_does f mrun n md c k (tcp_state c md d x w)
      (exch_handler env mrun n md pool h c addr buf k ec (tcp_state c md d x w))
      (exch_result_of k ec (app_answer h k buf x) (cancels env c md))"
    by (cases k) (simp_all only: exch_handler.simps app_answer.simps
        connect_does [OF c] write_does [OF c] head_does [OF c] body_does [OF c])
next
  show "run_does f md c s (tcp_state c md d x w) (tcp_run env md pool h c s (tcp_state c md d x w))
      (tcp_run_op env pool h x w)"
    by (rule tcp_run_does [OF assms])
qed (assumption | rule missed_does [OF assms(1,2)] |
    simp only: on_handle_connect_time_out_def on_handle_time_out_def time_out_does [OF assms(1,2)])+

end
