(* ===== verification/Sample_Threads.thy ===== *)
theory Sample_Threads
  imports Sample_Served Tcp_Actions
begin

text \<open>
  Two threads serve the sample server of \<open>Sample_Machine\<close>: one has started to connect to the
  back-end and not set the socket event yet, while the connection is there and the other thread
  waits for the mutex in \<open>on_connect\<close>. The theorems of \<open>Tcp_Concurrency\<close> and
  \<open>Tcp_Actions\<close> are applied there.
\<close>

definition sh_idle :: tcp_shared where
  "sh_idle = \<lparr> sh_event = (\<lambda>n. Socket_Event_None), sh_locked = (\<lambda>n. False),
     sh_join = (\<lambda>n. \<lparr> jd_module_joined_num = 0, jd_failed_join = False \<rparr>), sh_ops = {#} \<rparr>"

lemma idle_ops: "sh_ops sh_idle = {#}" "\<not> sh_locked sh_idle n"
  by (simp_all add: sh_idle_def)

abbreviation two_threads :: "tcp_shared \<Rightarrow> frame list \<Rightarrow> frame list \<Rightarrow> tcp_threads" where
  "two_threads sh st st' \<equiv> \<lparr>tt_shared = sh, tt_stacks = [st, st']\<rparr>"

definition race :: tcp_threads where
  "race = two_threads (set_locked ''back'' True sh_idle) [Fr_on_lock ''back'' Ex_connect] [Fr_opening ''back'']"

lemma sample_classes:
  "class_at sample_fsm ''req'' = Some (RequestModule req_hooks)"
  "class_at sample_fsm ''back'' = Some (TcpModule 0 back_hooks)"
  by (simp_all add: class_at_def module_of_def sample_find sample_mods)

lemma sample_to_back: "\<not> ends_at sample_fsm ''req''" "route sample_fsm ''req'' Mod_Succeed = Some ''back''"
proof -
  show "\<not> ends_at sample_fsm ''req''"
    by (simp add: ends_at_def at_end_def module_of_def sample_find)
      (simp add: sample_fsm_def set_end_module_def same_module_def sample_mods)
  have "link_of sample_fsm ''req'' Mod_Succeed = Some ''back''"
    by (simp add: sample_fsm_def link_module_link_of sample_mods)
  then show "route sample_fsm ''req'' Mod_Succeed = Some ''back''" by (simp add: route_def)
qed

lemma sample_threads_start: "threads_start sample_fsm 2 (two_threads sh_idle [Fr_run ''req'' Mod_start] [])"
  unfolding threads_start_def
  by (intro conjI exI [of _ req_mod] exI [of _ 0])
    (simp_all add: sample_fsm_def set_end_module_def set_start_module_def req_mod_def sh_idle_def numeral_2_eq_2)

lemma first_acts:
  "reach (threads_start f 2) (threads_step f) (two_threads sh (fr # st) st') \<Longrightarrow> call_act f fr sh frs sh' \<Longrightarrow>
     reach (threads_start f 2) (threads_step f) (two_threads sh' (frs @ st) st')"
  using threads_act.intros [of 0 "two_threads sh (fr # st) st'" fr st f frs sh']
  by (auto intro: reach_step st_act)

lemma second_acts:
  "reach (threads_start f 2) (threads_step f) (two_threads sh st (fr # st')) \<Longrightarrow> call_act f fr sh frs sh' \<Longrightarrow>
     reach (threads_start f 2) (threads_step f) (two_threads sh' st (frs @ st'))"
  using threads_act.intros [of 1 "two_threads sh st (fr # st')" fr st' f frs sh']
  by (auto intro: reach_step st_act)

lemma one_takes:
  assumes "sh_ops sh = {#}"
  shows "reach (threads_start f 2) (threads_step f) (two_threads (start_ops {#p#} sh) st []) \<Longrightarrow>
      reach (threads_start f 2) (threads_step f) (two_threads sh st [handler_frame p])"
    and "reach (threads_start f 2) (threads_step f) (two_threads (start_ops {#p#} sh) [] st) \<Longrightarrow>
      reach (threads_start f 2) (threads_step f) (two_threads sh [handler_frame p] st)"
proof -
  have "(start_ops {#p#} sh)\<lparr>sh_ops := {#}\<rparr> = sh" using assms by (cases sh) (simp add: start_ops_def)
  then have "threads_step f (two_threads (start_ops {#p#} sh) st []) (two_threads sh st [handler_frame p])"
    "threads_step f (two_threads (start_ops {#p#} sh) [] st) (two_threads sh [handler_frame p] st)"
    using assms st_take [of 1 "two_threads (start_ops {#p#} sh) st []" p "{#}" f]
      st_take [of 0 "two_threads (start_ops {#p#} sh) [] st" p "{#}" f] by simp_all
  then show "reach (threads_start f 2) (threads_step f) (two_threads (start_ops {#p#} sh) st []) \<Longrightarrow>
      reach (threads_start f 2) (threads_step f) (two_threads sh st [handler_frame p])"
    "reach (threads_start f 2) (threads_step f) (two_threads (start_ops {#p#} sh) [] st) \<Longrightarrow>
      reach (threads_start f 2) (threads_step f) (two_threads sh [handler_frame p] st)"
    by (auto intro: reach_step)
qed

lemma race_reached: "reach (threads_start sample_fsm 2) (threads_step sample_fsm) race"
proof -
  let ?reach = "reach (threads_start sample_fsm 2) (threads_step sample_fsm)"
  let ?mine = "set_locked ''back'' True sh_idle"
  have "?reach (two_threads sh_idle [Fr_run ''req'' Mod_start] [])" by (rule reach_init) (rule sample_threads_start)
  from first_acts [OF this run_request [OF sample_classes(1)]]
  have "?reach (two_threads (start_ops {#Pd_conn ''req''#} sh_idle) [] [])" by simp
  then have "?reach (two_threads sh_idle [] [Fr_conn ''req''])"
    using one_takes(1) [of sh_idle sample_fsm "Pd_conn ''req''" "[]"] by (simp add: idle_ops)
  from second_acts [OF this conn_ends [of _ _ _ Mod_Succeed]]
  have "?reach (two_threads sh_idle [] [Fr_resume ''req'' Mod_Succeed])" by simp
  from second_acts [OF this resume_next [OF sample_to_back]]
  have "?reach (two_threads sh_idle [] [Fr_run ''back'' Mod_Succeed])" by simp
  from second_acts [OF this run_tcp [OF sample_classes(2), of 0]]
  have "?reach (two_threads sh_idle [] [Fr_run_lock ''back''])" by (simp add: back_hooks_def)
  from second_acts [OF this run_lock [OF idle_ops(2)]]
  have "?reach (two_threads ?mine [] [Fr_run_locked ''back''])" by simp
  from second_acts [OF this run_starts [of Ex_connect]]
  have "?reach (two_threads (start_ops {#Pd_exch ''back'' Ex_connect#} ?mine) [] [Fr_opening ''back''])" by simp
  then show ?thesis
    using one_takes(2) [of ?mine sample_fsm "Pd_exch ''back'' Ex_connect" "[Fr_opening ''back'']"]
    by (simp add: race_def idle_ops)
qed

lemma sample_forks_split: "forks_split sample_fsm"
  by (auto simp: forks_split_def sample_registered sample_mods)

theorem threads_never_deadlock_witness:
  "[Fr_on_lock ''back'' Ex_connect] \<in> set (tt_stacks race) \<and> sh_locked (tt_shared race) ''back'' \<and>
   (\<exists>t. threads_act sample_fsm race t \<and> labour sample_rank t < labour sample_rank race)"
proof -
  have "[Fr_on_lock ''back'' Ex_connect] \<in> set (tt_stacks race)" "sh_locked (tt_shared race) ''back''"
    by (simp_all add: race_def)
  with threads_never_deadlock [OF sample_wf race_reached] show ?thesis by blast
qed

theorem handlers_never_miss_witness:
  "''back'' \<in> tcp_names sample_fsm \<and> Fr_opening ''back'' \<in># frames race \<and>
   Fr_on_lock ''back'' Ex_connect \<in># frames race \<and> sh_event (tt_shared race) ''back'' \<noteq> Socket_Event_Opened \<and>
   Fr_missed ''back'' Ex_connect \<notin># frames race \<and> held ''back'' (frames race) \<le> 1 \<and>
   ops_to sample_fsm ''back'' (sh_ops (tt_shared race)) + frames_to sample_fsm ''back'' (frames race) \<le> 1"
proof -
  have tcp: "''back'' \<in> tcp_names sample_fsm"
    by (rule class_at_tcp [OF wf_registry [OF sample_wf] sample_classes(2)])
  moreover have "Fr_opening ''back'' \<in># frames race" "Fr_on_lock ''back'' Ex_connect \<in># frames race"
    "sh_event (tt_shared race) ''back'' \<noteq> Socket_Event_Opened"
    by (simp_all add: race_def frames_def sh_idle_def)
  ultimately show ?thesis
    using handlers_never_miss [OF sample_wf sample_forks_split race_reached] by blast
qed

theorem methods_do_actions_witness:
  "handler_does sample_fsm (module_run quiet_env) 6 back_mod 0 Ex_write (tcp_state 0 back_mod (busy (Some 0)) 5 fj_world)
     (on_write_req quiet_env (module_run quiet_env) 6 back_mod back_hooks 0 no_error
       (tcp_state 0 back_mod (busy (Some 0)) 5 fj_world)) (Xr_next Ex_head)"
  using methods_do_actions [OF fj_ctx, of "busy (Some 0)" sample_fsm back_mod 0 back_hooks quiet_env "module_run quiet_env" 6
      "([], 0)" "([], 0)" Ex_write no_error 5 Mod_Succeed] sample_classes(2)
  by (simp add: back_mod_def)

end
