(* ===== verification/Tcp_Server.thy ===== *)
theory Tcp_Server
  imports Prelude
begin

text \<open>
  The process side of \<open>TcpServer\<close> (framework/tcp_server.h and .cc): the parent forks workers,
  remembers their process ids, replaces those that end and kills the rest when it is told to
  stop. What the system calls answer (\<open>fork\<close>, \<open>waitpid\<close>) is an argument. The request side,
  \<open>start_accept\<close> and \<open>on_accepted\<close>, is in \<open>Event_Loop\<close>; here a started accept is
  counted.
\<close>

section \<open>State\<close>

type_synonym pid = int

datatype run_mode = RUN_NULL | RUN_THREAD | RUN_PROCESS

datatype signal = SIGCHLD | SIGQUIT | SIGKILL | SIGTERM | SIGINT | Other_signal int

text \<open>What \<open>fork\<close> returns: 0 in the child, the child's id in the parent, or -1.\<close>

datatype fork_result = Fork_child | Fork_parent pid | Fork_error

text \<open>
  One process: the members of the server, the two static variables, and what it has done:
  accepts and signal waits it started, threads that run the loop, and the ids it sent
  \<open>SIGQUIT\<close> to.
\<close>

record process =
  ps_task_number :: int
  ps_server_mode :: run_mode
  ps_is_child :: bool
  ps_child_pid :: "pid set"
  ps_acceptor_open :: bool
  ps_io_stopped :: bool
  ps_accepts :: nat
  ps_signal_waits :: nat
  ps_threads :: nat
  ps_killed :: "pid set"

section \<open>Operations\<close>

text \<open>\<open>kill_childs\<close>: the iteration order does not matter, every id is signalled and erased.\<close>

definition kill_childs :: "process \<Rightarrow> process" where
  "kill_childs s = s\<lparr>ps_killed := ps_killed s \<union> ps_child_pid s, ps_child_pid := {}\<rparr>"

definition on_exit :: "process \<Rightarrow> process" where
  "on_exit s = kill_childs s"

definition start_signal_wait :: "process \<Rightarrow> process" where
  "start_signal_wait s = s\<lparr>ps_signal_waits := Suc (ps_signal_waits s)\<rparr>"

definition server_start_accept :: "process \<Rightarrow> process" where
  "server_start_accept s = s\<lparr>ps_accepts := Suc (ps_accepts s)\<rparr>"

text \<open>
  The objects the server owns: which of its pointers are set, and what it has destroyed, in order.
  \<open>clear\<close>, which is all the destructor does, resets the pointers.
\<close>

datatype server_member = Sm_fsm | Sm_io_service | Sm_signal | Sm_acceptor

record server_objects =
  so_set :: "server_member set"
  so_destroyed :: "server_member list"

definition so_reset :: "server_member \<Rightarrow> server_objects \<Rightarrow> server_objects" where
  "so_reset m s =
     (if m \<in> so_set s then \<lparr> so_set = so_set s - {m}, so_destroyed = so_destroyed s @ [m] \<rparr> else s)"

definition server_clear :: "server_objects \<Rightarrow> server_objects" where
  "server_clear s = so_reset Sm_io_service (so_reset Sm_acceptor (so_reset Sm_signal (so_reset Sm_fsm s)))"

text \<open>
  The \<open>try\<close> block of the constructor: any of the four \<open>new\<close> may throw (the acceptor's when the port
  cannot be bound); then the handler clears and exits.
\<close>

fun so_construct :: "(server_member \<Rightarrow> bool) \<Rightarrow> server_member list \<Rightarrow> server_objects \<Rightarrow> server_objects + server_objects" where
  "so_construct throws [] s = Inr s"
| "so_construct throws (m # ms) s =
     (if throws m then Inl (server_clear s) else so_construct throws ms (s\<lparr>so_set := insert m (so_set s)\<rparr>))"

definition tcp_server_objects :: "(server_member \<Rightarrow> bool) \<Rightarrow> server_objects + server_objects" where
  "tcp_server_objects throws =
     so_construct throws [Sm_fsm, Sm_io_service, Sm_signal, Sm_acceptor] \<lparr> so_set = {}, so_destroyed = [] \<rparr>"

text \<open>
  A server that could not be constructed has destroyed what it had made, each object once, the
  \<open>io_service\<close> after the signal set and the acceptor that refer to it; so has one that is destroyed.
\<close>

lemma server_clear_all:
  "so_set (server_clear s) = {}"
  "so_destroyed (server_clear s) =
     so_destroyed s @ filter (\<lambda>m. m \<in> so_set s) [Sm_fsm, Sm_signal, Sm_acceptor, Sm_io_service]"
proof -
  have "x \<notin> so_set (server_clear s)" for x
    by (cases x) (auto simp: server_clear_def so_reset_def)
  then show "so_set (server_clear s) = {}" by blast
qed (auto simp: server_clear_def so_reset_def)

lemma server_objects_destroyed:
  assumes "tcp_server_objects throws = r"
  shows "case r of
      Inl s \<Rightarrow> (\<exists>m. throws m) \<and> so_set s = {} \<and>
        so_destroyed s = filter (\<lambda>m. m \<in> set (so_destroyed s)) [Sm_fsm, Sm_signal, Sm_acceptor, Sm_io_service]
    | Inr s \<Rightarrow> (\<forall>m. \<not> throws m) \<and> so_destroyed s = [] \<and> (\<forall>m. m \<in> so_set s) \<and>
        so_destroyed (server_clear s) = [Sm_fsm, Sm_signal, Sm_acceptor, Sm_io_service]"
proof -
  show ?thesis
  proof (cases "\<exists>m. throws m")
    case True
    then have "throws Sm_fsm \<or> throws Sm_io_service \<or> throws Sm_signal \<or> throws Sm_acceptor"
      by (metis server_member.exhaust)
    with assms True show ?thesis
      by (auto simp: tcp_server_objects_def server_clear_all)
  next
    case False
    then have r: "r = Inr \<lparr> so_set = {Sm_acceptor, Sm_signal, Sm_io_service, Sm_fsm}, so_destroyed = [] \<rparr>"
      using assms by (auto simp: tcp_server_objects_def)
    have "x \<in> {Sm_acceptor, Sm_signal, Sm_io_service, Sm_fsm}" for x by (cases x) auto
    with False r show ?thesis by (simp add: server_clear_all)
  qed
qed

text \<open>The constructor, when nothing throws.\<close>

definition tcp_server_new :: "int \<Rightarrow> process" where
  "tcp_server_new task_number =
     (start_signal_wait
       \<lparr> ps_task_number = (if task_number < 1 then 1 else task_number), ps_server_mode = RUN_NULL,
         ps_is_child = False, ps_child_pid = {}, ps_acceptor_open = True, ps_io_stopped = False,
         ps_accepts = 0, ps_signal_waits = 0, ps_threads = 0, ps_killed = {} \<rparr>)"

definition run_for_child :: "int \<Rightarrow> process \<Rightarrow> process" where
  "run_for_child thread_num s = server_start_accept (s\<lparr>ps_threads := ps_threads s + nat thread_num\<rparr>)"

definition run_multi_thread :: "fork_result \<Rightarrow> int \<Rightarrow> process \<Rightarrow> process" where
  "run_multi_thread fork thread_num s =
     (case fork of
        Fork_child \<Rightarrow> run_for_child thread_num (start_signal_wait s)
      | Fork_parent pid \<Rightarrow> s\<lparr>ps_child_pid := insert pid (ps_child_pid s)\<rparr>
      | Fork_error \<Rightarrow> s)"

text \<open>The loop of \<open>run_multi_process\<close>; \<open>fork i\<close> is the answer in round \<open>i\<close>.\<close>

function process_loop :: "(nat \<Rightarrow> fork_result) \<Rightarrow> nat \<Rightarrow> nat \<Rightarrow> process \<Rightarrow> process" where
  "process_loop fork i n s =
     (if i < n then
        (case fork i of
           Fork_child \<Rightarrow>
             server_start_accept (start_signal_wait (s\<lparr>ps_is_child := True\<rparr>))
         | Fork_parent pid \<Rightarrow>
             process_loop fork (Suc i) n (s\<lparr>ps_child_pid := insert pid (ps_child_pid s)\<rparr>)
         | Fork_error \<Rightarrow> s)
      else s)"
  by pat_completeness auto

termination
  by (relation "measure (\<lambda>(fork, i, n, s). n - i)") auto

definition run_multi_process :: "(nat \<Rightarrow> fork_result) \<Rightarrow> int \<Rightarrow> process \<Rightarrow> process" where
  "run_multi_process fork process_num s =
     (if ps_is_child s then s else process_loop fork 0 (nat process_num) s)"

text \<open>\<open>waitpid(-1, ...)\<close> until it finds no more: \<open>reaped\<close> are the ids it returned.\<close>

fun reap_loop :: "pid list \<Rightarrow> int \<times> process \<Rightarrow> int \<times> process" where
  "reap_loop [] (task_num, s) = (task_num, s)"
| "reap_loop (pid # reaped) (task_num, s) =
     reap_loop reaped (task_num + 1, s\<lparr>ps_child_pid := ps_child_pid s - {pid}\<rparr>)"

definition handle_signal ::
  "(nat \<Rightarrow> fork_result) \<Rightarrow> pid list \<Rightarrow> signal \<Rightarrow> process \<Rightarrow> process" where
  "handle_signal fork reaped signal_number s =
     start_signal_wait
       (case signal_number of
          SIGCHLD \<Rightarrow>
            (let (task_num, s) = (if ps_acceptor_open s then reap_loop reaped (0, s) else (0, s)) in
             if task_num > 0 then
               (case ps_server_mode s of
                  RUN_THREAD \<Rightarrow> run_multi_thread (fork 0) (ps_task_number s) s
                | RUN_PROCESS \<Rightarrow> run_multi_process fork task_num s
                | RUN_NULL \<Rightarrow> s)
             else s)
        | Other_signal k \<Rightarrow> s
        | _ \<Rightarrow> kill_childs (s\<lparr>ps_acceptor_open := False, ps_io_stopped := True\<rparr>))"

text \<open>\<open>run\<close> up to the call of \<open>io_service::run\<close>.\<close>

definition server_run :: "(nat \<Rightarrow> fork_result) \<Rightarrow> run_mode \<Rightarrow> process \<Rightarrow> process" where
  "server_run fork mode s =
     (let s = s\<lparr>ps_server_mode := mode\<rparr> in
      if mode = RUN_THREAD then run_multi_thread (fork 0) (ps_task_number s) s
      else run_multi_process fork (ps_task_number s) s)"

section \<open>What the loops compute\<close>

declare process_loop.simps [simp del]

text \<open>The ids of the workers forked in rounds \<open>i\<close> to \<open>n - 1\<close>, up to the first failure.\<close>

fun forked :: "(nat \<Rightarrow> fork_result) \<Rightarrow> nat \<Rightarrow> pid list" where
  "forked fork 0 = []"
| "forked fork (Suc n) =
     (case fork 0 of Fork_parent pid \<Rightarrow> pid # forked (\<lambda>i. fork (Suc i)) n | _ \<Rightarrow> [])"

lemma forked_length: "length (forked fork n) \<le> n"
  by (induction n arbitrary: fork) (auto split: fork_result.split)

lemma forked_all:
  "\<forall>i<n. \<exists>pid. fork i = Fork_parent pid \<Longrightarrow> length (forked fork n) = n"
proof (induction n arbitrary: fork)
  case (Suc n)
  then obtain pid where "fork 0 = Fork_parent pid" by blast
  with Suc show ?case by auto
qed simp

lemma process_loop_parent:
  assumes "\<And>i. i < n \<Longrightarrow> fork i \<noteq> Fork_child"
  shows "process_loop fork i n s =
    s\<lparr>ps_child_pid := ps_child_pid s \<union> set (forked (\<lambda>k. fork (i + k)) (n - i))\<rparr>"
  using assms
proof (induction fork i n s rule: process_loop.induct)
  case (1 fork i n s)
  show ?case
  proof (cases "i < n")
    case True
    then obtain m where m: "n - i = Suc m" "n - Suc i = m" by (metis Suc_diff_Suc)
    show ?thesis
    proof (cases "fork i")
      case (Fork_parent pid)
      let ?s = "s\<lparr>ps_child_pid := insert pid (ps_child_pid s)\<rparr>"
      have "process_loop fork i n s = process_loop fork (Suc i) n ?s"
        using True Fork_parent by (subst process_loop.simps) simp
      also have "\<dots> = ?s\<lparr>ps_child_pid := ps_child_pid ?s \<union> set (forked (\<lambda>k. fork (Suc i + k)) m)\<rparr>"
        using 1(1) [OF True Fork_parent] 1(2) m by simp
      finally show ?thesis using Fork_parent m by simp
    next
      case Fork_error
      with True m show ?thesis by (subst process_loop.simps) simp
    qed (use 1(2) [OF True] in simp)
  next
    case False
    then show ?thesis by (subst process_loop.simps) simp
  qed
qed

lemma reap_loop_eq:
  "reap_loop reaped (k, s) = (k + int (length reaped), s\<lparr>ps_child_pid := ps_child_pid s - set reaped\<rparr>)"
proof (induction reaped arbitrary: k s)
  case (Cons pid reaped)
  have "ps_child_pid s - {pid} - set reaped = ps_child_pid s - insert pid (set reaped)" by blast
  with Cons show ?case by simp
qed simp

section \<open>The parent and its workers\<close>

text \<open>
  The parent in process mode together with the system's view of its workers: those alive and
  those that have ended but have not been waited for. \<open>err\<close> says whether \<open>fork\<close> may fail.
\<close>

record supervisor =
  sv_process :: process
  sv_live :: "pid set"
  sv_zombies :: "pid list"

text \<open>The answers a parent gets: never 0, and ids that no process of its own has.\<close>

definition parent_forks :: "bool \<Rightarrow> (nat \<Rightarrow> fork_result) \<Rightarrow> nat \<Rightarrow> pid set \<Rightarrow> bool" where
  "parent_forks err fork n used \<longleftrightarrow>
     (\<forall>i<n. fork i \<noteq> Fork_child \<and> (fork i = Fork_error \<longrightarrow> err)) \<and>
     distinct (forked fork n) \<and> set (forked fork n) \<inter> used = {}"

lemma parent_forks_length:
  "parent_forks False fork n used \<Longrightarrow> length (forked fork n) = n"
  by (rule forked_all) (metis fork_result.exhaust parent_forks_def)

inductive sup_step :: "bool \<Rightarrow> supervisor \<Rightarrow> supervisor \<Rightarrow> bool" for err where
  sup_die: "pid \<in> sv_live v \<Longrightarrow>
     sup_step err v (v\<lparr>sv_live := sv_live v - {pid}, sv_zombies := sv_zombies v @ [pid]\<rparr>)"
| sup_child: "parent_forks err fork (length (sv_zombies v)) (sv_live v \<union> set (sv_zombies v)) \<Longrightarrow>
     ps_acceptor_open (sv_process v) \<Longrightarrow>
     sup_step err v
       (v\<lparr>sv_process := handle_signal fork (sv_zombies v) SIGCHLD (sv_process v),
          sv_live := sv_live v \<union> set (forked fork (length (sv_zombies v))), sv_zombies := []\<rparr>)"
| sup_signal: "sig \<noteq> SIGCHLD \<or> \<not> ps_acceptor_open (sv_process v) \<Longrightarrow>
     sup_step err v (v\<lparr>sv_process := handle_signal fork [] sig (sv_process v)\<rparr>)"

definition sup_start :: "bool \<Rightarrow> int \<Rightarrow> supervisor \<Rightarrow> bool" where
  "sup_start err task_number v \<longleftrightarrow>
     (\<exists>fork. let s0 = tcp_server_new task_number; n = nat (ps_task_number s0) in
        parent_forks err fork n {} \<and> sv_process v = server_run fork RUN_PROCESS s0 \<and>
        sv_live v = set (forked fork n) \<and> sv_zombies v = [])"

definition sup_inv :: "bool \<Rightarrow> int \<Rightarrow> supervisor \<Rightarrow> bool" where
  "sup_inv err task_number v \<longleftrightarrow>
     (let s = sv_process v; t = nat (max 1 task_number) in
      ps_server_mode s = RUN_PROCESS \<and> \<not> ps_is_child s \<and> finite (sv_live v) \<and> distinct (sv_zombies v) \<and>
      sv_live v \<inter> set (sv_zombies v) = {} \<and>
      (if ps_acceptor_open s
       then ps_child_pid s = sv_live v \<union> set (sv_zombies v) \<and> card (ps_child_pid s) \<le> t \<and>
            (\<not> err \<longrightarrow> card (ps_child_pid s) = t)
       else ps_child_pid s = {}))"

text \<open>The parent's reaction to \<open>SIGCHLD\<close>: what ended is forgotten, as many are forked again.\<close>

lemma handle_child_parent:
  assumes "ps_server_mode s = RUN_PROCESS" "\<not> ps_is_child s" "ps_acceptor_open s"
    and "\<And>i. i < length reaped \<Longrightarrow> fork i \<noteq> Fork_child"
  shows "handle_signal fork reaped SIGCHLD s =
    start_signal_wait (s\<lparr>ps_child_pid := (ps_child_pid s - set reaped) \<union> set (forked fork (length reaped))\<rparr>)"
  using assms process_loop_parent [of "length reaped" fork 0]
  by (cases reaped) (simp_all add: handle_signal_def reap_loop_eq run_multi_process_def nat_add_distrib
      del: forked.simps(2))

lemma start_signal_wait_fields [simp]:
  "ps_child_pid (start_signal_wait s) = ps_child_pid s" "ps_is_child (start_signal_wait s) = ps_is_child s"
  "ps_server_mode (start_signal_wait s) = ps_server_mode s"
  "ps_acceptor_open (start_signal_wait s) = ps_acceptor_open s"
  "ps_task_number (start_signal_wait s) = ps_task_number s"
  "ps_killed (start_signal_wait s) = ps_killed s"
  by (simp_all add: start_signal_wait_def)

lemma sup_start_inv:
  assumes "sup_start err t v"
  shows "sup_inv err t v"
proof -
  let ?n = "nat (ps_task_number (tcp_server_new t))"
  have n: "?n = nat (max 1 t)" by (simp add: tcp_server_new_def max_def)
  from assms obtain fork where f: "parent_forks err fork ?n {}"
    and v: "sv_process v = server_run fork RUN_PROCESS (tcp_server_new t)"
      "sv_live v = set (forked fork ?n)" "sv_zombies v = []"
    by (auto simp: sup_start_def Let_def)
  have "process_loop fork 0 ?n (tcp_server_new t\<lparr>ps_server_mode := RUN_PROCESS\<rparr>) =
      tcp_server_new t\<lparr>ps_server_mode := RUN_PROCESS, ps_child_pid := set (forked fork ?n)\<rparr>"
    using process_loop_parent [of ?n fork 0 "tcp_server_new t\<lparr>ps_server_mode := RUN_PROCESS\<rparr>"] f
    by (simp add: parent_forks_def tcp_server_new_def)
  then have p: "sv_process v = tcp_server_new t\<lparr>ps_server_mode := RUN_PROCESS, ps_child_pid := set (forked fork ?n)\<rparr>"
    unfolding v(1) by (simp add: server_run_def run_multi_process_def tcp_server_new_def)
  have "card (set (forked fork ?n)) = length (forked fork ?n)"
    using f by (simp add: parent_forks_def distinct_card)
  then have "card (set (forked fork ?n)) \<le> nat (max 1 t)" "\<not> err \<Longrightarrow> card (set (forked fork ?n)) = nat (max 1 t)"
    using forked_length [of fork ?n] parent_forks_length [of fork ?n "{}"] f n by auto
  then show ?thesis
    unfolding sup_inv_def Let_def p v(2,3) by (simp add: tcp_server_new_def)
qed

lemma sup_step_inv:
  assumes inv: "sup_inv err t v" and step: "sup_step err v v'"
  shows "sup_inv err t v'"
  using step
proof cases
  case (sup_die pid)
  then have "insert pid (sv_live v - {pid} \<union> set (sv_zombies v)) = sv_live v \<union> set (sv_zombies v)" by auto
  moreover have "pid \<notin> set (sv_zombies v)" "(sv_live v - {pid}) \<inter> set (sv_zombies v) = {}"
    using sup_die(2) inv by (auto simp: sup_inv_def Let_def)
  ultimately show ?thesis
    unfolding sup_die(1) using inv by (auto simp: sup_inv_def Let_def split: if_splits)
next
  case (sup_child fork)
  let ?z = "sv_zombies v" and ?s = "sv_process v"
  let ?new = "set (forked fork (length ?z))"
  from inv sup_child(3) have i: "ps_server_mode ?s = RUN_PROCESS" "\<not> ps_is_child ?s" "finite (sv_live v)"
    "distinct ?z" "sv_live v \<inter> set ?z = {}" "ps_child_pid ?s = sv_live v \<union> set ?z"
    "card (ps_child_pid ?s) \<le> nat (max 1 t)" "\<not> err \<longrightarrow> card (ps_child_pid ?s) = nat (max 1 t)"
    by (auto simp: sup_inv_def Let_def)
  have "fork k \<noteq> Fork_child" if "k < length ?z" for k using sup_child(2) that by (simp add: parent_forks_def)
  note hs = handle_child_parent [OF i(1,2) sup_child(3) this]
  have pids: "(ps_child_pid ?s - set ?z) \<union> ?new = sv_live v \<union> ?new" using i(5,6) by auto
  have dis: "sv_live v \<inter> ?new = {}" using sup_child(2) by (auto simp: parent_forks_def)
  have old: "card (ps_child_pid ?s) = card (sv_live v) + length ?z"
    using i(3-6) by (simp add: card_Un_disjoint distinct_card)
  have new: "card (sv_live v \<union> ?new) = card (sv_live v) + length (forked fork (length ?z))"
    using i(3) dis sup_child(2) by (simp add: card_Un_disjoint distinct_card parent_forks_def)
  have "card (sv_live v \<union> ?new) \<le> nat (max 1 t)"
    using new old i(7) forked_length [of fork "length ?z"] by simp
  moreover have "\<not> err \<longrightarrow> card (sv_live v \<union> ?new) = nat (max 1 t)"
    using new old i(8) parent_forks_length [of fork "length ?z"] sup_child(2) by auto
  ultimately show ?thesis
    unfolding sup_child(1) sup_inv_def Let_def
    using i(1-5) sup_child(3) by (simp add: hs pids)
next
  case (sup_signal sig fork)
  with inv show ?thesis
    by (cases sig) (auto simp: sup_inv_def handle_signal_def kill_childs_def Let_def)
qed

interpretation supervision: invariant "sup_start err t" "sup_step err" "sup_inv err t" for err t
  by unfold_locales (erule sup_start_inv, erule (1) sup_step_inv)

section \<open>Properties\<close>

text \<open>
  C16: Supervision of the workers in process mode. In every state the parent can reach, through any
  sequence of worker deaths, signals and answers of \<open>fork\<close>: while the server is not told to
  stop, the ids it remembers are exactly those of its workers that are alive or not yet waited
  for, at most as many as the task number (at least 1), and exactly that many if no \<open>fork\<close>
  failed; after it was told to stop it remembers none.
\<close>

theorem workers_supervised:
  assumes "reach (sup_start err task_number) (sup_step err) v"
  shows "if ps_acceptor_open (sv_process v)
    then ps_child_pid (sv_process v) = sv_live v \<union> set (sv_zombies v) \<and>
         int (card (ps_child_pid (sv_process v))) \<le> max 1 task_number \<and>
         (\<not> err \<longrightarrow> int (card (ps_child_pid (sv_process v))) = max 1 task_number)
    else ps_child_pid (sv_process v) = {}"
  using supervision.inv_reach [OF assms] by (auto simp: sup_inv_def Let_def)

text \<open>
  C32: Stopping is final. A terminating signal closes the acceptor and sends \<open>SIGQUIT\<close> to every
  worker the process remembers; from then on no sequence of signals, whatever \<open>waitpid\<close> and
  \<open>fork\<close> would answer, makes it fork or accept again.
\<close>

theorem stop_is_final:
  assumes "sig \<in> {SIGQUIT, SIGKILL, SIGTERM, SIGINT}"
  shows "let s' = fold (\<lambda>(fork, reaped, sg). handle_signal fork reaped sg) sigs (handle_signal f r sig s) in
    \<not> ps_acceptor_open s' \<and> ps_child_pid s' = {} \<and> ps_child_pid s \<subseteq> ps_killed s' \<and>
    ps_accepts s' = ps_accepts s \<and> ps_is_child s' = ps_is_child s"
proof -
  define stopped where "stopped = (\<lambda>s' :: process. \<not> ps_acceptor_open s' \<and> ps_child_pid s' = {} \<and>
    ps_child_pid s \<subseteq> ps_killed s' \<and> ps_accepts s' = ps_accepts s \<and> ps_is_child s' = ps_is_child s)"
  have "stopped (handle_signal f r sig s)"
    using assms by (auto simp: stopped_def handle_signal_def kill_childs_def start_signal_wait_def)
  moreover have "stopped (handle_signal fork reaped sg s')" if "stopped s'" for fork reaped sg s'
    using that by (cases sg) (auto simp: stopped_def handle_signal_def kill_childs_def start_signal_wait_def)
  ultimately have "stopped (fold (\<lambda>(fork, reaped, sg). handle_signal fork reaped sg) sigs (handle_signal f r sig s))"
    by (induction sigs rule: rev_induct) auto
  then show ?thesis by (simp add: stopped_def Let_def)
qed

text \<open>
  C40: A worker kills its elder siblings. The worker forked in round \<open>i\<close> keeps the ids of the \<open>i\<close>
  workers forked before it in its copy of \<open>child_pid_\<close>; when it is told to stop (or exits, since
  \<open>on_exit\<close> does the same), it sends them \<open>SIGQUIT\<close>.
\<close>

theorem worker_kills_siblings:
  assumes "i < n" and "fork i = Fork_child" and "\<And>k. k < i \<Longrightarrow> fork k = Fork_parent (pids ! k)"
    and "length pids = i" and "\<not> ps_is_child s" and "ps_child_pid s = {}"
  shows "let worker = run_multi_process fork (int n) s in
    ps_is_child worker \<and> ps_child_pid worker = set pids \<and>
    set pids \<subseteq> ps_killed (handle_signal f r SIGTERM worker) \<and> set pids \<subseteq> ps_killed (on_exit worker)"
proof -
  have loop: "process_loop fork j n s' =
      server_start_accept (start_signal_wait (s'\<lparr>ps_child_pid := ps_child_pid s' \<union> set (drop j pids), ps_is_child := True\<rparr>))"
    if "j \<le> i" for j s'
    using that
  proof (induction "i - j" arbitrary: j s')
    case 0
    then have "j = i" by simp
    with assms(1,2,4) show ?case by (subst process_loop.simps) simp
  next
    case (Suc m)
    then have j: "j < i" "m = i - Suc j" "Suc j \<le> i" by simp_all
    then have dr: "drop j pids = pids ! j # drop (Suc j) pids" using assms(4) by (simp add: Cons_nth_drop_Suc)
    from Suc(1) [OF j(2,3)] assms(1) assms(3) [OF j(1)] j(1) dr show ?case
      by (subst process_loop.simps) simp
  qed
  have "run_multi_process fork (int n) s =
      server_start_accept (start_signal_wait (s\<lparr>ps_child_pid := set pids, ps_is_child := True\<rparr>))"
    using loop [of 0 s] assms(5,6) by (simp add: run_multi_process_def)
  then show ?thesis
    by (simp add: Let_def server_start_accept_def handle_signal_def kill_childs_def on_exit_def)
qed

section \<open>Witnesses\<close>

lemma hundreds_forked: "forked (\<lambda>i. Fork_parent (100 + int (i + k))) 2 = [100 + int k, 101 + int k]"
  by (simp add: numeral_2_eq_2)

theorem workers_supervised_witness:
  "\<exists>v. reach (sup_start False 2) (sup_step False) v \<and> ps_acceptor_open (sv_process v) \<and>
     card (ps_child_pid (sv_process v)) = 2"
proof -
  let ?fork = "\<lambda>i. Fork_parent (100 + int i)"
  let ?v = "\<lparr> sv_process = server_run ?fork RUN_PROCESS (tcp_server_new 2),
             sv_live = set (forked ?fork 2), sv_zombies = [] \<rparr>"
  have f: "forked ?fork 2 = [100, 101]" using hundreds_forked [of 0] by simp
  have acc: "ps_acceptor_open (sv_process ?v)"
    using process_loop_parent [of 2 ?fork 0 "tcp_server_new 2\<lparr>ps_server_mode := RUN_PROCESS\<rparr>"]
    by (simp add: server_run_def run_multi_process_def tcp_server_new_def start_signal_wait_def)
  have "sup_start False 2 ?v"
    unfolding sup_start_def Let_def
    by (rule exI [of _ ?fork]) (simp add: tcp_server_new_def start_signal_wait_def parent_forks_def f)
  then have "reach (sup_start False 2) (sup_step False) ?v" by (rule reach_init)
  with workers_supervised [OF this] acc show ?thesis by auto
qed

theorem stop_is_final_witness:
  "ps_child_pid (handle_signal (\<lambda>i. Fork_parent 7) [5] SIGCHLD
     (handle_signal (\<lambda>i. Fork_parent 7) [] SIGTERM ((tcp_server_new 1)\<lparr>ps_child_pid := {5}\<rparr>))) = {}"
  using stop_is_final [of SIGTERM "[(\<lambda>i. Fork_parent 7, [5], SIGCHLD)]" "\<lambda>i. Fork_parent 7" "[]"
      "(tcp_server_new 1)\<lparr>ps_child_pid := {5}\<rparr>"]
  by (simp add: Let_def)

theorem worker_kills_siblings_witness:
  "5 \<in> ps_killed (on_exit (run_multi_process (\<lambda>i. if i = 0 then Fork_parent 5 else Fork_child) 2 (tcp_server_new 2)))"
  using worker_kills_siblings [of 1 2 "\<lambda>i. if i = 0 then Fork_parent 5 else Fork_child" "[5]" "tcp_server_new 2"
      "\<lambda>i. Fork_error" "[]"]
  by (simp add: Let_def tcp_server_new_def)

end
