(* ===== verification/Decimal.thy ===== *)
theory Decimal
  imports Prelude
begin

text \<open>
  Decimal output of integers, as \<open>snprintf\<close> with \<open>%d\<close> (example1/main.cc) and
  \<open>operator<<\<close> of a stream (client/tcp_client_pool.cc) print them, and reading the output back.
\<close>

section \<open>Printing\<close>

definition digit_char :: "nat \<Rightarrow> char" where
  "digit_char k = char_of (48 + k)"

fun show_nat :: "nat \<Rightarrow> string" where
  "show_nat n = (if n < 10 then [digit_char n] else show_nat (n div 10) @ [digit_char (n mod 10)])"

declare show_nat.simps [simp del]

definition show_int :: "int \<Rightarrow> string" where
  "show_int i = (if i < 0 then CHR ''-'' # show_nat (nat (- i)) else show_nat (nat i))"

section \<open>Reading\<close>

definition digit_val :: "char \<Rightarrow> nat" where
  "digit_val c = of_char c - 48"

definition is_digit :: "char \<Rightarrow> bool" where
  "is_digit c \<longleftrightarrow> 48 \<le> (of_char c :: nat) \<and> (of_char c :: nat) \<le> 57"

definition read_nat :: "string \<Rightarrow> nat" where
  "read_nat ds = foldl (\<lambda>a c. 10 * a + digit_val c) 0 ds"

definition read_int :: "string \<Rightarrow> int" where
  "read_int s = (case s of c # ds \<Rightarrow> if c = CHR ''-'' then - int (read_nat ds) else int (read_nat s) | [] \<Rightarrow> 0)"

lemma of_digit_char [simp]: "k < 10 \<Longrightarrow> (of_char (digit_char k) :: nat) = 48 + k"
  by (simp add: digit_char_def)

lemma digit_val_char [simp]: "k < 10 \<Longrightarrow> digit_val (digit_char k) = k"
  by (simp add: digit_val_def)

lemma is_digit_char [simp]: "k < 10 \<Longrightarrow> is_digit (digit_char k)"
  by (simp add: is_digit_def)

lemma show_nat_ne [simp]: "show_nat n \<noteq> []"
  by (subst show_nat.simps) simp

lemma show_nat_digits: "c \<in> set (show_nat n) \<Longrightarrow> is_digit c"
proof (induction n rule: show_nat.induct)
  case (1 n)
  then show ?case by (cases "n < 10") (auto simp: show_nat.simps [of n])
qed

lemma read_show_nat [simp]: "read_nat (show_nat n) = n"
proof (induction n rule: show_nat.induct)
  case (1 n)
  then show ?case
    by (cases "n < 10") (simp_all add: show_nat.simps [of n] read_nat_def)
qed

lemma minus_not_digit [simp]: "\<not> is_digit CHR ''-''"
  by (simp add: is_digit_def)

lemma show_nat_no_minus: "show_nat n = c # ds \<Longrightarrow> c \<noteq> CHR ''-''"
  using show_nat_digits [of c n] by auto

lemma read_show_int [simp]: "read_int (show_int i) = i"
proof (cases "i < 0")
  case True
  then show ?thesis by (simp add: show_int_def read_int_def)
next
  case False
  obtain c ds where "show_nat (nat i) = c # ds" by (cases "show_nat (nat i)") auto
  with False show_nat_no_minus [OF this] read_show_nat [of "nat i"] show ?thesis
    by (simp add: show_int_def read_int_def)
qed

lemma show_nat_inject [simp]: "show_nat m = show_nat n \<longleftrightarrow> m = n"
  by (metis read_show_nat)

lemma show_int_chars: "c \<in> set (show_int i) \<Longrightarrow> is_digit c \<or> c = CHR ''-''"
  by (auto simp: show_int_def dest: show_nat_digits split: if_splits)

text \<open>
  Numbers between separators: what stands in front of a character that is no digit is determined
  by the whole string.
\<close>

lemma digits_prefix_eq:
  assumes "\<forall>c \<in> set xs. P c" "\<forall>c \<in> set ys. P c" "\<not> P a" "\<not> P b"
  shows "xs @ a # us = ys @ b # vs \<longleftrightarrow> xs = ys \<and> a = b \<and> us = vs"
  using assms
proof (induction xs arbitrary: ys)
  case Nil
  then show ?case by (cases ys) auto
next
  case (Cons x xs)
  then show ?case by (cases ys) auto
qed

lemma show_nat_sep_inject:
  assumes "\<not> is_digit c"
  shows "show_nat m @ c # us = show_nat n @ c # vs \<longleftrightarrow> m = n \<and> us = vs"
  using digits_prefix_eq [of "show_nat m" is_digit "show_nat n" c c us vs] assms
  by (simp add: show_nat_digits)

end
