(* ===== verification/Proxy_Machine.thy ===== *)
theory Proxy_Machine
  imports Fsm Decimal Tcp_Server
begin

text \<open>
  The state machine of the example application (example1/main.cc): a proxy that reads a request,
  asks feature and prediction servers in nested parallel branches, and answers. The classes of
  its modules are not part of the repository; their constructors, with the arguments
  \<open>main\<close> passes, and the states their headers declare are the parameter \<open>proxy_classes\<close>.
\<close>

section \<open>Flags\<close>

text \<open>The command line flags that \<open>main\<close> uses for the machine and the server.\<close>

record proxy_flags =
  FLAGS_run_mode :: string
  FLAGS_fs_max_shard_num :: int
  FLAGS_ps_max_shard_num :: int
  FLAGS_max_sub_model_id_size :: int
  FLAGS_task_num :: int
  FLAGS_enable_reload :: bool
  FLAGS_fs_check_time :: int
  FLAGS_ps_check_time :: int

definition default_flags :: proxy_flags where
  "default_flags = \<lparr> FLAGS_run_mode = ''thread'', FLAGS_fs_max_shard_num = 8,
     FLAGS_ps_max_shard_num = 3, FLAGS_max_sub_model_id_size = 5, FLAGS_task_num = 4, FLAGS_enable_reload = True,
     FLAGS_fs_check_time = 20, FLAGS_ps_check_time = 60 \<rparr>"

definition MAX_FS_FORK_NUM :: "proxy_flags \<Rightarrow> int" where
  "MAX_FS_FORK_NUM fl = FLAGS_fs_max_shard_num fl"

definition MAX_PS2_FORK_NUM :: "proxy_flags \<Rightarrow> int" where
  "MAX_PS2_FORK_NUM fl = FLAGS_max_sub_model_id_size fl"

definition MAX_PS_FORK_NUM :: "proxy_flags \<Rightarrow> int" where
  "MAX_PS_FORK_NUM fl = FLAGS_max_sub_model_id_size fl * FLAGS_ps_max_shard_num fl"

text \<open>\<open>strcasecmp(FLAGS_run_mode.c_str(), "process")\<close>, and the mode it selects.\<close>

definition to_lower :: "char \<Rightarrow> char" where
  "to_lower c =
     (let k = (of_char c :: nat) in if 65 \<le> k \<and> k \<le> 90 then char_of (k + 32) else c)"

definition main_mode :: "proxy_flags \<Rightarrow> run_mode" where
  "main_mode fl =
     (if map to_lower (FLAGS_run_mode fl) = ''process'' then RUN_PROCESS else RUN_THREAD)"

text \<open>
  The limit of core dumps: what \<open>main\<close> passes to \<open>setrlimit\<close>, if it calls it; \<open>limit\<close> is the answer
  of \<open>getrlimit\<close>. A process may not raise its limit above the hard limit \<open>rlim_max\<close>.
\<close>

record rlimit =
  rlim_cur :: u64
  rlim_max :: u64

definition RLIM_INFINITY :: u64 where
  "RLIM_INFINITY = - 1"

definition core_dump_limit :: "bool \<Rightarrow> rlimit option \<Rightarrow> rlimit option" where
  "core_dump_limit FLAGS_core_dump limit =
     (if FLAGS_core_dump then map_option (\<lambda>limit. limit\<lparr>rlim_cur := RLIM_INFINITY\<rparr>) limit else None)"

lemma core_dump_needs_no_hard_limit:
  assumes "core_dump_limit True (Some limit) = Some new"
  shows "rlim_max new = rlim_max limit \<and> (rlim_cur new \<le> rlim_max new \<longleftrightarrow> rlim_max limit = RLIM_INFINITY)"
proof -
  have "rlim_max limit \<le> RLIM_INFINITY" by (simp add: RLIM_INFINITY_def)
  with assms show ?thesis by (auto simp: core_dump_limit_def)
qed

text \<open>What \<open>main\<close> does with the server object: construct it and run it in that mode.\<close>

definition main_server :: "(nat \<Rightarrow> fork_result) \<Rightarrow> proxy_flags \<Rightarrow> process" where
  "main_server fork fl = server_run fork (main_mode fl) (tcp_server_new (FLAGS_task_num fl))"

text \<open>
  The whole of \<open>main\<close>: without reloading, \<open>set_instance\<close> must return 1; with it, the configuration
  must load and be there, or the process exits. \<open>set_ret\<close>, \<open>loads\<close> and \<open>loaded\<close> are the answers of
  \<open>ConfigManager::set_instance\<close>, \<open>ConfigReload::Load\<close> and \<open>ConfigReload::get_instance\<close>. The exit
  handler finds no workers, as none has been forked yet.
\<close>

datatype main_result = Assertion_failed | Exits int | Serving process

definition main_start ::
  "(nat \<Rightarrow> fork_result) \<Rightarrow> int \<Rightarrow> bool \<Rightarrow> bool \<Rightarrow> proxy_flags \<Rightarrow> main_result" where
  "main_start fork set_ret loads loaded fl =
     (if \<not> FLAGS_enable_reload fl then
        (if 1 = set_ret then Serving (main_server fork fl) else Assertion_failed)
      else if \<not> loads \<or> \<not> loaded then Exits (-10)
      else Serving (main_server fork fl))"

text \<open>
  In thread mode the process that \<open>main\<close> starts is the parent that has recorded its child, or the
  child that accepts connections with at least one thread.
\<close>

lemma main_start_serves:
  assumes "main_start fork set_ret loads loaded fl = Serving s" and "main_mode fl = RUN_THREAD"
  shows "ps_child_pid s = (case fork 0 of Fork_parent pid \<Rightarrow> {pid} | _ \<Rightarrow> {}) \<and>
    ps_accepts s = (if fork 0 = Fork_child then 1 else 0) \<and>
    (fork 0 = Fork_child \<longrightarrow> 1 \<le> ps_threads s)"
  using assms
  by (auto simp: main_start_def main_server_def server_run_def run_multi_thread_def tcp_server_new_def
      run_for_child_def server_start_accept_def start_signal_wait_def Let_def split: if_splits fork_result.split)

section \<open>The modules\<close>

text \<open>The objects \<open>main\<close> makes, by the variable and the loop indices they are made with.\<close>

datatype proxy_mod =
    Req_mod | Gen_fs_req_mod | Fs_fork_mod | Fs_join_mod
  | Fs_mod nat | Ps_fork_mod2 nat | Ps_join_mod2 nat | Ps_mod2 nat nat | Ps_backfill_mod2 nat nat
  | Gen_ps_req_mod | Ps_fork_mod | Ps_join_mod | Ps_mod nat | Ps_backfill_mod nat
  | If_rand_mod | Resp_mod | Rand_resp_mod | Empty_resp_mod | End_mod

text \<open>Their names; the longest fits the buffer of 128 characters that \<open>snprintf\<close> writes to.\<close>

fun mod_name :: "proxy_mod \<Rightarrow> string" where
  "mod_name Req_mod = ''req_mod''"
| "mod_name Gen_fs_req_mod = ''gen_fs_req_mod''"
| "mod_name Fs_fork_mod = ''fs_fork_mod''"
| "mod_name Fs_join_mod = ''fs_join_mod''"
| "mod_name (Fs_mod i) = ''fs_mod'' @ show_nat i"
| "mod_name (Ps_fork_mod2 i) = ''ps_fork_mod2_'' @ show_nat i"
| "mod_name (Ps_join_mod2 i) = ''ps_join_mod2_'' @ show_nat i"
| "mod_name (Ps_mod2 i j) = ''ps_mod2_'' @ show_nat i @ ''_'' @ show_nat j"
| "mod_name (Ps_backfill_mod2 i j) = ''ps_backfill_mod2_'' @ show_nat i @ ''_'' @ show_nat j"
| "mod_name Gen_ps_req_mod = ''gen_ps_req_mod''"
| "mod_name Ps_fork_mod = ''ps_fork_mod''"
| "mod_name Ps_join_mod = ''ps_join_mod''"
| "mod_name (Ps_mod i) = ''ps_mod_'' @ show_nat i"
| "mod_name (Ps_backfill_mod i) = ''ps_backfill_mod_'' @ show_nat i"
| "mod_name If_rand_mod = ''if_rand_mod''"
| "mod_name Resp_mod = ''resp_mod''"
| "mod_name Rand_resp_mod = ''rand_resp_mod''"
| "mod_name Empty_resp_mod = ''empty_resp_mod''"
| "mod_name End_mod = ''end_mod''"

text \<open>
  The application's classes: what each constructor makes of its arguments besides the name, the
  addresses \<open>new\<close> returns, and the module states of the application's headers. A client pool is
  passed by its number: 0 is \<open>fs_client_pool\<close>, 1 is \<open>ps_client_pool\<close>. \<open>int\<close> arguments for
  a \<open>uint16_t\<close> parameter are narrowed.
\<close>

record 'd proxy_classes =
  new_addr :: "proxy_mod \<Rightarrow> nat"
  ReqModule :: "'d module_class"
  GenFsReqModule :: "'d module_class"
  FsForkModule :: "u16 \<Rightarrow> 'd module_class"
  FsJoinModule :: "u16 \<Rightarrow> 'd module_class"
  FsModule :: "nat \<Rightarrow> nat \<Rightarrow> 'd module_class"
  PsForkModule2 :: "u16 \<Rightarrow> 'd module_class"
  PsJoinModule2 :: "u16 \<Rightarrow> 'd module_class"
  PsModule2 :: "nat \<Rightarrow> nat \<Rightarrow> nat \<Rightarrow> 'd module_class"
  PsBackfillModule2 :: "nat \<Rightarrow> nat \<Rightarrow> 'd module_class"
  GenPsReqModule :: "'d module_class"
  PsForkModule :: "u16 \<Rightarrow> 'd module_class"
  PsJoinModule :: "u16 \<Rightarrow> 'd module_class"
  PsModule :: "nat \<Rightarrow> nat \<Rightarrow> 'd module_class"
  PsBackfillModule :: "nat \<Rightarrow> 'd module_class"
  IfRandModule :: "'d module_class"
  RespModule :: "'d module_class"
  RandRespModule :: "'d module_class"
  EmptyRespModule :: "'d module_class"
  EndModule :: "'d module_class"
  Mod_req_succeed_to_fs :: ModState
  Mod_req_succeed_to_ps :: ModState
  Mod_req_succeed_to_random :: ModState
  Mod_not_rand_resp :: ModState
  Mod_rand_resp :: ModState

fun proxy_class :: "'d proxy_classes \<Rightarrow> proxy_flags \<Rightarrow> proxy_mod \<Rightarrow> 'd module_class" where
  "proxy_class app fl Req_mod = ReqModule app"
| "proxy_class app fl Gen_fs_req_mod = GenFsReqModule app"
| "proxy_class app fl Fs_fork_mod = FsForkModule app (word_of_int (MAX_FS_FORK_NUM fl))"
| "proxy_class app fl Fs_join_mod = FsJoinModule app (word_of_int (MAX_FS_FORK_NUM fl))"
| "proxy_class app fl (Fs_mod i) = FsModule app 0 i"
| "proxy_class app fl (Ps_fork_mod2 i) = PsForkModule2 app (word_of_int (MAX_PS2_FORK_NUM fl))"
| "proxy_class app fl (Ps_join_mod2 i) = PsJoinModule2 app (word_of_int (MAX_PS2_FORK_NUM fl))"
| "proxy_class app fl (Ps_mod2 i j) = PsModule2 app 1 i j"
| "proxy_class app fl (Ps_backfill_mod2 i j) = PsBackfillModule2 app i j"
| "proxy_class app fl Gen_ps_req_mod = GenPsReqModule app"
| "proxy_class app fl Ps_fork_mod = PsForkModule app (word_of_int (MAX_PS_FORK_NUM fl))"
| "proxy_class app fl Ps_join_mod = PsJoinModule app (word_of_int (MAX_PS_FORK_NUM fl))"
| "proxy_class app fl (Ps_mod i) = PsModule app 1 i"
| "proxy_class app fl (Ps_backfill_mod i) = PsBackfillModule app i"
| "proxy_class app fl If_rand_mod = IfRandModule app"
| "proxy_class app fl Resp_mod = RespModule app"
| "proxy_class app fl Rand_resp_mod = RandRespModule app"
| "proxy_class app fl Empty_resp_mod = EmptyRespModule app"
| "proxy_class app fl End_mod = EndModule app"

definition proxy_module :: "'d proxy_classes \<Rightarrow> proxy_flags \<Rightarrow> proxy_mod \<Rightarrow> 'd module" where
  "proxy_module app fl m =
     \<lparr> md_addr = new_addr app m, md_name = mod_name m, md_class = proxy_class app fl m \<rparr>"

section \<open>The wiring\<close>

text \<open>The calls on the machine, in the order of \<open>main\<close>.\<close>

datatype wiring = Add proxy_mod | Link proxy_mod proxy_mod ModState

definition ps2_wiring :: "nat \<Rightarrow> nat \<Rightarrow> wiring list" where
  "ps2_wiring i j =
     [Add (Ps_mod2 i j),
      Link (Ps_fork_mod2 i) (Ps_mod2 i j) (Mod_Fork0 + word_of_nat j),
      Link (Ps_mod2 i j) (Ps_join_mod2 i) Mod_Succeed,
      Add (Ps_backfill_mod2 i j),
      Link (Ps_mod2 i j) (Ps_backfill_mod2 i j) Mod_else,
      Link (Ps_backfill_mod2 i j) (Ps_join_mod2 i) Mod_Succeed,
      Link (Ps_backfill_mod2 i j) (Ps_join_mod2 i) Mod_else]"

definition fs_wiring :: "proxy_flags \<Rightarrow> nat \<Rightarrow> wiring list" where
  "fs_wiring fl i =
     [Add (Fs_mod i),
      Link Fs_fork_mod (Fs_mod i) (Mod_Fork0 + word_of_nat i),
      Add (Ps_fork_mod2 i),
      Link (Fs_mod i) (Ps_fork_mod2 i) Mod_Succeed,
      Add (Ps_join_mod2 i)] @
     concat (map (ps2_wiring i) [0 ..< nat (MAX_PS2_FORK_NUM fl)]) @
     [Link (Ps_join_mod2 i) Fs_join_mod Mod_Succeed,
      Link (Ps_join_mod2 i) Fs_join_mod Mod_else,
      Link (Fs_mod i) Fs_join_mod Mod_else]"

definition ps_wiring :: "nat \<Rightarrow> wiring list" where
  "ps_wiring i =
     [Add (Ps_mod i),
      Link Ps_fork_mod (Ps_mod i) (Mod_Fork0 + word_of_nat i),
      Add (Ps_backfill_mod i),
      Link (Ps_mod i) Ps_join_mod Mod_Succeed,
      Link (Ps_mod i) (Ps_backfill_mod i) Mod_else,
      Link (Ps_backfill_mod i) Ps_join_mod Mod_Succeed,
      Link (Ps_backfill_mod i) Ps_join_mod Mod_else]"

definition proxy_wiring :: "'d proxy_classes \<Rightarrow> proxy_flags \<Rightarrow> wiring list" where
  "proxy_wiring app fl =
     [Add Req_mod,
      Add Gen_fs_req_mod,
      Link Req_mod Gen_fs_req_mod (Mod_req_succeed_to_fs app),
      Add Fs_fork_mod,
      Link Gen_fs_req_mod Fs_fork_mod Mod_Succeed,
      Add Fs_join_mod] @
     concat (map (fs_wiring fl) [0 ..< nat (MAX_FS_FORK_NUM fl)]) @
     [Add Gen_ps_req_mod,
      Link Req_mod Gen_ps_req_mod (Mod_req_succeed_to_ps app),
      Add Ps_fork_mod,
      Link Gen_ps_req_mod Ps_fork_mod Mod_Succeed,
      Add Ps_join_mod] @
     concat (map ps_wiring [0 ..< nat (MAX_PS_FORK_NUM fl)]) @
     [Add If_rand_mod,
      Link Fs_join_mod If_rand_mod Mod_Succeed,
      Link Ps_join_mod If_rand_mod Mod_Succeed,
      Add Resp_mod,
      Link If_rand_mod Resp_mod (Mod_not_rand_resp app),
      Add Rand_resp_mod,
      Link If_rand_mod Rand_resp_mod (Mod_rand_resp app),
      Link Req_mod Rand_resp_mod (Mod_req_succeed_to_random app),
      Add Empty_resp_mod,
      Link Fs_join_mod Empty_resp_mod Mod_else,
      Link Ps_join_mod Empty_resp_mod Mod_else,
      Add End_mod,
      Link Resp_mod End_mod Mod_Succeed,
      Link Resp_mod End_mod Mod_else,
      Link Rand_resp_mod End_mod Mod_Succeed,
      Link Rand_resp_mod End_mod Mod_else,
      Link Empty_resp_mod End_mod Mod_Succeed,
      Link Empty_resp_mod End_mod Mod_else,
      Link Req_mod End_mod Mod_else,
      Link Gen_fs_req_mod Empty_resp_mod Mod_else,
      Link Gen_ps_req_mod Empty_resp_mod Mod_else]"

fun wire :: "'d proxy_classes \<Rightarrow> proxy_flags \<Rightarrow> wiring \<Rightarrow> 'd fsm \<Rightarrow> 'd fsm" where
  "wire app fl (Add m) f = add_module (proxy_module app fl m) f"
| "wire app fl (Link a b s) f = link_module (proxy_module app fl a) (proxy_module app fl b) s f"

definition proxy_fsm :: "'d proxy_classes \<Rightarrow> proxy_flags \<Rightarrow> 'd fsm" where
  "proxy_fsm app fl =
     set_end_module (proxy_module app fl End_mod)
       (set_start_module (proxy_module app fl Req_mod)
         (fold (wire app fl) (proxy_wiring app fl) fsm_empty))"

section \<open>Names\<close>

lemma underscore_not_digit [simp]: "\<not> is_digit CHR ''_''"
  by (simp add: is_digit_def)

lemma mod_name_inject [simp]: "mod_name m = mod_name m' \<longleftrightarrow> m = m'"
  by (cases m; cases m') (auto simp: show_nat_sep_inject)

lemma inj_mod_name: "inj mod_name"
  by (simp add: inj_def)

lemma inv_mod_name [simp]: "inv mod_name (mod_name m) = m"
  by (simp add: inv_f_f inj_mod_name)

section \<open>The transition table of the proxy\<close>

text \<open>The links a list of calls makes from a module, in order.\<close>

fun out_links :: "proxy_mod \<Rightarrow> wiring list \<Rightarrow> (ModState \<times> proxy_mod) list" where
  "out_links m [] = []"
| "out_links m (Add a # ws) = out_links m ws"
| "out_links m (Link a b s # ws) = (if a = m then [(s, b)] else []) @ out_links m ws"

lemma out_links_append [simp]: "out_links m (ws @ vs) = out_links m ws @ out_links m vs"
  by (induction m ws rule: out_links.induct) auto

lemma out_links_concat: "out_links m (concat (map g xs)) = concat (map (\<lambda>x. out_links m (g x)) xs)"
  by (induction xs) auto

text \<open>The table that a sequence of calls builds: the first link for a state is in force.\<close>

lemma wire_link_of:
  "link_of (fold (wire app fl) ws f) (mod_name m) s =
     (case link_of f (mod_name m) s of
        Some t \<Rightarrow> Some t
      | None \<Rightarrow> map_option mod_name (map_of (out_links m ws) s))"
proof (induction ws arbitrary: f)
  case Nil
  then show ?case by (simp split: option.split)
next
  case (Cons x ws)
  then show ?case
    by (cases x) (auto simp: link_module_link_of proxy_module_def split: option.split)
qed

lemma wire_link_of_name:
  "link_of (fold (wire app fl) ws f) n s = Some t \<Longrightarrow> link_of f n s = None \<Longrightarrow> \<exists>m. n = mod_name m"
proof (induction ws arbitrary: f)
  case (Cons x ws)
  show ?case
  proof (cases "link_of (wire app fl x f) n s")
    case None
    with Cons show ?thesis by simp
  next
    case (Some u)
    with Cons.prems(2) show ?thesis
      by (cases x) (auto simp: link_module_link_of proxy_module_def split: if_splits)
  qed
qed simp

lemma concat_if_single:
  "concat (map (\<lambda>k. if k = i then xs k else []) [0 ..< n]) = (if i < n then xs i else [])"
  by (induction n) auto

lemma concat_if_guard:
  "concat (map (\<lambda>k. if P \<and> k = i then xs k else []) [0 ..< n]) = (if P \<and> i < n then xs i else [])"
  by (induction n) auto

lemma concat_if_const:
  "concat (map (\<lambda>k. if P then xs k else []) ks) = (if P then concat (map xs ks) else [])"
  by simp

lemma concat_nils [simp]: "concat (map (\<lambda>k. []) ks) = []"
  by (induction ks) auto

lemma out_ps2_wiring:
  "out_links m (ps2_wiring i j) =
     (case m of
        Ps_fork_mod2 k \<Rightarrow> if k = i then [(Mod_Fork0 + word_of_nat j, Ps_mod2 i j)] else []
      | Ps_mod2 k l \<Rightarrow>
          if k = i \<and> j = l then [(Mod_Succeed, Ps_join_mod2 i), (Mod_else, Ps_backfill_mod2 i j)] else []
      | Ps_backfill_mod2 k l \<Rightarrow>
          if k = i \<and> j = l then [(Mod_Succeed, Ps_join_mod2 i), (Mod_else, Ps_join_mod2 i)] else []
      | _ \<Rightarrow> [])"
  by (cases m) (auto simp: ps2_wiring_def)

text \<open>The links of fork branches.\<close>

definition branches :: "(nat \<Rightarrow> proxy_mod) \<Rightarrow> int \<Rightarrow> (ModState \<times> proxy_mod) list" where
  "branches b k = map (\<lambda>j. (Mod_Fork0 + word_of_nat j, b j)) [0 ..< nat k]"

lemma concat_singletons: "concat (map (\<lambda>j. [g j]) ks) = map g ks"
  by (induction ks) auto

lemma out_fs_wiring:
  "out_links m (fs_wiring fl i) =
     (case m of
        Fs_fork_mod \<Rightarrow> [(Mod_Fork0 + word_of_nat i, Fs_mod i)]
      | Fs_mod k \<Rightarrow> if i = k then [(Mod_Succeed, Ps_fork_mod2 i), (Mod_else, Fs_join_mod)] else []
      | Ps_fork_mod2 k \<Rightarrow> if i = k then branches (Ps_mod2 i) (MAX_PS2_FORK_NUM fl) else []
      | Ps_join_mod2 k \<Rightarrow> if i = k then [(Mod_Succeed, Fs_join_mod), (Mod_else, Fs_join_mod)] else []
      | Ps_mod2 k l \<Rightarrow>
          if i = k then
            (if l < nat (MAX_PS2_FORK_NUM fl)
             then [(Mod_Succeed, Ps_join_mod2 i), (Mod_else, Ps_backfill_mod2 i l)] else [])
          else []
      | Ps_backfill_mod2 k l \<Rightarrow>
          if i = k then
            (if l < nat (MAX_PS2_FORK_NUM fl)
             then [(Mod_Succeed, Ps_join_mod2 i), (Mod_else, Ps_join_mod2 i)] else [])
          else []
      | _ \<Rightarrow> [])"
  by (cases m)
    (auto simp: fs_wiring_def out_links_concat out_ps2_wiring branches_def concat_singletons concat_if_guard
      concat_if_single)

lemma out_ps_wiring:
  "out_links m (ps_wiring i) =
     (case m of
        Ps_fork_mod \<Rightarrow> [(Mod_Fork0 + word_of_nat i, Ps_mod i)]
      | Ps_mod k \<Rightarrow> if i = k then [(Mod_Succeed, Ps_join_mod), (Mod_else, Ps_backfill_mod i)] else []
      | Ps_backfill_mod k \<Rightarrow> if i = k then [(Mod_Succeed, Ps_join_mod), (Mod_else, Ps_join_mod)] else []
      | _ \<Rightarrow> [])"
  by (cases m) (auto simp: ps_wiring_def)

text \<open>The modules that are made under given flags.\<close>

fun in_proxy :: "proxy_flags \<Rightarrow> proxy_mod \<Rightarrow> bool" where
  "in_proxy fl (Fs_mod i) \<longleftrightarrow> i < nat (MAX_FS_FORK_NUM fl)"
| "in_proxy fl (Ps_fork_mod2 i) \<longleftrightarrow> i < nat (MAX_FS_FORK_NUM fl)"
| "in_proxy fl (Ps_join_mod2 i) \<longleftrightarrow> i < nat (MAX_FS_FORK_NUM fl)"
| "in_proxy fl (Ps_mod2 i j) \<longleftrightarrow> i < nat (MAX_FS_FORK_NUM fl) \<and> j < nat (MAX_PS2_FORK_NUM fl)"
| "in_proxy fl (Ps_backfill_mod2 i j) \<longleftrightarrow> i < nat (MAX_FS_FORK_NUM fl) \<and> j < nat (MAX_PS2_FORK_NUM fl)"
| "in_proxy fl (Ps_mod i) \<longleftrightarrow> i < nat (MAX_PS_FORK_NUM fl)"
| "in_proxy fl (Ps_backfill_mod i) \<longleftrightarrow> i < nat (MAX_PS_FORK_NUM fl)"
| "in_proxy fl _ \<longleftrightarrow> True"

text \<open>The links of every module of the proxy.\<close>

fun proxy_links :: "'d proxy_classes \<Rightarrow> proxy_flags \<Rightarrow> proxy_mod \<Rightarrow> (ModState \<times> proxy_mod) list" where
  "proxy_links app fl Req_mod =
     [(Mod_req_succeed_to_fs app, Gen_fs_req_mod), (Mod_req_succeed_to_ps app, Gen_ps_req_mod),
      (Mod_req_succeed_to_random app, Rand_resp_mod), (Mod_else, End_mod)]"
| "proxy_links app fl Gen_fs_req_mod = [(Mod_Succeed, Fs_fork_mod), (Mod_else, Empty_resp_mod)]"
| "proxy_links app fl Fs_fork_mod = branches Fs_mod (MAX_FS_FORK_NUM fl)"
| "proxy_links app fl (Fs_mod i) = [(Mod_Succeed, Ps_fork_mod2 i), (Mod_else, Fs_join_mod)]"
| "proxy_links app fl (Ps_fork_mod2 i) = branches (Ps_mod2 i) (MAX_PS2_FORK_NUM fl)"
| "proxy_links app fl (Ps_mod2 i j) = [(Mod_Succeed, Ps_join_mod2 i), (Mod_else, Ps_backfill_mod2 i j)]"
| "proxy_links app fl (Ps_backfill_mod2 i j) = [(Mod_Succeed, Ps_join_mod2 i), (Mod_else, Ps_join_mod2 i)]"
| "proxy_links app fl (Ps_join_mod2 i) = [(Mod_Succeed, Fs_join_mod), (Mod_else, Fs_join_mod)]"
| "proxy_links app fl Fs_join_mod = [(Mod_Succeed, If_rand_mod), (Mod_else, Empty_resp_mod)]"
| "proxy_links app fl Gen_ps_req_mod = [(Mod_Succeed, Ps_fork_mod), (Mod_else, Empty_resp_mod)]"
| "proxy_links app fl Ps_fork_mod = branches Ps_mod (MAX_PS_FORK_NUM fl)"
| "proxy_links app fl (Ps_mod i) = [(Mod_Succeed, Ps_join_mod), (Mod_else, Ps_backfill_mod i)]"
| "proxy_links app fl (Ps_backfill_mod i) = [(Mod_Succeed, Ps_join_mod), (Mod_else, Ps_join_mod)]"
| "proxy_links app fl Ps_join_mod = [(Mod_Succeed, If_rand_mod), (Mod_else, Empty_resp_mod)]"
| "proxy_links app fl If_rand_mod =
     [(Mod_not_rand_resp app, Resp_mod), (Mod_rand_resp app, Rand_resp_mod)]"
| "proxy_links app fl End_mod = []"
| "proxy_links app fl m = [(Mod_Succeed, End_mod), (Mod_else, End_mod)]"

lemma out_proxy_wiring:
  "out_links m (proxy_wiring app fl) = (if in_proxy fl m then proxy_links app fl m else [])"
  by (cases m)
    (simp_all add: proxy_wiring_def out_links_concat out_fs_wiring out_ps_wiring concat_if_single
      concat_singletons branches_def)

section \<open>The registry of the proxy\<close>

lemma wire_find:
  "sm_find (fsm_mod_map (fold (wire app fl) ws f)) (mod_name m) =
     (case sm_find (fsm_mod_map f) (mod_name m) of
        Some p \<Rightarrow> Some p
      | None \<Rightarrow> if Add m \<in> set ws then Some (Some (proxy_module app fl m)) else None)"
proof (induction ws arbitrary: f)
  case Nil
  then show ?case by (simp split: option.split)
next
  case (Cons x ws)
  then show ?case
    by (cases x) (auto simp: add_module_map sm.find_ins proxy_module_def split: option.split)
qed

lemma wire_find_name:
  "sm_find (fsm_mod_map (fold (wire app fl) ws f)) n = Some p \<Longrightarrow> sm_find (fsm_mod_map f) n = None \<Longrightarrow>
     \<exists>m. n = mod_name m"
proof (induction ws arbitrary: f)
  case (Cons x ws)
  show ?case
  proof (cases "sm_find (fsm_mod_map (wire app fl x f)) n")
    case None
    with Cons show ?thesis by simp
  next
    case (Some u)
    with Cons.prems(2) show ?thesis
      by (cases x) (auto simp: add_module_map sm.find_ins proxy_module_def split: if_splits)
  qed
qed simp

lemma wire_registry:
  "registry_ok (fsm_mod_map f) \<Longrightarrow> registry_ok (fsm_mod_map (fold (wire app fl) ws f))"
proof (induction ws arbitrary: f)
  case (Cons x ws)
  then show ?case by (cases x) (simp_all add: add_module_registry)
qed simp

lemma proxy_registry: "registry_ok (fsm_mod_map (proxy_fsm app fl))"
  by (simp add: proxy_fsm_def wire_registry registry_ok_empty)

lemma added_ps2: "Add m \<in> set (ps2_wiring i j) \<longleftrightarrow> m = Ps_mod2 i j \<or> m = Ps_backfill_mod2 i j"
  by (auto simp: ps2_wiring_def)

lemma added_ps: "Add m \<in> set (ps_wiring i) \<longleftrightarrow> m = Ps_mod i \<or> m = Ps_backfill_mod i"
  by (auto simp: ps_wiring_def)

lemma added_fs:
  "Add m \<in> set (fs_wiring fl i) \<longleftrightarrow>
     m \<in> {Fs_mod i, Ps_fork_mod2 i, Ps_join_mod2 i} \<or>
     (\<exists>j < nat (MAX_PS2_FORK_NUM fl). m = Ps_mod2 i j \<or> m = Ps_backfill_mod2 i j)"
  by (auto simp: fs_wiring_def added_ps2)

lemma added_proxy: "Add m \<in> set (proxy_wiring app fl) \<longleftrightarrow> in_proxy fl m"
  by (cases m) (auto simp: proxy_wiring_def added_fs added_ps)

lemma proxy_find:
  "sm_find (fsm_mod_map (proxy_fsm app fl)) (mod_name m) =
     (if in_proxy fl m then Some (Some (proxy_module app fl m)) else None)"
  by (simp add: proxy_fsm_def wire_find added_proxy fsm_empty_def sm_find_empty)

lemma proxy_find_name:
  "sm_find (fsm_mod_map (proxy_fsm app fl)) n = Some p \<Longrightarrow> \<exists>m. n = mod_name m"
  by (auto simp: proxy_fsm_def fsm_empty_def sm_find_empty dest: wire_find_name)

section \<open>Routes\<close>

lemma proxy_link_of:
  "link_of (proxy_fsm app fl) (mod_name m) s =
     (if in_proxy fl m then map_option mod_name (map_of (proxy_links app fl m) s) else None)"
  by (simp add: proxy_fsm_def wire_link_of out_proxy_wiring)

lemma proxy_link_of_name: "link_of (proxy_fsm app fl) n s = Some t \<Longrightarrow> \<exists>m. n = mod_name m"
  by (auto simp: proxy_fsm_def dest: wire_link_of_name)

text \<open>
  The machine as the comment above \<open>main\<close> draws it, with the ways around a failure: where the
  interpreter goes from a module that ends in a state.
\<close>

definition branch :: "(nat \<Rightarrow> proxy_mod) \<Rightarrow> int \<Rightarrow> ModState \<Rightarrow> proxy_mod option" where
  "branch b k s = (let i = unat (s - Mod_Fork0) in if i < nat k then Some (b i) else None)"

fun proxy_route :: "'d proxy_classes \<Rightarrow> proxy_flags \<Rightarrow> proxy_mod \<Rightarrow> ModState \<Rightarrow> proxy_mod option" where
  "proxy_route app fl Req_mod s =
     Some (if s = Mod_req_succeed_to_fs app then Gen_fs_req_mod
           else if s = Mod_req_succeed_to_ps app then Gen_ps_req_mod
           else if s = Mod_req_succeed_to_random app then Rand_resp_mod else End_mod)"
| "proxy_route app fl Gen_fs_req_mod s = Some (if s = Mod_Succeed then Fs_fork_mod else Empty_resp_mod)"
| "proxy_route app fl Fs_fork_mod s = branch Fs_mod (MAX_FS_FORK_NUM fl) s"
| "proxy_route app fl (Fs_mod i) s = Some (if s = Mod_Succeed then Ps_fork_mod2 i else Fs_join_mod)"
| "proxy_route app fl (Ps_fork_mod2 i) s = branch (Ps_mod2 i) (MAX_PS2_FORK_NUM fl) s"
| "proxy_route app fl (Ps_mod2 i j) s = Some (if s = Mod_Succeed then Ps_join_mod2 i else Ps_backfill_mod2 i j)"
| "proxy_route app fl (Ps_backfill_mod2 i j) s = Some (Ps_join_mod2 i)"
| "proxy_route app fl (Ps_join_mod2 i) s = Some Fs_join_mod"
| "proxy_route app fl Fs_join_mod s = Some (if s = Mod_Succeed then If_rand_mod else Empty_resp_mod)"
| "proxy_route app fl Gen_ps_req_mod s = Some (if s = Mod_Succeed then Ps_fork_mod else Empty_resp_mod)"
| "proxy_route app fl Ps_fork_mod s = branch Ps_mod (MAX_PS_FORK_NUM fl) s"
| "proxy_route app fl (Ps_mod i) s = Some (if s = Mod_Succeed then Ps_join_mod else Ps_backfill_mod i)"
| "proxy_route app fl (Ps_backfill_mod i) s = Some Ps_join_mod"
| "proxy_route app fl Ps_join_mod s = Some (if s = Mod_Succeed then If_rand_mod else Empty_resp_mod)"
| "proxy_route app fl If_rand_mod s =
     (if s = Mod_not_rand_resp app then Some Resp_mod
      else if s = Mod_rand_resp app then Some Rand_resp_mod else None)"
| "proxy_route app fl End_mod s = None"
| "proxy_route app fl m s = Some End_mod"

text \<open>
  What is asked of the application: its own states are not the framework's \<open>Mod_else\<close>, and
  the numbers of branches fit the \<open>uint16_t\<close> of the fork modules (a negative number is no branch), and
  their product does not overflow the \<open>int\<close> it is computed in.
\<close>

definition states_ok :: "'d proxy_classes \<Rightarrow> bool" where
  "states_ok app \<longleftrightarrow>
     Mod_else \<notin> {Mod_req_succeed_to_fs app, Mod_req_succeed_to_ps app, Mod_req_succeed_to_random app,
                  Mod_not_rand_resp app, Mod_rand_resp app}"

definition flags_ok :: "proxy_flags \<Rightarrow> bool" where
  "flags_ok fl \<longleftrightarrow>
     MAX_FS_FORK_NUM fl < 2 ^ 16 \<and> MAX_PS2_FORK_NUM fl < 2 ^ 16 \<and> MAX_PS_FORK_NUM fl < 2 ^ 16 \<and>
     - (2 ^ 31) \<le> MAX_PS_FORK_NUM fl"

lemma fork_state_index:
  assumes "j < 2 ^ 16"
  shows "s = Mod_Fork0 + word_of_nat j \<longleftrightarrow> j = unat (s - Mod_Fork0)"
proof
  assume s: "s = Mod_Fork0 + word_of_nat j"
  have "unat (word_of_nat j :: ModState) = j"
    using assms by (simp add: unsigned_of_nat take_bit_nat_eq_self)
  with s show "j = unat (s - Mod_Fork0)" by simp
qed (simp add: word_unat_eq_iff)

lemma branches_lookup:
  assumes "k < 2 ^ 16"
  shows "map_of (branches b k) s = branch b k s"
proof -
  define i where "i = unat (s - Mod_Fork0)"
  have "map_of (map (\<lambda>j. (Mod_Fork0 + word_of_nat j, b j)) [0 ..< n]) s =
      (if i < n then Some (b i) else None)" if "n < 2 ^ 16" for n
    using that
  proof (induction n)
    case (Suc n)
    then have "s = Mod_Fork0 + word_of_nat n \<longleftrightarrow> i = n"
      using fork_state_index [of n s] by (auto simp: i_def)
    with Suc show ?case by (cases "i = n") (simp_all add: map_add_def less_Suc_eq)
  qed simp
  moreover have "nat k < 2 ^ 16" using assms by simp
  ultimately show ?thesis by (simp add: branches_def branch_def i_def)
qed

lemma branch_else: "k < 2 ^ 16 \<Longrightarrow> branch b k Mod_else = None"
  by (simp add: branch_def mod_state_defs)

lemma links_route:
  assumes "states_ok app" and "flags_ok fl"
  shows "(case map_of (proxy_links app fl m) s of
      Some t \<Rightarrow> Some t | None \<Rightarrow> map_of (proxy_links app fl m) Mod_else) = proxy_route app fl m s"
  using assms
  by (cases m) (simp_all add: branches_lookup branch_else states_ok_def flags_ok_def
      mod_states_distinct [symmetric] split: option.split)

lemma proxy_route_link:
  assumes "states_ok app" and "flags_ok fl" and "in_proxy fl m"
  shows "route (proxy_fsm app fl) (mod_name m) s = map_option mod_name (proxy_route app fl m s)"
  unfolding links_route [OF assms(1,2), of m s, symmetric]
  using assms(3) by (simp add: route_def proxy_link_of split: option.split)

text \<open>
  C14: The machine that \<open>main\<close> wires, module by module and link by link in its three nested loops, is the
  one of the table \<open>proxy_route\<close>: from every module it makes, for every state the module may end in, the
  interpreter goes where the table says (through the branches of a fork by their number; from a back-end
  that succeeds to the join and otherwise to the back-fill module; from a join that succeeds to
  \<open>IfRandModule\<close> and otherwise to the empty response), and there are no other modules and no other links.
  This holds when none of the application's five own states is \<open>Mod_else\<close>, for all numbers of shards and
  sub-models with the three numbers of branches below \<open>2^16\<close> and their product within an \<open>int\<close>. The
  comment above \<open>main\<close> draws a different machine.
\<close>

theorem proxy_routes:
  assumes "states_ok app" and "flags_ok fl"
  shows "(route (proxy_fsm app fl) n s =
      (if \<exists>m. in_proxy fl m \<and> n = mod_name m
       then map_option mod_name (proxy_route app fl (inv mod_name n) s) else None)) \<and>
    (sm_find (fsm_mod_map (proxy_fsm app fl)) n =
      (if \<exists>m. in_proxy fl m \<and> n = mod_name m
       then Some (Some (proxy_module app fl (inv mod_name n))) else None))"
proof (cases "\<exists>m. in_proxy fl m \<and> n = mod_name m")
  case True
  then obtain m where m: "in_proxy fl m" "n = mod_name m" by blast
  with True proxy_route_link [OF assms m(1), of s] show ?thesis by (simp add: proxy_find)
next
  case False
  then have "link_of (proxy_fsm app fl) n t = None" for t
    using proxy_link_of_name [of app fl n t]
    by (cases "link_of (proxy_fsm app fl) n t") (auto simp: proxy_link_of split: if_splits)
  moreover have "sm_find (fsm_mod_map (proxy_fsm app fl)) n = None"
    using False proxy_find_name [of app fl n]
    by (cases "sm_find (fsm_mod_map (proxy_fsm app fl)) n") (auto simp: proxy_find split: if_splits)
  ultimately show ?thesis using False by (auto simp: route_def)
qed

end
