(* ===== verification/Proxy_Data.thy ===== *)
theory Proxy_Data
  imports Prelude "HOL-Library.Signed_Division"
begin

text \<open>
  The application data of the example: \<open>Data\<close> with its accessors and \<open>reset\<close>
  (example1/Data.h and Data.cc), \<open>elapsed_ms_from_now\<close>, the accessor macros through which a
  module sees \<open>Data\<close> (macro_define/ModuleDataDefines.h), \<open>FsmData\<close> that owns it
  (example1/FsmData.h) and the factory (example1/DataFactory.h). The element type of
  \<open>shared_string_array\<close>, declared in a header that is not part of the repository, is the type
  parameter \<open>'s\<close>; such an array may be null.
\<close>

section \<open>\<open>Data\<close>\<close>

type_synonym c_int = "32 word"

record timeval =
  tv_sec :: int
  tv_usec :: int

record 's data =
  ad_req_ver :: u8
  use_feature_server :: bool
  head_len :: c_int
  origin_model_id :: c_int
  model_id :: c_int
  random_percent :: c_int
  is_random_model_id :: bool
  do_random :: bool
  multi_model :: bool
  pos_id :: c_int
  sku_num :: c_int
  ad_req_body_size :: c_int
  user_pin_hash :: c_int
  ad_req :: "'s option"
  fs_req_sku_nums :: "c_int list"
  ps_req_sku_nums :: "c_int list"
  shard_fs_num :: c_int
  shard_fs :: bool
  split_time :: c_int
  reply_len :: c_int
  fs_req_lens :: "u32 list"
  fs_start_time :: timeval
  ads_start_time :: timeval
  fs_res_time :: "c_int list"
  fs_reqs :: "'s option list"
  fs_resp_sizes :: "u32 list"
  fs_resp_compressed_vec :: "bool list"
  fs_resps :: "'s option list"
  sub_model_id_list :: "c_int list"
  ps_req_compressed :: bool
  ps_reqs :: "'s option list"
  shard_ps_num :: c_int
  shard_ps :: bool
  ps_req_lens :: "u32 list"
  ps_start_time :: "timeval list"
  ps_res_time :: "c_int list"
  ps_resps :: "'s option list"
  ps_resp_sizes :: "u32 list"

text \<open>\<open>new Data()\<close>: the class has no constructor, so every member is zero, null or empty.\<close>

definition data_new :: "'s data" where
  "data_new = \<lparr>
     ad_req_ver = 0, use_feature_server = False, head_len = 0, origin_model_id = 0, model_id = 0,
     random_percent = 0, is_random_model_id = False, do_random = False, multi_model = False,
     pos_id = 0, sku_num = 0, ad_req_body_size = 0, user_pin_hash = 0, ad_req = None,
     fs_req_sku_nums = [], ps_req_sku_nums = [], shard_fs_num = 0, shard_fs = False, split_time = 0,
     reply_len = 0, fs_req_lens = [], fs_start_time = \<lparr> tv_sec = 0, tv_usec = 0 \<rparr>,
     ads_start_time = \<lparr> tv_sec = 0, tv_usec = 0 \<rparr>, fs_res_time = [], fs_reqs = [],
     fs_resp_sizes = [], fs_resp_compressed_vec = [], fs_resps = [], sub_model_id_list = [],
     ps_req_compressed = False, ps_reqs = [], shard_ps_num = 0, shard_ps = False, ps_req_lens = [],
     ps_start_time = [], ps_res_time = [], ps_resps = [], ps_resp_sizes = [] \<rparr>"

text \<open>\<open>Data::reset\<close>, assignment by assignment.\<close>

definition data_reset :: "'s data \<Rightarrow> 's data" where
  "data_reset d = d\<lparr>
     ad_req_ver := 0,
     use_feature_server := False,
     head_len := 0,
     origin_model_id := 0,
     model_id := 0,
     random_percent := 0,
     is_random_model_id := False,
     do_random := False,
     multi_model := False,
     pos_id := 0,
     sku_num := 0,
     reply_len := 0,
     ad_req_body_size := 0,
     user_pin_hash := 0,
     ad_req := None,
     ps_req_sku_nums := [],
     fs_req_sku_nums := [],
     shard_fs_num := 0,
     shard_fs := False,
     fs_req_lens := [],
     fs_reqs := [],
     fs_resp_sizes := [],
     fs_resp_compressed_vec := [],
     fs_resps := [],
     sub_model_id_list := [],
     ps_req_compressed := False,
     ps_reqs := [],
     shard_ps_num := 0,
     shard_ps := False,
     split_time := 0,
     fs_res_time := [],
     ps_start_time := [],
     ps_res_time := [],
     ps_req_lens := [],
     ps_resps := [],
     ps_resp_sizes := []\<rparr>"

text \<open>
  \<open>elapsed_ms_from_now\<close>: \<open>tv\<close> is what \<open>gettimeofday\<close> stored. The arithmetic is on 64-bit
  \<open>long\<close>, the division truncates, and the result is narrowed to \<open>int\<close>.
\<close>

definition elapsed_ms_from_now :: "timeval \<Rightarrow> timeval \<Rightarrow> c_int" where
  "elapsed_ms_from_now tv time =
     word_of_int ((tv_sec tv - tv_sec time) * 1000 + (tv_usec tv - tv_usec time) sdiv 1000)"

section \<open>Accessors\<close>

text \<open>
  A member with the accessors that \<open>DEFINE_PRIM_VAR\<close> or \<open>DEFINE_OBJ_VAR\<close> declares for it:
  \<open>get_v\<close> or \<open>get_const_v\<close> reads it, \<open>set_v\<close> assigns it; writing through the reference
  that \<open>get_mutable_v\<close> returns changes it in place.
\<close>

record ('d, 'v) member =
  get_var :: "'d \<Rightarrow> 'v"
  set_var :: "'v \<Rightarrow> 'd \<Rightarrow> 'd"

definition DEFINE_VAR :: "('d \<Rightarrow> 'v) \<Rightarrow> (('v \<Rightarrow> 'v) \<Rightarrow> 'd \<Rightarrow> 'd) \<Rightarrow> ('d, 'v) member" where
  "DEFINE_VAR v v_update = \<lparr> get_var = v, set_var = (\<lambda>x. v_update (\<lambda>_. x)) \<rparr>"

definition mutate_var :: "('d, 'v) member \<Rightarrow> ('v \<Rightarrow> 'v) \<Rightarrow> 'd \<Rightarrow> 'd" where
  "mutate_var m g d = set_var m (g (get_var m d)) d"

section \<open>\<open>FsmData\<close>\<close>

text \<open>The module data classes of the application, in the order \<open>FsmData\<close> declares them.\<close>

datatype module_view =
    ReqModuleData | GenFsReqModuleData | FsForkModuleData | FsModuleData | PsForkModule2Data
  | PsModule2Data | PsBackfillModule2Data | PsJoinModule2Data | FsJoinModuleData | GenPsReqModuleData
  | PsForkModuleData | PsModuleData | PsBackfillModuleData | PsJoinModuleData | RespModuleData
  | RandRespModuleData | IfRandModuleData | EmptyRespModuleData | EndModuleData

text \<open>
  \<open>fd_data\<close> is the object that \<open>data_\<close> points to, \<open>fd_mod_data\<close> tells which of the shared
  pointers to module data are set. Every module data object made by \<open>NEW_MODULE_DATA\<close> is
  constructed with \<open>data_\<close>, so all of them lead to that one object.
\<close>

record 's fsm_data =
  fd_data :: "'s data"
  fd_mod_data :: "module_view \<Rightarrow> bool"

definition NEW_MODULE_DATA :: "module_view \<Rightarrow> 's fsm_data \<Rightarrow> 's fsm_data" where
  "NEW_MODULE_DATA v fd = fd\<lparr>fd_mod_data := (fd_mod_data fd)(v := True)\<rparr>"

definition fsm_data_new :: "'s fsm_data" where
  "fsm_data_new = fold NEW_MODULE_DATA
     [ReqModuleData, GenFsReqModuleData, FsForkModuleData, FsModuleData, PsForkModule2Data,
      PsModule2Data, PsBackfillModule2Data, PsJoinModule2Data, FsJoinModuleData, GenPsReqModuleData,
      PsForkModuleData, PsModuleData, PsBackfillModuleData, PsJoinModuleData, RespModuleData,
      RandRespModuleData, IfRandModuleData, EmptyRespModuleData, EndModuleData]
     \<lparr> fd_data = data_new, fd_mod_data = (\<lambda>_. False) \<rparr>"

definition fsm_data_reset :: "'s fsm_data \<Rightarrow> 's fsm_data" where
  "fsm_data_reset fd = fd\<lparr>fd_data := data_reset (fd_data fd)\<rparr>"

text \<open>\<open>DataFactory::create_data\<close>\<close>

definition create_data :: "'s fsm_data" where
  "create_data = fsm_data_new"

text \<open>\<open>get...ModuleData()\<close>, which \<open>DEFINE_MODULE_DATA\<close> declares: the raw pointer, which may be null.\<close>

definition DEFINE_MODULE_DATA :: "module_view \<Rightarrow> 's fsm_data \<Rightarrow> module_view option" where
  "DEFINE_MODULE_DATA v fd = (if fd_mod_data fd v then Some v else None)"

text \<open>The accessors of a module data class (macro_define/ModuleDataDefines.h), called through it.\<close>

definition view_get :: "('s data, 'v) member \<Rightarrow> module_view \<Rightarrow> 's fsm_data \<Rightarrow> 'v res" where
  "view_get m v fd = rbind (deref (DEFINE_MODULE_DATA v fd)) (\<lambda>_. Inr (get_var m (fd_data fd)))"

definition view_set :: "('s data, 'v) member \<Rightarrow> 'v \<Rightarrow> module_view \<Rightarrow> 's fsm_data \<Rightarrow> 's fsm_data res" where
  "view_set m x v fd =
     rbind (deref (DEFINE_MODULE_DATA v fd)) (\<lambda>_. Inr (fd\<lparr>fd_data := set_var m x (fd_data fd)\<rparr>))"

definition view_mutate ::
  "('s data, 'v) member \<Rightarrow> ('v \<Rightarrow> 'v) \<Rightarrow> module_view \<Rightarrow> 's fsm_data \<Rightarrow> 's fsm_data res" where
  "view_mutate m g v fd =
     rbind (deref (DEFINE_MODULE_DATA v fd)) (\<lambda>_. Inr (fd\<lparr>fd_data := mutate_var m g (fd_data fd)\<rparr>))"

section \<open>Properties\<close>

text \<open>
  C37: What \<open>Data::reset\<close> leaves: the state of a newly constructed object, except that the two time
  stamps \<open>fs_start_time_\<close> and \<open>ads_start_time_\<close> keep their values, since the method does not
  assign them. No other member depends on what was there before.
\<close>

theorem data_reset_spec:
  "data_reset d = data_new\<lparr>fs_start_time := fs_start_time d, ads_start_time := ads_start_time d\<rparr>"
  by (cases d) (simp add: data_reset_def data_new_def)

lemma data_reset_new: "data_reset data_new = data_new"
  by (simp add: data_reset_def data_new_def)

lemma smod_1000: "- 1000 < (x :: int) smod 1000" "(x :: int) smod 1000 < 1000"
  using smod_int_compares(1-4) [of x 1000] by (cases "0 \<le> x"; simp; linarith)+

lemma sint_c_int: "- (2 ^ 31) \<le> x \<Longrightarrow> x < 2 ^ 31 \<Longrightarrow> sint (word_of_int x :: c_int) = x"
  by (simp add: int_word_sint)

text \<open>
  \<open>elapsed_ms_from_now\<close> is less than one millisecond away from the time that has elapsed, in
  either direction, as long as that time is within the range of an \<open>int\<close> of milliseconds
  (about 24 days); microseconds that borrow from the seconds make no difference.
\<close>

lemma elapsed_ms_accurate:
  assumes "us = (tv_sec tv * 1000000 + tv_usec tv) - (tv_sec time * 1000000 + tv_usec time)"
    and "\<bar>us\<bar> < (2 ^ 31 - 1) * 1000"
  shows "\<bar>sint (elapsed_ms_from_now tv time) * 1000 - us\<bar> < 1000"
proof -
  let ?u = "tv_usec tv - tv_usec time"
  let ?ms = "(tv_sec tv - tv_sec time) * 1000 + ?u sdiv 1000"
  have ms: "?ms * 1000 = us - ?u smod 1000"
    using sdiv_mult_smod_eq [of ?u 1000] assms(1) by (simp add: algebra_simps)
  have b: "- 1000 < ?u smod 1000" "?u smod 1000 < 1000" by (rule smod_1000)+
  have "\<bar>?ms * 1000\<bar> < 2 ^ 31 * 1000" using ms b assms(2) by simp
  then have "- (2 ^ 31) < ?ms" "?ms < 2 ^ 31" by (simp_all add: abs_less_iff)
  then have "sint (word_of_int ?ms :: c_int) = ?ms"
    by (intro sint_c_int) simp_all
  then show ?thesis using ms b by (simp add: elapsed_ms_from_now_def abs_less_iff)
qed

lemma fsm_data_new_fields [simp]: "fd_data fsm_data_new = data_new" "fd_mod_data fsm_data_new v"
  by (simp_all add: fsm_data_new_def NEW_MODULE_DATA_def) (cases v; simp)

text \<open>
  The module data of a request are views of one \<open>Data\<close> object: \<open>FsmData\<close> sets all nineteen
  pointers, so no accessor dereferences a null; what one module stores in a member is what every
  other module reads there, whether by assignment or through a mutable reference, other members
  keep their values, and \<open>reset\<close> empties the object for all of them while the pointers stay.
\<close>

lemma views_share_data:
  assumes "\<And>x d. get_var m (set_var m x d) = x" and "\<And>x d. get_var m' (set_var m x d) = get_var m' d"
    and "fd_mod_data fd = fd_mod_data fsm_data_new"
  shows "\<exists>fd1 fd2. view_set m x v fd = Inr fd1 \<and> view_mutate m g v fd1 = Inr fd2 \<and>
     view_get m v' fd1 = Inr x \<and> view_get m v' fd2 = Inr (g x) \<and>
     view_get m' v' fd2 = view_get m' v fd \<and>
     view_get m' v' (fsm_data_reset fd2) = Inr (get_var m' (data_reset (fd_data fd2)))"
proof -
  have "fd_mod_data fd u" for u using assms(3) by simp
  with assms(1,2) show ?thesis
    by (simp add: view_set_def view_get_def view_mutate_def mutate_var_def fsm_data_reset_def DEFINE_MODULE_DATA_def)
qed

section \<open>Witnesses\<close>

theorem elapsed_ms_accurate_witness:
  "\<bar>sint (elapsed_ms_from_now \<lparr> tv_sec = 11, tv_usec = 100 \<rparr> \<lparr> tv_sec = 10, tv_usec = 999900 \<rparr>) * 1000 - 200\<bar> < 1000"
  by (rule elapsed_ms_accurate) simp_all

theorem views_share_data_witness:
  "\<exists>fd1 fd2. view_set (DEFINE_VAR model_id model_id_update) 7 ReqModuleData fsm_data_new = Inr fd1 \<and>
     view_mutate (DEFINE_VAR model_id model_id_update) (\<lambda>x. x + 1) ReqModuleData fd1 = Inr fd2 \<and>
     view_get (DEFINE_VAR model_id model_id_update) FsModuleData fd2 = Inr 8 \<and>
     view_get (DEFINE_VAR ps_req_lens ps_req_lens_update) FsModuleData fd2 = Inr []"
proof -
  let ?m = "DEFINE_VAR model_id model_id_update :: ('a data, c_int) member"
  let ?l = "DEFINE_VAR ps_req_lens ps_req_lens_update :: ('a data, u32 list) member"
  have "view_get ?l ReqModuleData fsm_data_new = Inr []"
    by (simp add: view_get_def DEFINE_VAR_def data_new_def DEFINE_MODULE_DATA_def)
  moreover obtain fd1 fd2 where "view_set ?m 7 ReqModuleData fsm_data_new = Inr fd1"
    "view_mutate ?m (\<lambda>x. x + 1) ReqModuleData fd1 = Inr fd2" "view_get ?m FsModuleData fd2 = Inr (7 + 1)"
    "view_get ?l FsModuleData fd2 = view_get ?l ReqModuleData fsm_data_new"
    using views_share_data [of ?m ?l fsm_data_new 7 ReqModuleData "\<lambda>x. x + 1" FsModuleData]
    by (auto simp: DEFINE_VAR_def)
  ultimately show ?thesis by (intro exI [of _ fd1] exI [of _ fd2]) simp
qed

end
