(* ===== verification/Proxy_Server.thy ===== *)
theory Proxy_Server
  imports Server_Safety Proxy_Machine Proxy_Data
begin

text \<open>
  The example application as a server: the state in which \<open>main\<close> (example1/main.cc) starts the
  event loop, with its machine, its data factory and its two client pools. The framework's
  theorems apply to it, for every application code behind the module classes.
\<close>

section \<open>The server that \<open>main\<close> starts\<close>

text \<open>
  \<open>hp\<close>, \<open>g\<close> and \<open>r\<close> are the memory clients will be made in, uninitialised memory, and
  what \<open>rand_r\<close> returns. The constructor of \<open>TcpClientPool\<close> is called with its default for
  \<open>times\<close>.
\<close>

definition proxy_world ::
  "'s fsm_data proxy_classes \<Rightarrow> proxy_flags \<Rightarrow> client_heap \<Rightarrow>
   (ctx_id \<Rightarrow> string \<Rightarrow> SocketEventState \<times> u16 \<times> bool) \<Rightarrow> (nat \<Rightarrow> u32) \<Rightarrow> 's fsm_data world" where
  "proxy_world app fl hp g r = start_accept (register_fsm_data_factory (Some create_data)
     \<lparr> w_fsm = proxy_fsm app fl, w_fsm_data_factory = None,
       w_fsm_data_reset = fsm_data_reset, w_contexts = Map.empty, w_next_ctx = 0, w_next_conn = 0,
       w_pools = (\<lambda>p. if p = 0 then pool_new (FLAGS_fs_check_time fl) 1000
                      else pool_new (FLAGS_ps_check_time fl) 1000),
       w_clients = hp, w_next_client = 0, w_pending = [], w_cancelled = [], w_garbage = g, w_rand = r, w_rand_pos = 0 \<rparr>)"

text \<open>
  \<open>get...ModuleData(context)\<close>, which \<open>BEGIN_CLASS\<close> (macro_define/ModuleDefines.h) gives to a module:
  the data of the context are an \<open>FsmData\<close>, and its member is asked for.
\<close>

definition BEGIN_CLASS :: "module_view \<Rightarrow> ctx_id \<Rightarrow> 's fsm_data world \<Rightarrow> module_view option res" where
  "BEGIN_CLASS v c w =
     rbind (get_ctx c w) (\<lambda>cx. rbind (deref (cx_data cx)) (\<lambda>fd. Inr (DEFINE_MODULE_DATA v fd)))"

lemma BEGIN_CLASS_not_null:
  assumes "w_contexts w c = Some cx" and "cx_data cx = Some fd" and "fd_mod_data fd = fd_mod_data create_data"
  shows "BEGIN_CLASS v c w = Inr (Some v)"
  using assms by (simp add: BEGIN_CLASS_def get_ctx_def DEFINE_MODULE_DATA_def create_data_def)

text \<open>
  What the application's classes must be: \<open>ReqModule\<close> a \<open>RequestModule\<close>, and no fork module
  may ask for more branches than it was constructed with.
\<close>

definition classes_ok :: "'d proxy_classes \<Rightarrow> proxy_flags \<Rightarrow> bool" where
  "classes_ok app fl \<longleftrightarrow>
     (\<exists>h. ReqModule app = RequestModule h) \<and>
     (\<forall>m k g. proxy_class app fl m = ForkModule k g \<longrightarrow> (\<forall>d. g d \<le> k))"

section \<open>It is well formed\<close>

text \<open>The length of the longest way to the end module.\<close>

fun mod_rank :: "proxy_mod \<Rightarrow> nat" where
  "mod_rank End_mod = 0"
| "mod_rank Resp_mod = 1" | "mod_rank Rand_resp_mod = 1" | "mod_rank Empty_resp_mod = 1"
| "mod_rank If_rand_mod = 2"
| "mod_rank Fs_join_mod = 3" | "mod_rank Ps_join_mod = 3"
| "mod_rank (Ps_join_mod2 i) = 4" | "mod_rank (Ps_backfill_mod i) = 4"
| "mod_rank (Ps_backfill_mod2 i j) = 5" | "mod_rank (Ps_mod i) = 5"
| "mod_rank (Ps_mod2 i j) = 6" | "mod_rank Ps_fork_mod = 6"
| "mod_rank (Ps_fork_mod2 i) = 7" | "mod_rank Gen_ps_req_mod = 7"
| "mod_rank (Fs_mod i) = 8"
| "mod_rank Fs_fork_mod = 9"
| "mod_rank Gen_fs_req_mod = 10"
| "mod_rank Req_mod = 11"

definition proxy_rank :: "string \<Rightarrow> nat" where
  "proxy_rank n = mod_rank (inv mod_name n)"

lemma mod_rank_bound: "mod_rank m \<le> 11"
  by (cases m) simp_all

lemma links_descend:
  "(s, m') \<in> set (proxy_links app fl m) \<Longrightarrow> in_proxy fl m \<Longrightarrow> in_proxy fl m' \<and> mod_rank m' < mod_rank m"
  by (cases m) (auto simp: branches_def)

lemma proxy_registered:
  "registered (proxy_fsm app fl) md \<longleftrightarrow> (\<exists>m. in_proxy fl m \<and> md = proxy_module app fl m)"
proof
  assume reg: "registered (proxy_fsm app fl) md"
  then obtain m where m: "md_name md = mod_name m"
    using proxy_find_name [of app fl "md_name md"] by (auto simp: registered_def)
  with reg show "\<exists>m. in_proxy fl m \<and> md = proxy_module app fl m"
    by (intro exI [of _ m]) (auto simp: registered_def proxy_find split: if_splits)
qed (auto simp: registered_def proxy_module_def proxy_find)

lemma proxy_links_ok: "links_ok proxy_rank (proxy_fsm app fl)"
  unfolding links_ok_def
proof (intro allI impI)
  fix n s t assume l: "link_of (proxy_fsm app fl) n s = Some t"
  then obtain m where m: "n = mod_name m" using proxy_link_of_name by blast
  with l obtain m' where m': "in_proxy fl m" "map_of (proxy_links app fl m) s = Some m'" "t = mod_name m'"
    by (auto simp: proxy_link_of split: if_splits)
  from links_descend [OF map_of_SomeD [OF m'(2)] m'(1)] m m'(3)
  show "sm_find (fsm_mod_map (proxy_fsm app fl)) t \<noteq> None \<and> proxy_rank t < proxy_rank n"
    by (simp add: proxy_find proxy_rank_def)
qed

lemma proxy_wf:
  assumes "classes_ok app fl"
  shows "fsm_wf proxy_rank (proxy_fsm app fl)"
proof -
  from assms obtain h where "ReqModule app = RequestModule h" by (auto simp: classes_ok_def)
  moreover have "registered (proxy_fsm app fl) (proxy_module app fl Req_mod)"
    unfolding proxy_registered using in_proxy.simps(8) by blast
  ultimately have "start_ok (proxy_fsm app fl)"
    unfolding start_ok_def
    by (intro exI [of _ "proxy_module app fl Req_mod"] exI [of _ h])
      (simp add: proxy_fsm_def set_start_module_def set_end_module_def proxy_module_def)
  moreover have "forks_ok (proxy_fsm app fl)"
    using assms by (auto simp: forks_ok_def proxy_registered proxy_module_def classes_ok_def)
  moreover have "fsm_end_mod (proxy_fsm app fl) \<noteq> None" by (simp add: proxy_fsm_def set_end_module_def)
  ultimately show ?thesis by (simp add: fsm_wf_def proxy_registry proxy_links_ok)
qed

lemma proxy_stack: "stack_ok proxy_rank 15 (proxy_fsm app fl)"
  using mod_rank_bound by (auto simp: stack_ok_def proxy_registered proxy_module_def proxy_rank_def)

lemma proxy_world_start: "classes_ok app fl \<Longrightarrow> server_start proxy_rank 15 (proxy_world app fl hp g r)"
  by (simp add: server_start_def proxy_world_def register_fsm_data_factory_def start_accept_def Let_def start_op_def pool_inv_new
      pool_clients_new proxy_wf proxy_stack)

section \<open>What holds while it runs\<close>

text \<open>The invariant of the framework, and that machine and application stay what they were.\<close>

definition proxy_inv :: "'s fsm_data proxy_classes \<Rightarrow> proxy_flags \<Rightarrow> 's fsm_data world \<Rightarrow> bool" where
  "proxy_inv app fl w \<longleftrightarrow> server_inv proxy_rank 15 w \<and> w_fsm w = proxy_fsm app fl \<and>
     w_fsm_data_factory w = Some create_data \<and> w_fsm_data_reset w = fsm_data_reset"

lemma proxy_inv_start: "classes_ok app fl \<Longrightarrow> proxy_inv app fl (proxy_world app fl hp g r)"
  by (simp add: proxy_inv_def server_start_inv [OF proxy_world_start])
    (simp add: proxy_world_def register_fsm_data_factory_def start_accept_def Let_def start_op_def)

lemma proxy_inv_step:
  assumes inv: "proxy_inv app fl w" and step: "loop_step any_env 15 w w'"
  shows "proxy_inv app fl w'"
  using step
proof cases
  case (step_complete i env ec buf)
  then show ?thesis
    using complete_cases [of proxy_rank w 15 i env ec buf] inv
    by (auto simp: proxy_inv_def server_inv_def split: if_splits)
next
  case (step_sweep ks p env)
  then show ?thesis
    using winv_sweep [of proxy_rank "{}" w ks p env] inv by (auto simp: proxy_inv_def server_inv_def)
qed

interpretation proxy_machine: invariant
  "\<lambda>w. classes_ok app fl \<and> w = proxy_world app fl hp g r" "loop_step any_env 15" "proxy_inv app fl"
  for app fl hp g r
  by unfold_locales (use proxy_inv_start proxy_inv_step in blast)+

lemma proxy_reach:
  assumes "classes_ok app fl" and "reach ((=) (proxy_world app fl hp g r)) (loop_step any_env 15) w"
  shows "proxy_inv app fl w"
  by (rule proxy_machine.inv_reach [where hp = hp and g = g and r = r])
    (rule reach_weaken [OF assms(2)], use assms(1) in simp)

text \<open>
  C29: Every request of the example starts clean. At any time, for a new connection or the next
  request on an old one, the context that is made, initialised and reset holds application data
  as \<open>Data\<close>'s constructor makes them (the two time stamps that \<open>Data::reset\<close> forgets included,
  because the data are newly constructed); each of the nineteen \<open>get...ModuleData()\<close> returns its object
  and none a null pointer; and every module of the proxy has the module data of its class in their
  starting state. Asked of the application: \<open>ReqModule\<close> is a \<open>RequestModule\<close> and no fork module asks for
  more branches than it was constructed with.
\<close>

theorem proxy_request_starts_clean:
  assumes "classes_ok app fl" and "reach ((=) (proxy_world app fl hp g r)) (loop_step any_env 15) w"
    and "context_new conn w = (c, w1)"
  shows "\<exists>w2 w3 cx. context_init c w1 = Inr w2 \<and> context_reset c w2 = Inr w3 \<and>
     w_contexts w3 c = Some cx \<and> cx_conn cx = conn \<and> \<not> cx_exit cx \<and>
     cx_data cx = Some fsm_data_new \<and> fd_data fsm_data_new = (data_new :: 's data) \<and>
     (\<forall>v. DEFINE_MODULE_DATA v (fsm_data_new :: 's fsm_data) = Some v) \<and>
     (\<forall>m. sm_find (cx_module_data_map cx) (mod_name m) =
        (if in_proxy fl m then map_option Some (fresh_data (proxy_module app fl m)) else None))"
proof -
  have inv: "proxy_inv app fl w" by (rule proxy_reach [OF assms(1,2)])
  then have "registry_ok (fsm_mod_map (w_fsm w))" "w_fsm_data_factory w \<noteq> None"
    by (simp_all add: proxy_inv_def proxy_registry)
  from context_start [OF this assms(3)] obtain w2 w3 cx where
    w3: "context_init c w1 = Inr w2" "context_reset c w2 = Inr w3" "w_contexts w3 c = Some cx" "begins conn w cx"
    by auto
  have "fsm_data_reset fsm_data_new = fsm_data_new"
    by (simp add: fsm_data_reset_def data_reset_new)
  with w3(4) inv have "cx_conn cx = conn" "\<not> cx_exit cx" "cx_data cx = Some fsm_data_new"
    "sm_find (cx_module_data_map cx) (mod_name m) =
       (if in_proxy fl m then map_option Some (fresh_data (proxy_module app fl m)) else None)" for m
    by (auto simp: begins_def proxy_inv_def create_data_def proxy_find)
  moreover have "DEFINE_MODULE_DATA v (fsm_data_new :: 's fsm_data) = Some v" for v
    by (simp add: DEFINE_MODULE_DATA_def)
  ultimately show ?thesis using w3(1-3) by auto
qed

text \<open>
  The states in which the modules of the proxy end: a fork resumes with the states of its
  branches, \<open>IfRandModule\<close> has two answers, the end module has no successor, and any other
  module may end in any state, failures and time-outs included.
\<close>

definition fork_states :: "int \<Rightarrow> ModState set" where
  "fork_states k = (\<lambda>j. Mod_Fork0 + word_of_nat j) ` {..< nat k}"

fun may_end_in :: "'d proxy_classes \<Rightarrow> proxy_flags \<Rightarrow> proxy_mod \<Rightarrow> ModState set" where
  "may_end_in app fl Fs_fork_mod = fork_states (MAX_FS_FORK_NUM fl)"
| "may_end_in app fl (Ps_fork_mod2 i) = fork_states (MAX_PS2_FORK_NUM fl)"
| "may_end_in app fl Ps_fork_mod = fork_states (MAX_PS_FORK_NUM fl)"
| "may_end_in app fl If_rand_mod = {Mod_not_rand_resp app, Mod_rand_resp app}"
| "may_end_in app fl End_mod = {}"
| "may_end_in app fl m = UNIV"

lemma branch_taken:
  assumes "k < 2 ^ 16" and "s \<in> fork_states k"
  shows "branch b k s \<noteq> None"
proof -
  from assms(2) obtain j where j: "j < nat k" "s = Mod_Fork0 + word_of_nat j" by (auto simp: fork_states_def)
  with assms(1) have "unat (s - Mod_Fork0) = j" using fork_state_index [of j s] by simp
  with j(1) show ?thesis by (simp add: branch_def)
qed

lemma route_taken:
  assumes "flags_ok fl" and "s \<in> may_end_in app fl m"
  shows "proxy_route app fl m s \<noteq> None"
  using assms branch_taken by (cases m) (auto simp: flags_ok_def)

lemma route_descends:
  assumes "states_ok app" "flags_ok fl" "proxy_route app fl m s = Some m'" "in_proxy fl m"
  shows "in_proxy fl m' \<and> mod_rank m' < mod_rank m"
proof -
  from assms(3) obtain s' where "map_of (proxy_links app fl m) s' = Some m'"
    unfolding links_route [OF assms(1,2), of m s, symmetric] by (auto split: option.splits)
  from links_descend [OF map_of_SomeD [OF this] assms(4)] show ?thesis .
qed

text \<open>
  No request of the example gets stuck between modules. Whatever module of the proxy has
  ended, in whatever state, the machine has a next module for it, the registered object that the
  reference \<open>proxy_route\<close> names, and that module is closer to the end module, the only one
  without a successor; so each way through the machine runs at most eleven modules after the
  request module and ends in the end module.
\<close>

lemma proxy_always_continues:
  assumes "states_ok app" and "flags_ok fl" and "classes_ok app fl"
    and "reach ((=) (proxy_world app fl hp g r)) (loop_step any_env 15) w"
    and "in_proxy fl m" and "s \<in> may_end_in app fl m"
  shows "\<exists>m'. next_module (proxy_module app fl m) s w = (Some (proxy_module app fl m'), w) \<and>
     proxy_route app fl m s = Some m' \<and> in_proxy fl m' \<and>
     mod_rank m' < mod_rank m \<and> mod_rank m \<le> mod_rank Req_mod \<and> (mod_rank m' = 0 \<longleftrightarrow> m' = End_mod)"
proof -
  from route_taken [OF assms(2,6)] obtain m' where m': "proxy_route app fl m s = Some m'" by blast
  note desc = route_descends [OF assms(1,2) m' assms(5)]
  have "route (proxy_fsm app fl) (mod_name m) s = Some (mod_name m')"
    using proxy_route_link [OF assms(1,2,5), of s] m' by simp
  moreover have "w_fsm w = proxy_fsm app fl"
    using proxy_reach [OF assms(3,4)] by (simp add: proxy_inv_def)
  ultimately have "next_module (proxy_module app fl m) s w = (Some (proxy_module app fl m'), w)"
    using desc by (simp add: next_module_def get_next_module_route proxy_module_def proxy_find)
  moreover have "mod_rank m' = 0 \<longleftrightarrow> m' = End_mod" by (cases m') simp_all
  ultimately show ?thesis using m' desc mod_rank_bound [of m] by auto
qed

section \<open>Witnesses\<close>

text \<open>An application whose back-end modules are \<open>TcpModule\<close>s and whose other modules compute.\<close>

definition demo_hooks :: "nat fsm_data request_hooks" where
  "demo_hooks = \<lparr> rq_get_version_len = (\<lambda>d. 1), rq_get_head_len = (\<lambda>d. 4), rq_get_body_len = (\<lambda>d. 8),
     rq_get_read_version_time_out_ms = 600000, rq_get_read_head_and_body_time_out_ms = 10,
     rq_on_read_version_failed = id, rq_on_read_head_failed = id, rq_on_read_body_failed = id,
     rq_on_read_version_time_out = id, rq_on_read_head_and_body_time_out = id,
     rq_on_read_version_impl = (\<lambda>b n d. (True, d)), rq_on_read_head_impl = (\<lambda>b n d. (True, d)),
     rq_on_read_body_impl = (\<lambda>b n d. (True, d)), rq_get_succeed_state = (\<lambda>d. 100) \<rparr>"

definition demo_back :: "nat fsm_data tcp_hooks" where
  "demo_back = \<lparr> tm_get_connect_time_out_ms = get_connect_time_out_ms, tm_get_time_out_ms = get_time_out_ms,
     tm_get_resp_head_len = 256, tm_on_send_req_failed = id, tm_on_read_head_failed = id,
     tm_on_read_body_failed = id, tm_on_connect_failed = (\<lambda>ip port. id),
     tm_on_read_head_impl = (\<lambda>b n d. (True, d)), tm_on_read_body_impl = (\<lambda>b n d. (True, d)),
     tm_on_handle_time_out_impl = id, tm_get_client_type_id = (\<lambda>d. 3),
     tm_get_server_ip_port = (\<lambda>d. (Some (''10.0.0.1'', 80), d)), tm_get_request = (\<lambda>d. ([], d)),
     tm_get_resp_body_len = (\<lambda>d. 16) \<rparr>"

definition demo_step :: "nat fsm_data module_class" where
  "demo_step = SimpleModule (\<lambda>d. (Mod_Succeed, d))"

definition demo_app :: "nat fsm_data proxy_classes" where
  "demo_app = \<lparr> new_addr = (\<lambda>m. 0), ReqModule = RequestModule demo_hooks, GenFsReqModule = demo_step,
     FsForkModule = (\<lambda>k. ForkModule k (\<lambda>d. k)), FsJoinModule = (\<lambda>k. JoinModule k (\<lambda>d. k)),
     FsModule = (\<lambda>p i. TcpModule p demo_back), PsForkModule2 = (\<lambda>k. ForkModule k (\<lambda>d. k)),
     PsJoinModule2 = (\<lambda>k. JoinModule k (\<lambda>d. k)), PsModule2 = (\<lambda>p i j. TcpModule p demo_back),
     PsBackfillModule2 = (\<lambda>i j. demo_step), GenPsReqModule = demo_step,
     PsForkModule = (\<lambda>k. ForkModule k (\<lambda>d. k)), PsJoinModule = (\<lambda>k. JoinModule k (\<lambda>d. k)),
     PsModule = (\<lambda>p i. TcpModule p demo_back), PsBackfillModule = (\<lambda>i. demo_step), IfRandModule = demo_step,
     RespModule = demo_step, RandRespModule = demo_step, EmptyRespModule = demo_step,
     EndModule = demo_step, Mod_req_succeed_to_fs = 100, Mod_req_succeed_to_ps = 101,
     Mod_req_succeed_to_random = 102, Mod_not_rand_resp = 103, Mod_rand_resp = 104 \<rparr>"

definition demo_world :: "nat fsm_data world" where
  "demo_world = proxy_world demo_app default_flags (\<lambda>i. tcp_client_new quiet_env 0) (\<lambda>c n. (Socket_Event_Opened, 7, True)) (\<lambda>k. 42)"

lemma demo_classes: "classes_ok demo_app default_flags"
proof -
  have "\<forall>d. h d \<le> k" if "proxy_class demo_app default_flags m = ForkModule k h" for m k h
    using that by (cases m) (auto simp: demo_app_def demo_step_def)
  then show ?thesis by (auto simp: classes_ok_def demo_app_def)
qed

lemma demo_reach: "reach ((=) demo_world) (loop_step any_env 15) demo_world"
  by (rule reach_init) simp

lemmas demo_reach_unfolded = demo_reach [unfolded demo_world_def]

lemma demo_states: "states_ok demo_app"
  by (simp add: states_ok_def demo_app_def mod_state_defs)

lemma demo_flags: "flags_ok default_flags"
  by (simp add: flags_ok_def default_flags_def MAX_FS_FORK_NUM_def MAX_PS2_FORK_NUM_def MAX_PS_FORK_NUM_def)

theorem proxy_request_starts_clean_witness:
  "\<exists>w2 w3 cx. context_init 0 (snd (context_new 5 demo_world)) = Inr w2 \<and> context_reset 0 w2 = Inr w3 \<and>
     w_contexts w3 0 = Some cx \<and> cx_data cx = Some fsm_data_new"
proof -
  have "context_new 5 demo_world = (0, snd (context_new 5 demo_world))"
    by (simp add: context_new_def Let_def demo_world_def proxy_world_def register_fsm_data_factory_def start_accept_def start_op_def)
  from proxy_request_starts_clean [OF demo_classes demo_reach_unfolded, folded demo_world_def, OF this]
  show ?thesis by blast
qed

theorem proxy_always_continues_witness:
  "next_module (proxy_module demo_app default_flags (Fs_mod 7)) Mod_Timeout demo_world =
     (Some (proxy_module demo_app default_flags Fs_join_mod), demo_world)"
proof -
  have "in_proxy default_flags (Fs_mod 7)" by (simp add: default_flags_def MAX_FS_FORK_NUM_def)
  from proxy_always_continues [OF demo_states demo_flags demo_classes demo_reach_unfolded this,
      folded demo_world_def, of Mod_Timeout]
  show ?thesis by (auto simp: mod_state_defs)
qed

theorem proxy_routes_witness:
  "route (proxy_fsm demo_app default_flags) ''fs_mod7'' Mod_Failed = Some ''fs_join_mod''"
proof -
  have name: "''fs_mod7'' = mod_name (Fs_mod 7)"
    by code_simp
  moreover have "in_proxy default_flags (Fs_mod 7)" by (simp add: default_flags_def MAX_FS_FORK_NUM_def)
  ultimately have "\<exists>m. in_proxy default_flags m \<and> ''fs_mod7'' = mod_name m" by blast
  moreover have "inv mod_name ''fs_mod7'' = Fs_mod 7" unfolding name by (rule inv_mod_name)
  moreover have "Mod_Failed \<noteq> Mod_Succeed" by simp
  ultimately show ?thesis
    using proxy_routes [OF demo_states demo_flags, of "''fs_mod7''" Mod_Failed, THEN conjunct1] by simp
qed

end
