(* ===== verification/Proxy_Exchange.thy ===== *)
theory Proxy_Exchange
  imports Proxy_Server Tcp_Concurrency
begin

text \<open>
  The forks of the example application (example1/main.cc) split: each back-end module belongs to
  one branch of each fork above it, so the proxy never runs a back-end module twice for a request
  and never crashes.
\<close>

section \<open>Branches\<close>

text \<open>The modules that come after a join, where branches meet.\<close>

fun joined :: "proxy_mod \<Rightarrow> bool" where
  "joined (Ps_join_mod2 i) = True"
| "joined Fs_join_mod = True"
| "joined Ps_join_mod = True"
| "joined If_rand_mod = True"
| "joined Resp_mod = True"
| "joined Rand_resp_mod = True"
| "joined Empty_resp_mod = True"
| "joined End_mod = True"
| "joined m = False"

text \<open>The branch of a fork that a module belongs to.\<close>

fun fs_branch :: "proxy_mod \<Rightarrow> nat option" where
  "fs_branch (Fs_mod i) = Some i"
| "fs_branch (Ps_fork_mod2 i) = Some i"
| "fs_branch (Ps_mod2 i j) = Some i"
| "fs_branch (Ps_backfill_mod2 i j) = Some i"
| "fs_branch m = None"

fun ps2_branch :: "proxy_mod \<Rightarrow> nat option" where
  "ps2_branch (Ps_mod2 i j) = Some j"
| "ps2_branch (Ps_backfill_mod2 i j) = Some j"
| "ps2_branch m = None"

fun ps_branch :: "proxy_mod \<Rightarrow> nat option" where
  "ps_branch (Ps_mod i) = Some i"
| "ps_branch (Ps_backfill_mod i) = Some i"
| "ps_branch m = None"

fun branch_of :: "proxy_mod \<Rightarrow> proxy_mod \<Rightarrow> nat option" where
  "branch_of Fs_fork_mod m = fs_branch m"
| "branch_of (Ps_fork_mod2 k) m = ps2_branch m"
| "branch_of Ps_fork_mod m = ps_branch m"
| "branch_of k m = None"

fun is_fork_mod :: "proxy_mod \<Rightarrow> bool" where
  "is_fork_mod Fs_fork_mod = True"
| "is_fork_mod (Ps_fork_mod2 i) = True"
| "is_fork_mod Ps_fork_mod = True"
| "is_fork_mod m = False"

text \<open>
  Where the application's classes stand: only the modules that \<open>main\<close> calls forks are
  \<open>ForkModule\<close>s, and the modules after a join talk to no back-end.
\<close>

definition classes_placed :: "'d proxy_classes \<Rightarrow> proxy_flags \<Rightarrow> bool" where
  "classes_placed app fl \<longleftrightarrow>
     (\<forall>m. (is_fork (proxy_class app fl m) \<longrightarrow> is_fork_mod m) \<and> (is_tcp (proxy_class app fl m) \<longrightarrow> \<not> joined m))"

text \<open>One step of the machine stays in the branch or comes to a join.\<close>

lemma route_joined: "proxy_route app fl m s = Some m' \<Longrightarrow> joined m \<Longrightarrow> joined m'"
  by (cases m) (auto split: if_splits)

lemma route_in_branch:
  assumes "proxy_route app fl m s = Some m'" and "branch_of k m = Some i" and "is_fork_mod k"
  shows "joined m' \<or> branch_of k m' = Some i"
  using assms by (cases k; cases m) (auto simp: branch_def Let_def split: if_splits)

lemma route_forks:
  assumes "proxy_route app fl k s = Some m'" and "is_fork_mod k"
  shows "branch_of k m' = Some (unat (s - Mod_Fork0))"
  using assms by (cases k) (auto simp: branch_def Let_def split: if_splits)

text \<open>So does every way through the machine.\<close>

lemma leads_proxy:
  assumes ok: "states_ok app" "flags_ok fl"
    and "leads (proxy_fsm app fl) n s t" and "n = mod_name m" and "in_proxy fl m"
  shows "\<exists>m'. t = mod_name m' \<and> (joined m \<longrightarrow> joined m') \<and>
    (\<forall>k i. is_fork_mod k \<and> branch_of k m = Some i \<longrightarrow> joined m' \<or> branch_of k m' = Some i) \<and>
    (is_fork_mod m \<longrightarrow> joined m' \<or> branch_of m m' = Some (unat (s - Mod_Fork0)))"
  using assms(3-)
proof (induction arbitrary: m rule: leads.induct)
  case (leads_next n s t)
  then obtain m' where m': "proxy_route app fl m s = Some m'" "t = mod_name m'"
    using proxy_route_link [OF ok leads_next(3), of s] by auto
  with route_joined [OF m'(1)] route_in_branch [OF m'(1)] route_forks [OF m'(1)] show ?case
    by (intro exI [of _ m']) blast
next
  case (leads_on n s t s' u)
  then obtain m1 where m1: "proxy_route app fl m s = Some m1" "t = mod_name m1"
    using proxy_route_link [OF ok leads_on(5), of s] by auto
  have "in_proxy fl m1" using route_descends [OF ok m1(1) leads_on(5)] ..
  from leads_on(3) [OF m1(2) this] obtain m' where
    m': "u = mod_name m'" "joined m1 \<longrightarrow> joined m'"
      "\<And>k i. is_fork_mod k \<Longrightarrow> branch_of k m1 = Some i \<Longrightarrow> joined m' \<or> branch_of k m' = Some i"
    by blast
  with route_joined [OF m1(1)] route_in_branch [OF m1(1)] route_forks [OF m1(1)] show ?case
    by (intro exI [of _ m']) blast
qed

lemma proxy_forks_split:
  assumes ok: "states_ok app" "flags_ok fl" and placed: "classes_placed app fl"
  shows "forks_split (proxy_fsm app fl)"
  unfolding forks_split_def
proof (intro allI ballI impI)
  fix md s s' t
  assume "t \<in> tcp_names (proxy_fsm app fl)"
    and md: "registered (proxy_fsm app fl) md \<and> is_fork (md_class md) \<and>
      leads (proxy_fsm app fl) (md_name md) s t \<and> leads (proxy_fsm app fl) (md_name md) s' t"
  then obtain k m where k: "in_proxy fl k" "md = proxy_module app fl k"
    and m: "in_proxy fl m" "t = mod_name m" "is_tcp (proxy_class app fl m)"
    by (auto simp: tcp_names_def proxy_registered proxy_module_def)
  with placed md have fm: "is_fork_mod k" "\<not> joined m"
    by (auto simp: classes_placed_def proxy_module_def)
  have "branch_of k m = Some (unat (v - Mod_Fork0))" if "leads (proxy_fsm app fl) (md_name md) v t" for v
    using leads_proxy [OF ok that _ k(1)] k(2) m(2) fm by (auto simp: proxy_module_def)
  from this [of s] this [of s'] md have "unat (s - Mod_Fork0) = unat (s' - Mod_Fork0)" by simp
  then show "s = s'" by (simp add: word_unat_eq_iff [symmetric])
qed

section \<open>The proxy never crashes\<close>

lemma proxy_split_reach:
  assumes "states_ok app" "flags_ok fl" "classes_ok app fl" "classes_placed app fl"
    and "reach ((=) (proxy_world app fl hp g r)) (loop_step any_env 15) w"
  shows "split_inv proxy_rank 15 w"
proof (rule split_machine.inv_reach)
  have "split_start proxy_rank 15 (proxy_world app fl hp g r)"
    using proxy_world_start [OF assms(3)] proxy_forks_split [OF assms(1,2,4)]
    by (simp add: split_start_def) (simp add: proxy_world_def register_fsm_data_factory_def start_accept_def Let_def)
  then show "reach (split_start proxy_rank 15) (loop_step any_env 15) w"
    by (intro reach_weaken [OF assms(5)]) simp
qed

text \<open>
  The threads that serve a request of the proxy: no handler comes too late, and no deadlock.
\<close>

lemma proxy_threads:
  assumes "states_ok app" "flags_ok fl" "classes_ok app fl" "classes_placed app fl"
    and "reach (threads_start (proxy_fsm app fl) task) (threads_step (proxy_fsm app fl)) s"
  shows "Fr_missed n k \<notin># frames s"
    and "st \<in> set (tt_stacks s) \<Longrightarrow> st \<noteq> [] \<Longrightarrow> \<exists>t. threads_act (proxy_fsm app fl) s t"
proof -
  have inv: "exch_inv proxy_rank (proxy_fsm app fl) s"
    using exch_reach [OF proxy_wf [OF assms(3)] proxy_forks_split [OF assms(1,2,4)] assms(5)] .
  then show "Fr_missed n k \<notin># frames s" by (simp add: exch_inv_def events_ok_def)
  show "st \<in> set (tt_stacks s) \<Longrightarrow> st \<noteq> [] \<Longrightarrow> \<exists>t. threads_act (proxy_fsm app fl) s t"
    using some_thread_acts [of proxy_rank "proxy_fsm app fl" s st] inv by (simp add: exch_inv_def)
qed

text \<open>
  C13: The example server keeps running. What is asked of the application: none of its five own states is
  \<open>Mod_else\<close>, \<open>ReqModule\<close> is a \<open>RequestModule\<close>, no fork module asks for more branches than it was
  constructed with, only the modules named forks are \<open>ForkModule\<close>s, and no module after a join is a
  \<open>TcpModule\<close>; and of the flags: the three numbers of branches are below \<open>2^16\<close> and their product does
  not overflow an \<open>int\<close>. Then, after any course of completions, errors and bytes, in any environment, whichever pending operation completes
  next, its handler returns on a call stack of 15 frames, except that an exception escapes exactly when a
  read or write timer of a client connection has expired and \<open>socket().cancel()\<close> fails; and every sweep of
  a client pool succeeds.
\<close>

theorem proxy_never_crashes:
  assumes "states_ok app" and "flags_ok fl" and "classes_ok app fl" and "classes_placed app fl"
    and "reach ((=) (proxy_world app fl hp g r)) (loop_step any_env 15) w"
  shows "(i < length (w_pending w) \<longrightarrow>
      (if cancel_throws env ec (op_handler (w_pending w ! i)) w
       then complete env 15 i ec buf w = Inl Uncaught_exception
       else \<exists>w'. complete env 15 i ec buf w = Inr w')) \<and>
    (iterates ks (w_pools w p) \<longrightarrow> (\<exists>w'. sweep_pool env ks p w = Inr w'))"
proof -
  note inv = proxy_split_reach [OF assms]
  then have "winv proxy_rank {} w" by (simp add: split_inv_def server_inv_def)
  with split_complete [OF inv, of i env ec buf] winv_sweep [of proxy_rank "{}" w ks p env] show ?thesis
    by blast
qed

theorem proxy_never_crashes_witness: "\<exists>w'. complete quiet_env 15 0 no_error [] demo_world = Inr w'"
proof -
  have "classes_placed demo_app default_flags"
    unfolding classes_placed_def
  proof
    fix m show "(is_fork (proxy_class demo_app default_flags m) \<longrightarrow> is_fork_mod m) \<and>
        (is_tcp (proxy_class demo_app default_flags m) \<longrightarrow> \<not> joined m)"
      by (cases m) (simp_all add: demo_app_def demo_step_def)
  qed
  moreover have "w_pending demo_world = [Async_accept 0 (On_accepted 0)]"
    by (simp add: demo_world_def proxy_world_def register_fsm_data_factory_def start_accept_def Let_def start_op_def)
  ultimately show ?thesis
    using proxy_never_crashes [OF demo_states demo_flags demo_classes _ demo_reach_unfolded, folded demo_world_def,
        of 0 quiet_env no_error "[]"] by simp
qed

end
