(* ===== verification/Proxy_Balance.thy ===== *)
theory Proxy_Balance
  imports Proxy_Exchange Served_Forever
begin

text \<open>
  The forks and joins of the example application (example1/main.cc) fit together: weights for its
  modules are given that every move conserves, so the proxy never loses a connection.
\<close>

section \<open>What is asked of the application\<close>

text \<open>
  How many branches the fork modules open and the join modules wait for, as the data of a request
  have it.
\<close>

record proxy_shape =
  fs_num :: nat
  ps2_num :: nat
  ps_num :: nat

fun is_join_mod :: "proxy_mod \<Rightarrow> bool" where
  "is_join_mod Fs_join_mod = True"
| "is_join_mod (Ps_join_mod2 i) = True"
| "is_join_mod Ps_join_mod = True"
| "is_join_mod m = False"

fun mod_num :: "proxy_shape \<Rightarrow> proxy_mod \<Rightarrow> nat" where
  "mod_num sh Fs_fork_mod = fs_num sh"
| "mod_num sh Fs_join_mod = fs_num sh"
| "mod_num sh (Ps_fork_mod2 i) = ps2_num sh"
| "mod_num sh (Ps_join_mod2 i) = ps2_num sh"
| "mod_num sh Ps_fork_mod = ps_num sh"
| "mod_num sh Ps_join_mod = ps_num sh"
| "mod_num sh m = 1"

text \<open>
  The modules that \<open>main\<close> calls forks and joins, and no others, are of these classes; for the
  same data a fork module opens as many branches as the join module of its name waits for; a module
  that computes does not answer \<open>Mod_async\<close>.
\<close>

definition class_fits :: "'d proxy_classes \<Rightarrow> proxy_flags \<Rightarrow> ('d \<Rightarrow> proxy_shape) \<Rightarrow> proxy_mod \<Rightarrow> bool" where
  "class_fits app fl sh m \<longleftrightarrow>
     (case proxy_class app fl m of
        ForkModule k g \<Rightarrow> is_fork_mod m \<and> (\<forall>d. unat (g d) = mod_num (sh d) m)
      | JoinModule k g \<Rightarrow> is_join_mod m \<and> (\<forall>d. unat (g d) = mod_num (sh d) m)
      | SimpleModule g \<Rightarrow> \<not> is_fork_mod m \<and> \<not> is_join_mod m \<and> (\<forall>d. fst (g d) \<noteq> Mod_async)
      | _ \<Rightarrow> \<not> is_fork_mod m \<and> \<not> is_join_mod m)"

text \<open>
  The numbers are for the request module and the two modules that prepare the requests to the
  back-ends to set; the other modules, and all timers, leave them alone.
\<close>

fun sets_nums :: "proxy_mod \<Rightarrow> bool" where
  "sets_nums Req_mod = True"
| "sets_nums Gen_fs_req_mod = True"
| "sets_nums Gen_ps_req_mod = True"
| "sets_nums m = False"

definition hooks_fit :: "'d proxy_classes \<Rightarrow> proxy_flags \<Rightarrow> proxy_mod \<Rightarrow> bool" where
  "hooks_fit app fl m \<longleftrightarrow>
     timers_keep (proxy_fsm app fl) (proxy_class app fl m) \<and>
     (sets_nums m \<or> class_keeps (proxy_fsm app fl) (proxy_class app fl m))"

text \<open>
  Where these modules end in \<open>Mod_Succeed\<close>, there are branches: at least one, and no more than
  were made.
\<close>

definition fs_ready :: "proxy_flags \<Rightarrow> proxy_shape \<Rightarrow> bool" where
  "fs_ready fl sh \<longleftrightarrow>
     0 < fs_num sh \<and> fs_num sh \<le> nat (MAX_FS_FORK_NUM fl) \<and>
     0 < ps2_num sh \<and> ps2_num sh \<le> nat (MAX_PS2_FORK_NUM fl)"

definition ps_ready :: "proxy_flags \<Rightarrow> proxy_shape \<Rightarrow> bool" where
  "ps_ready fl sh \<longleftrightarrow> 0 < ps_num sh \<and> ps_num sh \<le> nat (MAX_PS_FORK_NUM fl)"

definition forks_ready :: "'d proxy_classes \<Rightarrow> proxy_flags \<Rightarrow> ('d \<Rightarrow> proxy_shape) \<Rightarrow> bool" where
  "forks_ready app fl sh \<longleftrightarrow>
     (\<forall>d. may_end (proxy_fsm app fl) (GenFsReqModule app) Mod_Succeed (nums_of (proxy_fsm app fl) d) \<longrightarrow>
        fs_ready fl (sh d)) \<and>
     (\<forall>d. may_end (proxy_fsm app fl) (GenPsReqModule app) Mod_Succeed (nums_of (proxy_fsm app fl) d) \<longrightarrow>
        ps_ready fl (sh d))"

text \<open>Objects that \<open>new\<close> made are at different addresses.\<close>

definition addresses_ok :: "'d proxy_classes \<Rightarrow> proxy_flags \<Rightarrow> bool" where
  "addresses_ok app fl \<longleftrightarrow> inj_on (new_addr app) {m. in_proxy fl m}"

text \<open>All that is asked.\<close>

definition app_fits :: "'d proxy_classes \<Rightarrow> proxy_flags \<Rightarrow> ('d \<Rightarrow> proxy_shape) \<Rightarrow> bool" where
  "app_fits app fl sh \<longleftrightarrow>
     states_ok app \<and> flags_ok fl \<and> addresses_ok app fl \<and> forks_ready app fl sh \<and>
     (\<forall>m. class_fits app fl sh m \<and> hooks_fit app fl m)"

lemma app_fitsD:
  assumes "app_fits app fl sh"
  shows "states_ok app" "flags_ok fl" "addresses_ok app fl" "forks_ready app fl sh" "class_fits app fl sh m"
    "hooks_fit app fl m"
  using assms by (simp_all add: app_fits_def)

lemma fits_fork: "class_fits app fl sh m \<Longrightarrow> is_fork (proxy_class app fl m) \<longleftrightarrow> is_fork_mod m"
  by (cases "proxy_class app fl m"; cases m) (auto simp: class_fits_def)

lemma fits_join: "class_fits app fl sh m \<Longrightarrow> is_join (proxy_class app fl m) \<longleftrightarrow> is_join_mod m"
  by (cases "proxy_class app fl m"; cases m) (auto simp: class_fits_def)

lemma proxy_module_fields [simp]:
  "md_name (proxy_module app fl m) = mod_name m" "md_class (proxy_module app fl m) = proxy_class app fl m"
  by (simp_all add: proxy_module_def)

lemma proxy_nums:
  assumes "class_fits app fl sh m" and "in_proxy fl m" and "is_fork_mod m \<or> is_join_mod m"
  shows "nums_of (proxy_fsm app fl) d (mod_name m) = mod_num (sh d) m"
  using assms
  by (cases "proxy_class app fl m") (auto simp: nums_of_def module_of_def proxy_find class_fits_def)

section \<open>Weights for the modules\<close>

fun mod_weight :: "proxy_shape \<Rightarrow> proxy_mod \<Rightarrow> nat" where
  "mod_weight sh (Fs_mod i) = ps2_num sh * ps_num sh"
| "mod_weight sh (Ps_fork_mod2 i) = ps2_num sh * ps_num sh"
| "mod_weight sh Fs_join_mod = ps2_num sh * ps_num sh"
| "mod_weight sh (Ps_mod2 i j) = ps_num sh"
| "mod_weight sh (Ps_backfill_mod2 i j) = ps_num sh"
| "mod_weight sh (Ps_join_mod2 i) = ps_num sh"
| "mod_weight sh (Ps_mod i) = fs_num sh * ps2_num sh"
| "mod_weight sh (Ps_backfill_mod i) = fs_num sh * ps2_num sh"
| "mod_weight sh Ps_join_mod = fs_num sh * ps2_num sh"
| "mod_weight sh m = fs_num sh * ps2_num sh * ps_num sh"

text \<open>What is still to come from a module, for each of the joins.\<close>

fun fs_pot :: "proxy_shape \<Rightarrow> proxy_mod \<Rightarrow> nat" where
  "fs_pot sh Req_mod = fs_num sh * ps2_num sh"
| "fs_pot sh Gen_fs_req_mod = fs_num sh * ps2_num sh"
| "fs_pot sh Gen_ps_req_mod = fs_num sh * ps2_num sh"
| "fs_pot sh Fs_fork_mod = fs_num sh * ps2_num sh"
| "fs_pot sh (Fs_mod i) = ps2_num sh"
| "fs_pot sh (Ps_fork_mod2 i) = ps2_num sh"
| "fs_pot sh (Ps_mod2 i j) = 1"
| "fs_pot sh (Ps_backfill_mod2 i j) = 1"
| "fs_pot sh (Ps_join_mod2 i) = 1"
| "fs_pot sh Fs_join_mod = ps2_num sh"
| "fs_pot sh m = 0"

fun ps2_pot :: "proxy_shape \<Rightarrow> nat \<Rightarrow> proxy_mod \<Rightarrow> nat" where
  "ps2_pot sh i Req_mod = ps2_num sh"
| "ps2_pot sh i Gen_fs_req_mod = ps2_num sh"
| "ps2_pot sh i Gen_ps_req_mod = ps2_num sh"
| "ps2_pot sh i Fs_fork_mod = (if i < fs_num sh then ps2_num sh else 0)"
| "ps2_pot sh i (Fs_mod k) = (if k = i then ps2_num sh else 0)"
| "ps2_pot sh i (Ps_fork_mod2 k) = (if k = i then ps2_num sh else 0)"
| "ps2_pot sh i (Ps_mod2 k j) = (if k = i then 1 else 0)"
| "ps2_pot sh i (Ps_backfill_mod2 k j) = (if k = i then 1 else 0)"
| "ps2_pot sh i (Ps_join_mod2 k) = (if k = i then 1 else 0)"
| "ps2_pot sh i m = 0"

fun ps_pot :: "proxy_shape \<Rightarrow> proxy_mod \<Rightarrow> nat" where
  "ps_pot sh Req_mod = ps_num sh"
| "ps_pot sh Gen_fs_req_mod = ps_num sh"
| "ps_pot sh Gen_ps_req_mod = ps_num sh"
| "ps_pot sh Ps_fork_mod = ps_num sh"
| "ps_pot sh (Ps_mod i) = 1"
| "ps_pot sh (Ps_backfill_mod i) = 1"
| "ps_pot sh Ps_join_mod = 1"
| "ps_pot sh m = 0"

fun mod_pot :: "proxy_shape \<Rightarrow> proxy_mod \<Rightarrow> proxy_mod \<Rightarrow> nat" where
  "mod_pot sh (Ps_join_mod2 i) m = ps2_pot sh i m"
| "mod_pot sh Fs_join_mod m = fs_pot sh m"
| "mod_pot sh j m = ps_pot sh m"

text \<open>The modules between the forks and joins are for requests with branches.\<close>

fun live_mod :: "proxy_flags \<Rightarrow> proxy_shape \<Rightarrow> proxy_mod \<Rightarrow> bool" where
  "live_mod fl sh Fs_fork_mod \<longleftrightarrow> fs_ready fl sh"
| "live_mod fl sh (Fs_mod i) \<longleftrightarrow> fs_ready fl sh"
| "live_mod fl sh (Ps_fork_mod2 i) \<longleftrightarrow> fs_ready fl sh"
| "live_mod fl sh (Ps_mod2 i j) \<longleftrightarrow> fs_ready fl sh"
| "live_mod fl sh (Ps_backfill_mod2 i j) \<longleftrightarrow> fs_ready fl sh"
| "live_mod fl sh (Ps_join_mod2 i) \<longleftrightarrow> fs_ready fl sh"
| "live_mod fl sh Fs_join_mod \<longleftrightarrow> fs_ready fl sh"
| "live_mod fl sh Ps_fork_mod \<longleftrightarrow> ps_ready fl sh"
| "live_mod fl sh (Ps_mod i) \<longleftrightarrow> ps_ready fl sh"
| "live_mod fl sh (Ps_backfill_mod i) \<longleftrightarrow> ps_ready fl sh"
| "live_mod fl sh Ps_join_mod \<longleftrightarrow> ps_ready fl sh"
| "live_mod fl sh m \<longleftrightarrow> True"

text \<open>
  The certificate: the shape is read off the numbers at the forks; a number that is not in use may
  be zero, and counts as one in the weights.
\<close>

definition by_name :: "(proxy_mod \<Rightarrow> 'a) \<Rightarrow> string \<Rightarrow> 'a" where
  "by_name v n = v (inv mod_name n)"

lemma by_name [simp]: "by_name v (mod_name m) = v m"
  by (simp add: by_name_def)

definition shape_of :: "(string \<Rightarrow> nat) \<Rightarrow> proxy_shape" where
  "shape_of num = \<lparr> fs_num = num (mod_name Fs_fork_mod), ps2_num = num (mod_name (Ps_fork_mod2 0)),
     ps_num = num (mod_name Ps_fork_mod) \<rparr>"

definition at_least_one :: "proxy_shape \<Rightarrow> proxy_shape" where
  "at_least_one sh = \<lparr> fs_num = max 1 (fs_num sh), ps2_num = max 1 (ps2_num sh), ps_num = max 1 (ps_num sh) \<rparr>"

definition proxy_cert :: "proxy_flags \<Rightarrow> certificate" where
  "proxy_cert fl = \<lparr> ct_live = (\<lambda>num. by_name (live_mod fl (shape_of num))),
     ct_weight = (\<lambda>num. by_name (mod_weight (at_least_one (shape_of num)))),
     ct_pot = (\<lambda>num j. by_name (mod_pot (at_least_one (shape_of num)) (inv mod_name j))) \<rparr>"

lemma shape_ready:
  assumes "app_fits app fl sh"
  shows "fs_ready fl (shape_of (nums_of (proxy_fsm app fl) d)) \<longleftrightarrow> fs_ready fl (sh d)"
    "ps_ready fl (shape_of (nums_of (proxy_fsm app fl) d)) \<longleftrightarrow> ps_ready fl (sh d)"
proof -
  note nums = proxy_nums [OF app_fitsD(5) [OF assms], of _ d]
  have "fs_num (shape_of (nums_of (proxy_fsm app fl) d)) = fs_num (sh d)"
    "ps_num (shape_of (nums_of (proxy_fsm app fl) d)) = ps_num (sh d)"
    "0 < nat (MAX_FS_FORK_NUM fl) \<Longrightarrow> ps2_num (shape_of (nums_of (proxy_fsm app fl) d)) = ps2_num (sh d)"
    using nums [of Fs_fork_mod] nums [of Ps_fork_mod] nums [of "Ps_fork_mod2 0"]
    by (simp_all add: shape_of_def del: mod_name.simps)
  then show "fs_ready fl (shape_of (nums_of (proxy_fsm app fl) d)) \<longleftrightarrow> fs_ready fl (sh d)"
    "ps_ready fl (shape_of (nums_of (proxy_fsm app fl) d)) \<longleftrightarrow> ps_ready fl (sh d)"
    by (auto simp: fs_ready_def ps_ready_def)
qed

text \<open>At a fork or join that is live, the number is that of the certificate.\<close>

lemma at_least_one_fields [simp]:
  "fs_num (at_least_one sh) = max 1 (fs_num sh)" "ps2_num (at_least_one sh) = max 1 (ps2_num sh)"
  "ps_num (at_least_one sh) = max 1 (ps_num sh)"
  by (simp_all add: at_least_one_def)

lemma live_count:
  assumes "live_mod fl sh m" and "is_fork_mod m \<or> is_join_mod m"
  shows "mod_num (at_least_one sh) m = mod_num sh m" "0 < mod_num sh m"
  using assms by (cases m; simp add: fs_ready_def ps_ready_def)+

lemma live_num:
  assumes fits: "app_fits app fl sh" and num: "num = nums_of (proxy_fsm app fl) d" and m: "in_proxy fl m"
    and f: "is_fork_mod m \<or> is_join_mod m" and live: "live_mod fl (shape_of num) m"
  shows "num (mod_name m) = mod_num (at_least_one (shape_of num)) m" "0 < num (mod_name m)"
proof -
  note at = proxy_nums [OF app_fitsD(5) [OF fits], of _ d, folded num]
  have "fs_num (shape_of num) = fs_num (sh d)" "ps_num (shape_of num) = ps_num (sh d)"
    using at [of Fs_fork_mod] at [of Ps_fork_mod] by (simp_all add: shape_of_def del: mod_name.simps)
  moreover have "ps2_num (shape_of num) = ps2_num (sh d)" if "fs_ready fl (shape_of num)"
  proof -
    have "in_proxy fl (Ps_fork_mod2 0)" using that by (cases "0 < MAX_FS_FORK_NUM fl") (auto simp: fs_ready_def)
    from at [OF this] show ?thesis by (simp add: shape_of_def del: mod_name.simps)
  qed
  ultimately have "mod_num (shape_of num) m = mod_num (sh d) m"
    using live f by (cases m) simp_all
  with at [OF m f] live_count [OF live f] show
    "num (mod_name m) = mod_num (at_least_one (shape_of num)) m" "0 < num (mod_name m)" by simp_all
qed

section \<open>They flow through the machine\<close>

text \<open>The value that leaves a module, and the condition on a valuation in terms of \<open>proxy_route\<close>.\<close>

definition mod_val ::
  "'d proxy_classes \<Rightarrow> proxy_flags \<Rightarrow> proxy_shape \<Rightarrow> proxy_mod set \<Rightarrow> (proxy_mod \<Rightarrow> nat) \<Rightarrow> proxy_mod \<Rightarrow> ModState \<Rightarrow> nat" where
  "mod_val app fl sh A v m s =
     (if is_fork_mod m then (case proxy_route app fl m s of Some t \<Rightarrow> v t | None \<Rightarrow> 0)
      else if is_join_mod m then (if m \<in> A then 0 else mod_num sh m * v m)
      else v m)"

definition link_ok :: "nat \<Rightarrow> (proxy_mod \<Rightarrow> nat) \<Rightarrow> nat \<Rightarrow> proxy_mod option \<Rightarrow> bool" where
  "link_ok need v x target \<longleftrightarrow>
     (case target of None \<Rightarrow> x = 0 \<or> x = need | Some t \<Rightarrow> v t = x \<or> (x = need \<and> v t = 0))"

fun fork_branch :: "proxy_mod \<Rightarrow> nat \<Rightarrow> proxy_mod" where
  "fork_branch (Ps_fork_mod2 i) = Ps_mod2 i"
| "fork_branch Fs_fork_mod = Fs_mod"
| "fork_branch m = Ps_mod"

definition mod_flows ::
  "'d proxy_classes \<Rightarrow> proxy_flags \<Rightarrow> proxy_shape \<Rightarrow> proxy_mod set \<Rightarrow> (proxy_mod \<Rightarrow> nat) \<Rightarrow> nat \<Rightarrow> bool" where
  "mod_flows app fl sh A v need \<longleftrightarrow>
     (\<forall>m s. \<not> is_fork_mod m \<longrightarrow> link_ok need v (mod_val app fl sh A v m s) (proxy_route app fl m s)) \<and>
     (\<forall>m. is_fork_mod m \<longrightarrow> (\<Sum>i<mod_num sh m. v (fork_branch m i)) = v m) \<and>
     (v Req_mod = 0 \<or> v Req_mod = need)"

text \<open>Below the numbers of branches that were made, a fork has a link for each of its states.\<close>

lemma fork_routes:
  assumes fl: "flags_ok fl" and m: "is_fork_mod m" "live_mod fl sh m" and i: "i < mod_num (at_least_one sh) m"
  shows "proxy_route app fl m (Mod_Fork0 + word_of_nat i) = Some (fork_branch m i)"
proof -
  have "branch b k (Mod_Fork0 + word_of_nat i) = Some (b i)" if "k < 2 ^ 16" "i < nat k" for b k
  proof -
    have "unat (Mod_Fork0 + word_of_nat i - Mod_Fork0 :: ModState) = i"
      using fork_state_index [of i "Mod_Fork0 + word_of_nat i"] that by simp
    with that(2) show ?thesis by (simp add: branch_def)
  qed
  with fl m i show ?thesis
    by (cases m) (auto simp: flags_ok_def fs_ready_def ps_ready_def)
qed

lemma proxy_at_end:
  assumes "addresses_ok app fl" and "in_proxy fl m"
  shows "at_end (proxy_fsm app fl) (proxy_module app fl m) \<longleftrightarrow> m = End_mod"
proof -
  have "at_end (proxy_fsm app fl) (proxy_module app fl m) \<longleftrightarrow> new_addr app m = new_addr app End_mod"
    by (simp add: at_end_def proxy_fsm_def set_end_module_def same_module_def proxy_module_def)
  with assms inj_on_eq_iff [of "new_addr app" "{m. in_proxy fl m}" m End_mod] show ?thesis
    by (simp add: addresses_ok_def)
qed

text \<open>A request with the numbers \<open>num\<close>, and the shape they give.\<close>

definition proxy_case ::
  "'d proxy_classes \<Rightarrow> proxy_flags \<Rightarrow> ('d \<Rightarrow> proxy_shape) \<Rightarrow> (string \<Rightarrow> nat) \<Rightarrow> proxy_shape \<Rightarrow> bool" where
  "proxy_case app fl sh num sh1 \<longleftrightarrow>
     app_fits app fl sh \<and> (\<exists>d. num = nums_of (proxy_fsm app fl) d) \<and> sh1 = at_least_one (shape_of num)"

lemma proxy_caseD:
  assumes "proxy_case app fl sh num sh1"
  shows "app_fits app fl sh" "states_ok app" "flags_ok fl" "addresses_ok app fl" "class_fits app fl sh m"
    "in_proxy fl m \<Longrightarrow> is_fork_mod m \<or> is_join_mod m \<Longrightarrow> live_mod fl (shape_of num) m \<Longrightarrow>
       num (mod_name m) = mod_num sh1 m \<and> 0 < num (mod_name m)"
    "is_fork_mod m \<Longrightarrow> live_mod fl (shape_of num) m \<Longrightarrow> i < mod_num sh1 m \<Longrightarrow>
       proxy_route app fl m (Mod_Fork0 + word_of_nat i) = Some (fork_branch m i)"
proof -
  show fits: "app_fits app fl sh" using assms by (simp add: proxy_case_def)
  from app_fitsD [OF fits] show "states_ok app" "flags_ok fl" "addresses_ok app fl" "class_fits app fl sh m"
    by simp_all
  have sh1: "sh1 = at_least_one (shape_of num)" using assms by (simp add: proxy_case_def)
  obtain d where num: "num = nums_of (proxy_fsm app fl) d" using assms by (auto simp: proxy_case_def)
  show "num (mod_name m) = mod_num sh1 m \<and> 0 < num (mod_name m)"
    if "in_proxy fl m" "is_fork_mod m \<or> is_join_mod m" "live_mod fl (shape_of num) m"
    using live_num [OF fits num that] by (simp add: sh1)
  show "proxy_route app fl m (Mod_Fork0 + word_of_nat i) = Some (fork_branch m i)"
    if "is_fork_mod m" "live_mod fl (shape_of num) m" "i < mod_num sh1 m"
    using fork_routes [OF app_fitsD(2) [OF fits] that(1,2)] that(3) by (simp add: sh1)
qed

lemma proxy_mark_val:
  assumes pc: "proxy_case app fl sh num sh1" and m: "in_proxy fl m" "live_mod fl (shape_of num) m"
  shows "mark_val (proxy_fsm app fl) num (mod_name ` A) (by_name v)
      (Ended (proxy_module app fl m) s) = mod_val app fl sh1 A v m s"
proof -
  have A: "mod_name m \<in> mod_name ` A \<longleftrightarrow> m \<in> A" by (auto simp: image_iff)
  have route: "route (proxy_fsm app fl) (mod_name m) s = map_option mod_name (proxy_route app fl m s)"
    by (rule proxy_route_link [OF proxy_caseD(2,3) [OF pc] m(1)])
  have not_both: "\<not> (is_fork_mod m \<and> is_join_mod m)" by (cases m) simp_all
  have num: "is_join_mod m \<Longrightarrow> num (mod_name m) = mod_num sh1 m" using proxy_caseD(6) [OF pc m(1) _ m(2)] by blast
  show ?thesis
    using proxy_caseD(5) [OF pc, of m] not_both num
    by (cases "proxy_class app fl m")
      (simp_all add: class_fits_def mod_val_def proxy_module_def A route split: option.split)
qed

lemma proxy_ended:
  assumes pc: "proxy_case app fl sh num sh1" and m: "in_proxy fl m" "live_mod fl (shape_of num) m" "is_fork_mod m"
    and e: "ended_ok (proxy_fsm app fl) num (proxy_module app fl m) s"
  obtains i where "i < mod_num sh1 m" "s = Mod_Fork0 + word_of_nat i" "proxy_route app fl m s = Some (fork_branch m i)"
proof -
  from e fits_fork [OF proxy_caseD(5) [OF pc], of m] m(3) obtain i where
    i: "i < num (mod_name m)" "s = Mod_Fork0 + word_of_nat i"
    by (cases "proxy_class app fl m") (auto simp: ended_ok_def proxy_module_def)
  with proxy_caseD(6) [OF pc m(1) _ m(2)] m(3) have "i < mod_num sh1 m" by simp
  with i(2) proxy_caseD(7) [OF pc m(3,2)] that show thesis by blast
qed

lemma proxy_flows:
  assumes pc: "proxy_case app fl sh num sh1" and fl: "mod_flows app fl sh1 A v need"
  shows "flows (proxy_fsm app fl) num (by_name (live_mod fl (shape_of num))) (mod_name ` A) (by_name v) need"
  unfolding flows_def
proof (intro conjI allI impI)
  note ok = proxy_caseD [OF pc]
  note val = proxy_mark_val [OF pc, of _ A v]
  fix md s assume "registered (proxy_fsm app fl) md \<and> by_name (live_mod fl (shape_of num)) (md_name md) \<and>
    ended_ok (proxy_fsm app fl) num md s"
  then obtain m where m: "in_proxy fl m" "md = proxy_module app fl m" "live_mod fl (shape_of num) m"
    and e: "ended_ok (proxy_fsm app fl) num md s"
    by (auto simp: proxy_registered)
  have "link_ok need v (mod_val app fl sh1 A v m s) (proxy_route app fl m s)"
  proof (cases "is_fork_mod m")
    case True
    from proxy_ended [OF pc m(1,3) True e [unfolded m(2)]] obtain i where "proxy_route app fl m s = Some (fork_branch m i)" .
    then show ?thesis using True by (simp add: link_ok_def mod_val_def)
  qed (use fl in \<open>simp add: mod_flows_def\<close>)
  then have "link_flows need (by_name v) (mod_val app fl sh1 A v m s) (map_option mod_name (proxy_route app fl m s))"
    by (auto simp: link_flows_def link_ok_def split: option.splits)
  moreover have "proxy_route app fl End_mod s = None" by simp
  ultimately show "link_flows need (by_name v)
      (mark_val (proxy_fsm app fl) num (mod_name ` A) (by_name v) (Ended md s))
      (if at_end (proxy_fsm app fl) md then None else route (proxy_fsm app fl) (md_name md) s)"
    using m(1,3) by (auto simp: m(2) val proxy_at_end ok proxy_route_link simp del: mark_val.simps)
next
  note ok = proxy_caseD [OF pc]
  fix md assume "registered (proxy_fsm app fl) md \<and> by_name (live_mod fl (shape_of num)) (md_name md) \<and>
    is_fork (md_class md)"
  then obtain m where m: "in_proxy fl m" "md = proxy_module app fl m" "is_fork_mod m" "live_mod fl (shape_of num) m"
    using fits_fork [OF ok(5)] by (auto simp: proxy_registered)
  have "(\<Sum>t\<in>#fork_marks md (mod_num sh1 m).
      mark_val (proxy_fsm app fl) num (mod_name ` A) (by_name v) t) =
      (\<Sum>i<mod_num sh1 m. mod_val app fl sh1 A v m (Mod_Fork0 + word_of_nat i))"
    unfolding fork_marks_def m(2)
    by (simp add: proxy_mark_val [OF pc m(1,4)] sum_unfold_sum_mset multiset.map_comp comp_def
        atLeast0LessThan del: mark_val.simps)
  also have "\<dots> = (\<Sum>i<mod_num sh1 m. v (fork_branch m i))"
    by (rule sum.cong) (simp_all add: mod_val_def m(3,4) ok(7))
  finally show "(\<Sum>t\<in>#fork_marks md (num (md_name md)).
      mark_val (proxy_fsm app fl) num (mod_name ` A) (by_name v) t) = by_name v (md_name md)"
    using fl m(2,3) ok(6) [OF m(1) _ m(4)] by (simp add: mod_flows_def)
next
  fix start assume "fsm_start_mod (proxy_fsm app fl) = Some start"
  then have "start = proxy_module app fl Req_mod"
    by (simp add: proxy_fsm_def set_start_module_def set_end_module_def)
  then show "by_name v (md_name start) = 0 \<or> by_name v (md_name start) = need"
    using fl by (simp add: mod_flows_def del: mod_name.simps)
qed

text \<open>The weights and what is still to come flow.\<close>

lemma weight_flows: "mod_flows app fl sh {} (mod_weight sh) (mod_weight sh Req_mod)"
  unfolding mod_flows_def
proof (intro conjI allI impI)
  fix m s assume "\<not> is_fork_mod m"
  then show "link_ok (mod_weight sh Req_mod) (mod_weight sh) (mod_val app fl sh {} (mod_weight sh) m s)
      (proxy_route app fl m s)"
    by (cases m) (simp_all add: link_ok_def mod_val_def)
next
  fix m assume "is_fork_mod m"
  then show "(\<Sum>i<mod_num sh m. mod_weight sh (fork_branch m i)) = mod_weight sh m" by (cases m) simp_all
qed simp

lemma pot_flows:
  assumes "is_join_mod j"
  shows "mod_flows app fl sh {j} (mod_pot sh j) (mod_num sh j * mod_pot sh j j)"
  unfolding mod_flows_def
proof (intro conjI allI impI)
  fix m s assume "\<not> is_fork_mod m"
  with assms show "link_ok (mod_num sh j * mod_pot sh j j) (mod_pot sh j)
      (mod_val app fl sh {j} (mod_pot sh j) m s) (proxy_route app fl m s)"
    by (cases j; cases m) (simp_all add: link_ok_def mod_val_def)
next
  fix m assume "is_fork_mod m"
  with assms show "(\<Sum>i<mod_num sh m. mod_pot sh j (fork_branch m i)) = mod_pot sh j m"
    by (cases j; cases m) simp_all
qed (use assms in \<open>cases j; simp\<close>)

section \<open>The proxy is balanced\<close>

lemma mod_weight_pos: "0 < mod_weight (at_least_one sh) m"
  by (cases m) (simp_all add: less_max_iff_disj)

lemma mod_pot_pos: "is_join_mod j \<Longrightarrow> 0 < mod_pot (at_least_one sh) j j"
  by (cases j) (simp_all add: less_max_iff_disj)

lemma mod_pot_later:
  "is_join_mod j \<Longrightarrow> is_join_mod j' \<Longrightarrow> mod_pot sh j j' \<noteq> 0 \<Longrightarrow> j' \<noteq> j \<Longrightarrow> mod_rank j < mod_rank j'"
  by (cases j; cases j') (simp_all split: if_splits)

lemma proxy_never_stops:
  assumes "app_fits app fl sh"
  shows "never_stops (proxy_fsm app fl)"
  unfolding never_stops_def
proof (intro allI impI)
  fix md assume "registered (proxy_fsm app fl) md"
  then obtain m where "md = proxy_module app fl m" by (auto simp: proxy_registered)
  with app_fitsD(5) [OF assms, of m] show "\<not> may_stop (md_class md)"
    by (cases "proxy_class app fl m") (auto simp: class_fits_def)
qed

text \<open>A request comes to the forks only with branches.\<close>

lemma live_route:
  assumes "proxy_route app fl m s = Some t" and "live_mod fl sh m"
    and "m = Gen_fs_req_mod \<Longrightarrow> s = Mod_Succeed \<Longrightarrow> fs_ready fl sh"
    and "m = Gen_ps_req_mod \<Longrightarrow> s = Mod_Succeed \<Longrightarrow> ps_ready fl sh"
  shows "live_mod fl sh t"
  using assms by (cases m) (auto simp: branch_def Let_def split: if_splits)

lemma gen_ready:
  assumes fits: "app_fits app fl sh" and e: "ended_ok (proxy_fsm app fl) num (proxy_module app fl m) Mod_Succeed"
    and num: "num = nums_of (proxy_fsm app fl) d"
  shows "m = Gen_fs_req_mod \<Longrightarrow> fs_ready fl (shape_of num)" "m = Gen_ps_req_mod \<Longrightarrow> ps_ready fl (shape_of num)"
proof -
  have "may_end (proxy_fsm app fl) (proxy_class app fl m) Mod_Succeed num" if "\<not> is_fork_mod m" "\<not> is_join_mod m"
    using e app_fitsD(5) [OF fits, of m] that
    by (cases "proxy_class app fl m") (simp_all add: ended_ok_def class_fits_def)
  with app_fitsD(4) [OF fits] show
    "m = Gen_fs_req_mod \<Longrightarrow> fs_ready fl (shape_of num)" "m = Gen_ps_req_mod \<Longrightarrow> ps_ready fl (shape_of num)"
    unfolding num shape_ready [OF fits] by (simp_all add: forks_ready_def)
qed

lemma proxy_lives:
  assumes pc: "proxy_case app fl sh num sh1"
  shows "lives (proxy_cert fl) (proxy_fsm app fl) num"
  unfolding lives_def
proof (intro conjI allI impI)
  fix start assume "fsm_start_mod (proxy_fsm app fl) = Some start"
  then have "start = proxy_module app fl Req_mod"
    by (simp add: proxy_fsm_def set_start_module_def set_end_module_def)
  then show "ct_live (proxy_cert fl) num (md_name start)" by (simp add: proxy_cert_def del: mod_name.simps)
next
  note ok = proxy_caseD [OF pc]
  fix md s t
  assume a: "registered (proxy_fsm app fl) md \<and> ct_live (proxy_cert fl) num (md_name md) \<and>
    ended_ok (proxy_fsm app fl) num md s \<and> \<not> at_end (proxy_fsm app fl) md \<and>
    route (proxy_fsm app fl) (md_name md) s = Some t"
  then obtain m where m: "in_proxy fl m" "md = proxy_module app fl m" "live_mod fl (shape_of num) m"
    by (auto simp: proxy_registered proxy_cert_def)
  obtain d where num: "num = nums_of (proxy_fsm app fl) d" using pc by (auto simp: proxy_case_def)
  from a m obtain m' where m': "proxy_route app fl m s = Some m'" "t = mod_name m'"
    by (auto simp: proxy_route_link ok)
  have "live_mod fl (shape_of num) m'"
    by (rule live_route [OF m'(1) m(3)]) (use gen_ready [OF ok(1) _ num, of m] a m(2) in auto)
  then show "ct_live (proxy_cert fl) num t" by (simp add: proxy_cert_def m'(2))
next
  note ok = proxy_caseD [OF pc]
  fix md assume "registered (proxy_fsm app fl) md \<and> ct_live (proxy_cert fl) num (md_name md) \<and>
    (is_fork (md_class md) \<or> is_join (md_class md))"
  then obtain m where m: "in_proxy fl m" "md = proxy_module app fl m" "live_mod fl (shape_of num) m"
    "is_fork_mod m \<or> is_join_mod m"
    using fits_fork [OF ok(5)] fits_join [OF ok(5)] by (auto simp: proxy_registered proxy_cert_def)
  then show "0 < num (md_name md)" using ok(6) [of m] by simp
next
  note ok = proxy_caseD [OF pc]
  fix md s assume a: "registered (proxy_fsm app fl) md \<and> ct_live (proxy_cert fl) num (md_name md) \<and>
    is_fork (md_class md) \<and> ended_ok (proxy_fsm app fl) num md s"
  then obtain m where m: "in_proxy fl m" "md = proxy_module app fl m" "live_mod fl (shape_of num) m" "is_fork_mod m"
    using fits_fork [OF ok(5)] by (auto simp: proxy_registered proxy_cert_def)
  with a have "ended_ok (proxy_fsm app fl) num (proxy_module app fl m) s" by simp
  from proxy_ended [OF pc m(1,3,4) this] obtain i where "proxy_route app fl m s = Some (fork_branch m i)" .
  with m mod_weight_pos show "\<exists>t. route (proxy_fsm app fl) (md_name md) s = Some t \<and> 0 < ct_weight (proxy_cert fl) num t"
    by (simp add: proxy_route_link ok proxy_cert_def)
  have "m \<noteq> End_mod" using m(4) by auto
  with m show "\<not> at_end (proxy_fsm app fl) md" by (simp add: proxy_at_end ok)
qed

lemma proxy_live_join:
  assumes pc: "proxy_case app fl sh num sh1" and j: "j \<in> live_joins (proxy_cert fl) (proxy_fsm app fl) num"
  obtains m where "j = mod_name m" "is_join_mod m" "num j = mod_num sh1 m"
proof -
  from j obtain m where m: "j = mod_name m" "in_proxy fl m" "is_join_mod m" "live_mod fl (shape_of num) m"
    using fits_join [OF proxy_caseD(5) [OF pc]]
    by (auto simp: live_joins_def join_names_def proxy_registered proxy_cert_def)
  with proxy_caseD(6) [OF pc m(2)] that show thesis by blast
qed

lemma proxy_cert_fields:
  "ct_weight (proxy_cert fl) num = by_name (mod_weight (at_least_one (shape_of num)))"
  "ct_live (proxy_cert fl) num = by_name (live_mod fl (shape_of num))"
  "ct_pot (proxy_cert fl) num (mod_name m) = by_name (mod_pot (at_least_one (shape_of num)) m)"
  by (simp_all add: proxy_cert_def)

lemma proxy_whole: "whole (proxy_cert fl) (proxy_fsm app fl) num = mod_weight (at_least_one (shape_of num)) Req_mod"
  by (simp add: whole_def proxy_fsm_def set_start_module_def set_end_module_def proxy_cert_fields
      del: mod_name.simps mod_weight.simps)

lemma proxy_balanced_at:
  assumes pc: "proxy_case app fl sh num sh1"
  shows "balanced_at proxy_rank (proxy_cert fl) (proxy_fsm app fl) num"
  unfolding balanced_at_def
proof (intro conjI allI ballI impI)
  have sh1: "sh1 = at_least_one (shape_of num)" using pc by (simp add: proxy_case_def)
  show "lives (proxy_cert fl) (proxy_fsm app fl) num" by (rule proxy_lives [OF pc])
  show "flows (proxy_fsm app fl) num (ct_live (proxy_cert fl) num) {} (ct_weight (proxy_cert fl) num)
      (whole (proxy_cert fl) (proxy_fsm app fl) num)"
    using proxy_flows [OF pc weight_flows] by (simp add: proxy_cert_fields proxy_whole sh1 del: mod_weight.simps)
  fix md assume "registered (proxy_fsm app fl) md \<and> ct_live (proxy_cert fl) num (md_name md)"
  then show "0 < ct_weight (proxy_cert fl) num (md_name md)"
    using mod_weight_pos by (auto simp: proxy_registered proxy_cert_fields)
next
  have sh1: "sh1 = at_least_one (shape_of num)" using pc by (simp add: proxy_case_def)
  fix j assume "j \<in> live_joins (proxy_cert fl) (proxy_fsm app fl) num"
  from proxy_live_join [OF pc this] obtain m where m: "j = mod_name m" "is_join_mod m" "num j = mod_num sh1 m" .
  show "flows (proxy_fsm app fl) num (ct_live (proxy_cert fl) num) {j} (ct_pot (proxy_cert fl) num j)
      (need_of (proxy_cert fl) num j)"
    using proxy_flows [OF pc pot_flows [OF m(2)]] m(3) by (simp add: proxy_cert_fields m(1) sh1)
  show "0 < ct_pot (proxy_cert fl) num j j" using mod_pot_pos [OF m(2)] by (simp add: proxy_cert_fields m(1))
  fix j' assume "j' \<in> live_joins (proxy_cert fl) (proxy_fsm app fl) num"
    and pot: "ct_pot (proxy_cert fl) num j j' \<noteq> 0 \<and> j' \<noteq> j"
  from proxy_live_join [OF pc this(1)] obtain m' where "j' = mod_name m'" "is_join_mod m'" .
  with pot m mod_pot_later [of m m' "at_least_one (shape_of num)"] show "proxy_rank j < proxy_rank j'"
    by (simp add: proxy_cert_fields proxy_rank_def)
qed

lemma proxy_settles:
  assumes pc: "proxy_case app fl sh num sh1" and m: "sets_nums m"
  shows "settles (proxy_cert fl) (proxy_fsm app fl) num (mod_name m)"
  unfolding settles_def
proof (intro conjI ballI)
  have sh1: "sh1 = at_least_one (shape_of num)" using pc by (simp add: proxy_case_def)
  show "ct_live (proxy_cert fl) num (mod_name m)" using m by (cases m) (simp_all add: proxy_cert_fields del: mod_name.simps)
  show "ct_weight (proxy_cert fl) num (mod_name m) = whole (proxy_cert fl) (proxy_fsm app fl) num"
    using m by (cases m) (simp_all add: proxy_cert_fields proxy_whole del: mod_name.simps)
  fix j assume "j \<in> live_joins (proxy_cert fl) (proxy_fsm app fl) num"
  from proxy_live_join [OF pc this] obtain m' where "j = mod_name m'" "is_join_mod m'" "num j = mod_num sh1 m'" .
  with m show "ct_pot (proxy_cert fl) num j (mod_name m) = need_of (proxy_cert fl) num j"
    by (cases m; cases m') (simp_all add: proxy_cert_fields sh1 del: mod_name.simps)
qed

lemma proxy_balanced:
  assumes fits: "app_fits app fl sh"
  shows "balanced proxy_rank (proxy_cert fl) (proxy_fsm app fl)"
  unfolding balanced_def timers_ok_def
proof (intro conjI allI impI)
  have pc: "proxy_case app fl sh (nums_of (proxy_fsm app fl) d) (at_least_one (shape_of (nums_of (proxy_fsm app fl) d)))" for d
    using fits by (auto simp: proxy_case_def)
  show "never_stops (proxy_fsm app fl)" by (rule proxy_never_stops [OF fits])
  show "balanced_at proxy_rank (proxy_cert fl) (proxy_fsm app fl) (nums_of (proxy_fsm app fl) d)" for d
    by (rule proxy_balanced_at [OF pc])
  show "timers_keep (proxy_fsm app fl) (md_class md)" if "registered (proxy_fsm app fl) md" for md
    using that app_fitsD(6) [OF fits] by (auto simp: proxy_registered hooks_fit_def)
  fix md d assume "registered (proxy_fsm app fl) md \<and> \<not> class_keeps (proxy_fsm app fl) (md_class md)"
  then obtain m where m: "md = proxy_module app fl m" "\<not> class_keeps (proxy_fsm app fl) (proxy_class app fl m)"
    by (auto simp: proxy_registered)
  with app_fitsD(6) [OF fits, of m] have "sets_nums m" by (simp add: hooks_fit_def)
  with m(1) proxy_settles [OF pc] show "settles (proxy_cert fl) (proxy_fsm app fl) (nums_of (proxy_fsm app fl) d) (md_name md)"
    by simp
qed

section \<open>The proxy serves every connection\<close>

lemma proxy_balanced_start:
  assumes "app_fits app fl sh" and "classes_ok app fl" and "classes_placed app fl"
  shows "balanced_start proxy_rank (proxy_cert fl) 15 (proxy_world app fl hp g r)"
proof -
  have "w_fsm (proxy_world app fl hp g r) = proxy_fsm app fl"
    by (simp add: proxy_world_def register_fsm_data_factory_def start_accept_def Let_def)
  moreover have "\<exists>w0. w_pending w0 = [] \<and> proxy_world app fl hp g r = start_accept w0"
    unfolding proxy_world_def by (rule exI, rule conjI [rotated], rule refl) (simp add: register_fsm_data_factory_def)
  moreover have "w_next_ctx (proxy_world app fl hp g r) = 0"
    by (simp add: proxy_world_def register_fsm_data_factory_def start_accept_def Let_def start_op_def)
  ultimately show ?thesis
    using proxy_world_start [OF assms(2)] proxy_forks_split [OF app_fitsD(1,2) [OF assms(1)] assms(3)]
      proxy_balanced [OF assms(1)] by (simp add: balanced_start_def split_start_def)
qed

text \<open>
  C12: The example server serves every connection for ever. Assumed of the application: the numbers of
  branches are set, from the data of the request, by the request module and the two modules that prepare
  back-end requests, and by no other module or time-out method; a fork opens as many branches as its
  join waits for, never more than it was constructed with; a prepare module succeeds only when there are
  branches; the modules named forks and joins are the only ones of these classes, \<open>ReqModule\<close> is a
  \<open>RequestModule\<close>, no module after a join is a \<open>TcpModule\<close>, no module that computes answers \<open>Mod_async\<close>;
  none of the five own states is \<open>Mod_else\<close>; the module objects are at different addresses. Of the flags:
  the three numbers of branches are below \<open>2^16\<close> and their product is within an \<open>int\<close>. Of the run: it is
  infinite (no exception escapes), every pending operation completes at some time, with whatever result,
  and cancelling a timer reports no error (\<open>sound_env\<close>). Then each request is at work for a finite time; a
  connection is never at work for two requests at once; and it is given the context of a next request
  again and again, without end, unless one of its contexts is told to exit. Feature or prediction
  servers that fail, time out or are not there at all do not change this.
\<close>

theorem proxy_serves_forever:
  assumes "app_fits app fl sh" and "classes_ok app fl" and "classes_placed app fl"
    and "run 0 = proxy_world app fl hp g r"
    and "\<And>k. turn sound_env 15 (act k) (run k) (run (Suc k))" and "all_complete act run"
  shows "finite {k. works (run k) c} \<and>
    (\<forall>c \<in> conn_ctxs (run k) conn. \<forall>c' \<in> conn_ctxs (run k) conn.
       works (run k) c \<and> works (run k) c' \<longrightarrow> c = c') \<and>
    (conn_ctxs (run k) conn \<noteq> {} \<longrightarrow>
       (\<exists>j. conn_exits (run j) conn) \<or> infinite (\<Union>j. conn_ctxs (run j) conn))"
proof -
  have start: "balanced_start proxy_rank (proxy_cert fl) 15 (run 0)"
    using proxy_balanced_start [OF assms(1-3)] assms(4) by simp
  have inv: "balanced_inv proxy_rank (proxy_cert fl) 15 (run k)" for k
    by (induction k) (use balanced_start_inv [OF start] balanced_step_inv turn_step [OF assms(5)] in blast)+
  note served = served_run [OF reach_init [of "balanced_start proxy_rank (proxy_cert fl) 15", OF start] assms(5,6)]
  show ?thesis using served balanced_served [OF inv, of k] by blast
qed

section \<open>A witness\<close>

text \<open>A demonstration application with objects at different addresses, on the default flags.\<close>

fun demo_addr :: "proxy_mod \<Rightarrow> nat" where
  "demo_addr (Fs_mod i) = 20 + i"
| "demo_addr (Ps_fork_mod2 i) = 30 + i"
| "demo_addr (Ps_join_mod2 i) = 40 + i"
| "demo_addr (Ps_mod i) = 50 + i"
| "demo_addr (Ps_backfill_mod i) = 70 + i"
| "demo_addr (Ps_mod2 i j) = 100 + 10 * i + j"
| "demo_addr (Ps_backfill_mod2 i j) = 200 + 10 * i + j"
| "demo_addr Req_mod = 0"
| "demo_addr Gen_fs_req_mod = 1"
| "demo_addr Fs_fork_mod = 2"
| "demo_addr Fs_join_mod = 3"
| "demo_addr Gen_ps_req_mod = 4"
| "demo_addr Ps_fork_mod = 5"
| "demo_addr Ps_join_mod = 6"
| "demo_addr If_rand_mod = 7"
| "demo_addr Resp_mod = 8"
| "demo_addr Rand_resp_mod = 9"
| "demo_addr Empty_resp_mod = 10"
| "demo_addr End_mod = 11"

text \<open>
  Its numbers depend on the request: the sub-models are read from the body, the shards are set when
  the requests to the back-ends are prepared; without a sub-model there is no request to a feature
  server.
\<close>

definition up_to :: "u16 \<Rightarrow> nat \<Rightarrow> u16" where
  "up_to k x = word_of_nat (min x (unat k))"

definition read_models :: "bytes \<Rightarrow> u32 \<Rightarrow> nat fsm_data \<Rightarrow> bool \<times> nat fsm_data" where
  "read_models b n d = (True, d\<lparr>fd_data := (fd_data d)\<lparr>sub_model_id_list := map ucast b\<rparr>\<rparr>)"

definition gen_fs :: "nat fsm_data \<Rightarrow> ModState \<times> nat fsm_data" where
  "gen_fs d = (if sub_model_id_list (fd_data d) = [] then Mod_Failed else Mod_Succeed,
     d\<lparr>fd_data := (fd_data d)\<lparr>shard_fs_num := 2\<rparr>\<rparr>)"

definition gen_ps :: "nat fsm_data \<Rightarrow> ModState \<times> nat fsm_data" where
  "gen_ps d = (Mod_Succeed, d\<lparr>fd_data := (fd_data d)\<lparr>shard_ps_num := 3\<rparr>\<rparr>)"

definition placed_app :: "nat fsm_data proxy_classes" where
  "placed_app = demo_app\<lparr>new_addr := demo_addr,
     ReqModule := RequestModule (demo_hooks\<lparr>rq_on_read_body_impl := read_models\<rparr>),
     GenFsReqModule := SimpleModule gen_fs, GenPsReqModule := SimpleModule gen_ps,
     FsForkModule := (\<lambda>k. ForkModule k (\<lambda>d. up_to k (unat (shard_fs_num (fd_data d))))),
     FsJoinModule := (\<lambda>k. JoinModule k (\<lambda>d. up_to k (unat (shard_fs_num (fd_data d))))),
     PsForkModule2 := (\<lambda>k. ForkModule k (\<lambda>d. up_to k (length (sub_model_id_list (fd_data d))))),
     PsJoinModule2 := (\<lambda>k. JoinModule k (\<lambda>d. up_to k (length (sub_model_id_list (fd_data d))))),
     PsForkModule := (\<lambda>k. ForkModule k (\<lambda>d. up_to k (unat (shard_ps_num (fd_data d))))),
     PsJoinModule := (\<lambda>k. JoinModule k (\<lambda>d. up_to k (unat (shard_ps_num (fd_data d)))))\<rparr>"

definition demo_shape :: "nat fsm_data \<Rightarrow> proxy_shape" where
  "demo_shape d = \<lparr> fs_num = min (unat (shard_fs_num (fd_data d))) 8,
     ps2_num = min (length (sub_model_id_list (fd_data d))) 5, ps_num = min (unat (shard_ps_num (fd_data d))) 15 \<rparr>"

lemma up_to: "unat (up_to k x) = min x (unat k)" "up_to k x \<le> k"
proof -
  have "min x (unat k) < 2 ^ LENGTH(16)" using unsigned_less [of k, where 'a = nat] by simp
  then show "unat (up_to k x) = min x (unat k)"
    unfolding up_to_def by (simp add: unsigned_of_nat take_bit_nat_eq_self)
  then show "up_to k x \<le> k" by (simp add: word_le_nat_alt)
qed

lemma demo_max:
  "MAX_FS_FORK_NUM default_flags = 8" "MAX_PS2_FORK_NUM default_flags = 5" "MAX_PS_FORK_NUM default_flags = 15"
  by (simp_all add: default_flags_def MAX_FS_FORK_NUM_def MAX_PS2_FORK_NUM_def MAX_PS_FORK_NUM_def)

text \<open>The object at an address.\<close>

definition demo_at :: "nat \<Rightarrow> proxy_mod" where
  "demo_at a =
     (if a < 20 then [Req_mod, Gen_fs_req_mod, Fs_fork_mod, Fs_join_mod, Gen_ps_req_mod, Ps_fork_mod, Ps_join_mod,
        If_rand_mod, Resp_mod, Rand_resp_mod, Empty_resp_mod, End_mod] ! a
      else if a < 30 then Fs_mod (a - 20) else if a < 40 then Ps_fork_mod2 (a - 30)
      else if a < 50 then Ps_join_mod2 (a - 40) else if a < 70 then Ps_mod (a - 50)
      else if a < 100 then Ps_backfill_mod (a - 70)
      else if a < 200 then Ps_mod2 ((a - 100) div 10) ((a - 100) mod 10)
      else Ps_backfill_mod2 ((a - 200) div 10) ((a - 200) mod 10))"

lemma demo_at_addr: "in_proxy default_flags m \<Longrightarrow> demo_at (demo_addr m) = m"
proof -
  have two: "(10 * i + j) mod 10 = j" "(10 * i + j) div 10 = i" if "j < 5" for i j :: nat
    using that by simp_all
  assume "in_proxy default_flags m"
  then show ?thesis
    by (cases m) (simp_all add: demo_at_def demo_max two)
qed

lemmas placed_defs = placed_app_def demo_app_def demo_step_def demo_back_def demo_hooks_def

lemma placed_class_fits: "class_fits placed_app default_flags demo_shape m"
  by (cases m) (simp_all add: class_fits_def placed_defs demo_shape_def demo_max up_to gen_fs_def gen_ps_def
      mod_state_defs)

lemma placed_hooks_fit: "hooks_fit placed_app default_flags m"
  by (cases m) (simp_all add: hooks_fit_def keeps_nums_def placed_defs)

lemma placed_ready: "forks_ready placed_app default_flags demo_shape"
proof -
  let ?f = "proxy_fsm placed_app default_flags"
  note nums = proxy_nums [OF placed_class_fits]
  have fs: "fs_num (demo_shape d) = fs_num (demo_shape d') \<and> ps2_num (demo_shape d) = ps2_num (demo_shape d')"
    if "nums_of ?f d = nums_of ?f d'" for d d'
    using nums [of Fs_fork_mod d] nums [of Fs_fork_mod d'] nums [of "Ps_fork_mod2 0" d] nums [of "Ps_fork_mod2 0" d'] that
    by (simp add: demo_max del: mod_name.simps)
  have ps: "ps_num (demo_shape d) = ps_num (demo_shape d')" if "nums_of ?f d = nums_of ?f d'" for d d'
    using nums [of Ps_fork_mod d] nums [of Ps_fork_mod d'] that by (simp del: mod_name.simps)
  have go_fs: "fs_ready default_flags (demo_shape (snd (gen_fs d)))" if "fst (gen_fs d) = Mod_Succeed" for d
    using that by (cases "sub_model_id_list (fd_data d)")
      (simp_all add: fs_ready_def demo_shape_def gen_fs_def demo_max mod_state_defs)
  have go_ps: "ps_ready default_flags (demo_shape (snd (gen_ps d)))" for d
    by (simp add: ps_ready_def demo_shape_def gen_ps_def demo_max)
  have gens: "GenFsReqModule placed_app = SimpleModule gen_fs" "GenPsReqModule placed_app = SimpleModule gen_ps"
    by (simp_all add: placed_app_def)
  show ?thesis
    unfolding forks_ready_def
  proof (intro conjI allI impI)
    fix d assume "may_end ?f (GenFsReqModule placed_app) Mod_Succeed (nums_of ?f d)"
    then obtain d' where d': "fst (gen_fs d') = Mod_Succeed" "nums_of ?f (snd (gen_fs d')) = nums_of ?f d"
      by (auto simp: gens)
    from fs [OF d'(2) [symmetric]] go_fs [OF d'(1)] show "fs_ready default_flags (demo_shape d)" by (simp add: fs_ready_def)
  next
    fix d assume "may_end ?f (GenPsReqModule placed_app) Mod_Succeed (nums_of ?f d)"
    then obtain d' where d': "nums_of ?f (snd (gen_ps d')) = nums_of ?f d"
      by (auto simp: gens)
    from ps [OF d' [symmetric]] go_ps [of d'] show "ps_ready default_flags (demo_shape d)" by (simp add: ps_ready_def)
  qed
qed

lemma placed_fits: "app_fits placed_app default_flags demo_shape"
proof -
  have "addresses_ok placed_app default_flags"
    using inj_on_inverseI [of "{m. in_proxy default_flags m}" demo_at demo_addr] demo_at_addr
    by (simp add: addresses_ok_def placed_app_def)
  moreover have "states_ok placed_app" using demo_states by (simp add: states_ok_def placed_app_def)
  ultimately show ?thesis
    using demo_flags placed_class_fits placed_hooks_fit placed_ready by (simp add: app_fits_def)
qed

lemma placed_classes: "classes_ok placed_app default_flags"
proof -
  have "\<forall>d. h d \<le> k" if "proxy_class placed_app default_flags m = ForkModule k h" for m k h
    using that by (cases m) (auto simp: placed_app_def demo_app_def demo_step_def up_to)
  then show ?thesis by (auto simp: classes_ok_def placed_app_def)
qed

lemma placed_placed: "classes_placed placed_app default_flags"
  unfolding classes_placed_def
proof
  fix m show "(is_fork (proxy_class placed_app default_flags m) \<longrightarrow> is_fork_mod m) \<and>
      (is_tcp (proxy_class placed_app default_flags m) \<longrightarrow> \<not> joined m)"
    by (cases m) (simp_all add: placed_app_def demo_app_def demo_step_def)
qed

definition placed_world :: "nat fsm_data world" where
  "placed_world = proxy_world placed_app default_flags (\<lambda>i. tcp_client_new quiet_env 0)
     (\<lambda>c n. (Socket_Event_Opened, 7, True)) (\<lambda>k. 42)"

theorem proxy_serves_forever_witness:
  "(\<forall>k. turn sound_env 15 (Some 0) (in_order 15 placed_world k) (in_order 15 placed_world (Suc k))) \<and>
   finite {k. works (in_order 15 placed_world k) 0}"
proof -
  have start: "balanced_start proxy_rank (proxy_cert default_flags) 15 placed_world"
    unfolding placed_world_def by (rule proxy_balanced_start [OF placed_fits placed_classes placed_placed])
  note run = in_order_run [OF start]
  have "finite {k. works (in_order 15 placed_world k) 0}"
    by (rule proxy_serves_forever [OF placed_fits placed_classes placed_placed _ run, THEN conjunct1])
      (simp add: placed_world_def)
  with run(1) show ?thesis by blast
qed

end
