(* ===== verification/Pool_Report.thy ===== *)
theory Pool_Report
  imports Client_Pool Decimal
begin

text \<open>
  \<open>TcpClientPool::debug_string\<close> (client/tcp_client_pool.cc): the number of free clients of
  every peer as text, and how to read it back.
\<close>

fun debug_loop :: "int list \<Rightarrow> tcp_client_pool \<Rightarrow> string \<Rightarrow> string" where
  "debug_loop [] p stream = stream"
| "debug_loop (k # ks) p stream =
     debug_loop ks p
       (stream @ show_int k @ '':'' @
        show_nat (case cp_free_clients p k of None \<Rightarrow> 0 | Some dq \<Rightarrow> length dq) @ '' '')"

definition debug_string :: "int list \<Rightarrow> tcp_client_pool \<Rightarrow> string" where
  "debug_string ks p = debug_loop ks p []"

section \<open>Reading a report\<close>

text \<open>Splitting at the first occurrence of a character.\<close>

definition split_at :: "char \<Rightarrow> string \<Rightarrow> string \<times> string" where
  "split_at c s = (takeWhile (\<lambda>x. x \<noteq> c) s, tl (dropWhile (\<lambda>x. x \<noteq> c) s))"

lemma split_at_append [simp]: "c \<notin> set xs \<Longrightarrow> split_at c (xs @ c # ys) = (xs, ys)"
  by (induction xs) (auto simp: split_at_def)

lemma split_at_shorter: "length (snd (split_at c s)) \<le> length s - 1"
  by (cases "dropWhile (\<lambda>x. x \<noteq> c) s") (use length_dropWhile_le [of "\<lambda>x. x \<noteq> c" s] in \<open>auto simp: split_at_def\<close>)

function read_report :: "string \<Rightarrow> (int \<times> nat) list" where
  "read_report s =
     (if s = [] then []
      else (let (k, r) = split_at CHR '':'' s; (n, r') = split_at CHR '' '' r
            in (read_int k, read_nat n) # read_report r'))"
  by pat_completeness auto

termination
proof (relation "measure length")
  fix s k r n r' p q
  assume "s \<noteq> []" and "p = split_at CHR '':'' s" "(k, r) = p" and "q = split_at CHR '' '' r" "(n, r') = q"
  then have "split_at CHR '':'' s = (k, r)" "split_at CHR '' '' r = (n, r')" by simp_all
  with \<open>s \<noteq> []\<close> show "(r', s) \<in> measure length"
    using split_at_shorter [of "CHR '':''" s] split_at_shorter [of "CHR '' ''" r] by (cases s) auto
qed simp

declare read_report.simps [simp del]

text \<open>One entry, and a report as the sequence of its entries.\<close>

definition report_entry :: "int \<times> nat \<Rightarrow> string" where
  "report_entry e = show_int (fst e) @ '':'' @ show_nat (snd e) @ '' ''"

lemma no_separators:
  "CHR '':'' \<notin> set (show_int i)" "CHR '' '' \<notin> set (show_nat n)"
  using show_int_chars [of "CHR '':''" i] show_nat_digits [of "CHR '' ''" n] by (auto simp: is_digit_def)

lemma read_report_entry: "read_report (report_entry e @ s) = e # read_report s"
proof -
  obtain k n where e: "e = (k, n)" by fastforce
  have "read_report (show_int k @ CHR '':'' # show_nat n @ CHR '' '' # s) = (k, n) # read_report s"
    by (subst read_report.simps) (simp add: no_separators)
  with e show ?thesis by (simp add: report_entry_def)
qed

lemma read_report_entries: "read_report (concat (map report_entry es)) = es"
  by (induction es) (simp_all add: read_report_entry read_report.simps [of "[]"])

lemma debug_loop_entries:
  "debug_loop ks p s = s @ concat (map (\<lambda>k. report_entry (k, length (pool_deque p k))) ks)"
  by (induction ks p s rule: debug_loop.induct)
    (simp_all add: report_entry_def pool_deque_def split: option.split)

text \<open>
  C36: The report of a pool is unambiguous: reading \<open>debug_string\<close> back yields, in iteration order,
  every peer with the number of free clients waiting for it, negative peer ids included, and the
  numbers add up to \<open>size\<close>.
\<close>

theorem debug_string_reads_back:
  "read_report (debug_string ks p) = map (\<lambda>k. (k, length (pool_deque p k))) ks \<and>
   sum_list (map snd (read_report (debug_string ks p))) = pool_size ks p"
proof -
  have report: "read_report (debug_string ks p) = map (\<lambda>k. (k, length (pool_deque p k))) ks"
    using read_report_entries [of "map (\<lambda>k. (k, length (pool_deque p k))) ks"]
    by (simp add: debug_string_def debug_loop_entries comp_def)
  moreover have "pool_size_loop ks p m = m + sum_list (map (\<lambda>k. length (pool_deque p k)) ks)" for m
    by (induction ks arbitrary: m) (auto simp: pool_deque_def split: option.split)
  ultimately show ?thesis by (simp add: pool_size_def comp_def)
qed

end
