(* ===== verification/Example_Modules.thy ===== *)
theory Example_Modules
  imports Proxy_Data Response_Module
begin

text \<open>
  The two modules that show how application modules are written (example1/KaraModule and
  GuruModule): classes derived from \<open>SimpleModule\<close> by \<open>BEGIN_CLASS\<close> (macro_define/ModuleDefines.h)
  that reach the shared data through the accessors their data headers declare. The members they
  use are not members of the repository's \<open>Data\<close>, so the members are a parameter,
  \<open>example_members\<close>; so is the type of \<open>float\<close>.
\<close>

section \<open>Data\<close>

record 'f CustomData1 =
  cd1_d1 :: 'f
  cd1_d2 :: c_int
  cd1_name :: string

record 'f CustomData2 =
  cd2_d1 :: 'f
  cd2_d2 :: c_int
  cd2_name :: string

text \<open>The members that the two modules see, with their accessors.\<close>

record ('d, 'f) example_members =
  ex_id :: "('d, c_int) member"
  ex_school :: "('d, 16 word) member"
  ex_price :: "('d, 'f) member"
  ex_name :: "('d, string) member"
  ex_data1 :: "('d, 'f CustomData1) member"
  ex_data2 :: "('d, 'f CustomData2) member"

text \<open>
  The accessors each module is given. A declaration for reading gives \<open>get\<close>, one for writing
  gives \<open>set\<close> (of a value) or \<open>get_mutable\<close> (of an object).
\<close>

datatype access = Get_var string | Set_var string | Mutable_var string

definition VAR_R :: "bool \<Rightarrow> string \<Rightarrow> access list" where
  "VAR_R obj v = [Get_var v]"

definition VAR_W :: "bool \<Rightarrow> string \<Rightarrow> access list" where
  "VAR_W obj v = [if obj then Mutable_var v else Set_var v]"

definition VAR_RW :: "bool \<Rightarrow> string \<Rightarrow> access list" where
  "VAR_RW obj v = VAR_W obj v @ VAR_R obj v"

definition KaraModuleData :: "access list" where
  "KaraModuleData = VAR_W False ''id'' @ VAR_R False ''school'' @ VAR_RW False ''price'' @
     VAR_R True ''name'' @ VAR_W True ''data1'' @ VAR_RW True ''data2''"

definition GuruModuleData :: "access list" where
  "GuruModuleData = VAR_R False ''id'' @ VAR_W False ''school'' @ VAR_W True ''name'' @
     VAR_R True ''data1'' @ VAR_W True ''data2''"

section \<open>The modules\<close>

text \<open>\<open>KaraModule::run_impl\<close>; the references it takes at the end are not used.\<close>

definition kara_run_impl :: "('d, 'f) example_members \<Rightarrow> 'd \<Rightarrow> ModState \<times> 'd" where
  "kara_run_impl ex d =
     (let d = set_var (ex_id ex) 10 d;
          name = get_var (ex_name ex) d;
          data1 = get_var (ex_data1 ex) d
      in (Mod_Succeed, d))"

definition guru_run_impl :: "('d, 'f) example_members \<Rightarrow> 'd \<Rightarrow> ModState \<times> 'd" where
  "guru_run_impl ex d =
     (let id = get_var (ex_id ex) d;
          d = set_var (ex_school ex) 40 d;
          d = mutate_var (ex_name ex) (\<lambda>name. ''abc'') d;
          data1 = get_var (ex_data1 ex) d
      in (Mod_Succeed, d))"

text \<open>The classes, by their base class.\<close>

definition KaraModule :: "('d, 'f) example_members \<Rightarrow> 'd module_class" where
  "KaraModule ex = SimpleModule (kara_run_impl ex)"

definition GuruModule :: "('d, 'f) example_members \<Rightarrow> 'd module_class" where
  "GuruModule ex = SimpleModule (guru_run_impl ex)"

text \<open>The accessors that their methods call, in order.\<close>

definition kara_calls :: "access list" where
  "kara_calls = [Set_var ''id'', Get_var ''name'', Mutable_var ''data1'']"

definition guru_calls :: "access list" where
  "guru_calls = [Get_var ''id'', Set_var ''school'', Mutable_var ''name'', Get_var ''data1'']"

lemma calls_declared:
  "set kara_calls \<subseteq> set KaraModuleData" "set guru_calls \<subseteq> set GuruModuleData"
  by (auto simp: kara_calls_def guru_calls_def KaraModuleData_def GuruModuleData_def
      VAR_R_def VAR_W_def VAR_RW_def)

section \<open>What they leave behind\<close>

text \<open>Members that behave as members of a struct do.\<close>

definition stores :: "('d, 'v) member \<Rightarrow> bool" where
  "stores m \<longleftrightarrow> (\<forall>x d. get_var m (set_var m x d) = x)"

definition apart :: "('d, 'v) member \<Rightarrow> ('d, 'u) member \<Rightarrow> bool" where
  "apart m m' \<longleftrightarrow>
     (\<forall>x d. get_var m' (set_var m x d) = get_var m' d) \<and> (\<forall>x d. get_var m (set_var m' x d) = get_var m d) \<and>
     (\<forall>x y d. set_var m x (set_var m' y d) = set_var m' y (set_var m x d))"

text \<open>
  The two modules write different members, so the order in which the machine runs them does not
  matter: both leave \<open>id\<close> 10, \<open>school\<close> 40 and the name \<open>abc\<close>, and both succeed.
\<close>

lemma kara_guru_order:
  assumes "stores (ex_id ex)" "stores (ex_school ex)" "stores (ex_name ex)"
    and "apart (ex_id ex) (ex_school ex)" "apart (ex_id ex) (ex_name ex)" "apart (ex_school ex) (ex_name ex)"
  shows "snd (guru_run_impl ex (snd (kara_run_impl ex d))) = snd (kara_run_impl ex (snd (guru_run_impl ex d)))"
    "get_var (ex_id ex) (snd (guru_run_impl ex (snd (kara_run_impl ex d)))) = 10"
    "get_var (ex_school ex) (snd (guru_run_impl ex (snd (kara_run_impl ex d)))) = 40"
    "get_var (ex_name ex) (snd (guru_run_impl ex (snd (kara_run_impl ex d)))) = ''abc''"
    "fst (kara_run_impl ex d) = Mod_Succeed" "fst (guru_run_impl ex d) = Mod_Succeed"
  using assms by (simp_all add: kara_run_impl_def guru_run_impl_def Let_def mutate_var_def stores_def apart_def)

text \<open>
  In the framework, a context whose application data are \<open>d\<close>: the method \<open>run\<close> of either module
  answers at once and stores what its \<open>run_impl\<close> computes.
\<close>

lemma example_modules_run:
  assumes "w_contexts w c = Some cx" and "cx_data cx = Some d"
  shows "simple_run (kara_run_impl ex) c s w =
      Inr (Mod_Succeed, put_ctx c (cx\<lparr>cx_data := Some (set_var (ex_id ex) 10 d)\<rparr>) w)"
    "simple_run (guru_run_impl ex) c s w =
      Inr (Mod_Succeed, put_ctx c (cx\<lparr>cx_data := Some (set_var (ex_name ex) ''abc''
        (set_var (ex_school ex) 40 d))\<rparr>) w)"
  using assms
  by (simp_all add: simple_run_def app_call_def get_ctx_def kara_run_impl_def guru_run_impl_def Let_def mutate_var_def)

end
