(* ===== verification/Spec2Isabelle.thy ===== *)
theory Spec2Isabelle
  imports Load_Balancer Sample_Threads Tcp_Server Proxy_Balance Pool_Report Example_Modules
begin

text \<open>
  zerver: a C++ framework for asynchronous TCP servers on boost::asio, and the proxy that its
  \<open>example1\<close> directory builds with it.

  \<^bold>\<open>The program.\<close> An application registers modules with an \<open>Fsm\<close> and links them by the state
  in which they end. \<open>TcpServer\<close> forks workers and accepts connections; for each it makes an
  \<open>FsmContext\<close> and lets the machine run it. A module's \<open>run\<close> either computes a state at
  once, and the machine goes on to the module that is linked for the state, or it starts
  asynchronous operations, returns \<open>Mod_async\<close>, and one of its completion handlers calls
  \<open>Fsm::resume\<close> later. \<open>RequestModule\<close> reads a request in three reads, \<open>ResponseModule\<close>
  writes the answer, \<open>TcpModule\<close> talks to a back-end through a client of a
  \<open>TcpClientPool\<close>, \<open>ForkModule\<close> and \<open>JoinModule\<close> run branches side by side, and
  \<open>LoadBalancer\<close> picks back-end addresses. When the end module is reached,
  \<open>Fsm::_end_request\<close> starts the next request on the same connection.

  \<^bold>\<open>Theories and sources.\<close>
  \<^item> \<open>Prelude\<close>: the result type (\<open>Inl\<close> an error: null dereference, deadlock, stack overflow,
    index out of bounds), its sequencing, the widths of the C++ integers, and the
    locale of inductive invariants over reachable states that every state machine below
    interprets. \<open>Std_Map\<close>: std::map with the insertion that \<open>operator[]\<close> makes, behind a locale.
    \<open>Decimal\<close>: numbers as stream output prints them. \<open>Asio\<close>: what the sources see of
    boost::asio and the operating system.
  \<^item> \<open>Tcp_Client\<close>, \<open>Client_Pool\<close>, \<open>Pool_Report\<close> (client/tcp_client.h,
    client/tcp_client_pool.h, .cc): clients live in a heap, a pool is a map from peers to deques.
  \<^item> \<open>Load_Balancer\<close> (client/load_balancer.h, .cc).
  \<^item> \<open>Framework\<close>, \<open>World\<close>, \<open>Fsm\<close> (framework/module.h, data.h, data.cc, fsm.h, fsm.cc): module
    classes, contexts, the state of the server process with the operations that are pending
    in asio, and the interpreter \<open>fsm_run\<close>, \<open>end_request\<close>, \<open>handle_request\<close>, \<open>resume\<close>.
  \<^item> \<open>Request_Module\<close>, \<open>Response_Module\<close>, \<open>Fork_Join_Module\<close>, \<open>Tcp_Module\<close> (module/*.h, .cc): one
    definition per \<open>run\<close> and per completion handler.
  \<^item> \<open>Event_Loop\<close> (framework/tcp_server.cc, the request side): the call of handlers, accepting,
    and the step relation \<open>loop_step\<close>. \<open>Tcp_Server\<close> (the process side): forking, signals.
  \<^item> \<open>Join_Concurrency\<close> (module/join_module.h, .cc): concurrent calls of \<open>JoinModule::run\<close>.
    \<open>Tcp_Concurrency\<close> (module/tcp_module.h, .cc, framework/fsm.cc): the threads of a worker in the
    methods of \<open>TcpModule\<close>, as stacks of calls that act one action at a time.
  \<^item> \<open>Proxy_Machine\<close>, \<open>Proxy_Data\<close>, \<open>Proxy_Server\<close>, \<open>Proxy_Exchange\<close>,
    \<open>Proxy_Balance\<close> (example1/main.cc, Data.h, Data.cc, FsmData.h,
    DataFactory.h and macro_define/ModuleDataDefines.h): the machine \<open>main\<close> wires, the data of a
    request and their accessors, and the server \<open>main\<close> starts.
  \<^item> \<open>Example_Modules\<close> (example1/KaraModule, GuruModule and their data headers).
  \<^item> \<open>Token_Net\<close>, \<open>Net_Balance\<close>: an abstract account of control, with no mechanics: marks that move
    through the machine, and weights that every move conserves.
  \<^item> \<open>Sample_Machine\<close>, \<open>Sample_Served\<close>, \<open>Sample_Threads\<close>: a small server on which the server-wide
    theorems are applied.

  \<^bold>\<open>What is shown.\<close>
  \<^item> No crash. \<open>Run_Contract\<close> states what the machine relies on when it calls a module (locale
    \<open>module_runner\<close>) and proves that the interpreter returns and keeps the invariant;
    \<open>Module_Contract\<close> interprets the locale on the six module classes; \<open>Server_Safety\<close> adds the
    handlers and the loop: in every reachable state every handler returns, on a bounded stack,
    with all mutexes free again, whatever completes in whatever order. Two ways out are named and
    shown to be the only ones: the exception of \<open>socket().cancel()\<close> on a client connection, which
    nobody catches (\<open>cancel_throws\<close>: a read or write timer has expired and the cancel fails), and a
    null dereference in a \<open>TcpModule\<close> that is run again while its first exchange is open.
    \<open>Single_Exchange\<close> closes it for every machine in which no two branches of a fork lead to the
    same \<open>TcpModule\<close>: pending operations are tokens, the interpreter and the modules pass them on
    (locale \<open>token_passing\<close>), and at most one can come to a given \<open>TcpModule\<close>.
  \<^item> No connection is lost. \<open>Net_Refinement\<close>: every turn of the event loop is a sequence of moves of
    the net \<open>net_of\<close> reads off the pending operations and the join counters (locale \<open>mark_passing\<close>,
    interpreted on the six module classes). A machine is balanced when weights for its modules and,
    for each join, a valuation of what is still to come to it are conserved by every link, fork and
    join (\<open>balanced\<close>). The numbers of branches are those the data of the request announce: the
    weights may depend on them, a mark may only come to modules that are live for them, and they may
    change only in modules that stand before all forks and joins. Then a connection has exactly one context at work until one is told to exit.
    \<open>Served_Forever\<close> adds progress: when every operation completes at some time, requests end and
    connections are served without end. \<open>Proxy_Balance\<close> gives the weights for the proxy, for every
    number of shards and sub-models that its request and prepare modules may set.
  \<^item> Threads. \<open>Tcp_Concurrency\<close>: whatever the number of threads and the order of their actions, no
    deadlock, although mutexes are held while the modules after are run (they are locked in the order of the
    machine); and when forks split, no completion handler finds its event closed, although an
    operation is started before the event is opened. \<open>Tcp_Actions\<close>: the actions of a thread are
    those of the methods of \<open>Tcp_Module\<close>: the part of a world that threads share (\<open>shared_of\<close>) goes the
    same way in both, and a handler ends as the error code, the application's answer and the timer say.
  \<^item> Exchanges. \<open>Tcp_Exchange\<close>: a whole exchange of a \<open>TcpModule\<close>, computed, and that a link from
    such a module to itself deadlocks.
  \<^item> Ownership. \<open>Client_Ownership\<close>: a back-end client is in one deque of one pool, or held by one
    module of one context, never both.
  \<^item> Requests. \<open>World\<close>: a context starts from fresh module data. \<open>Server_Behaviour\<close>: what the end
    of a request does to the connection, and that time-outs tell the application, cancel the guarded
    socket and do nothing else. \<open>Request_Progress\<close>: every
    completion lowers the work that is pending for its context in the multiset order, so no
    request keeps the event loop busy for ever.
  \<^item> Routing. \<open>Fsm\<close>: for a machine built by any sequence of calls and used for any number of look-ups,
    first registration and first link win and \<open>Mod_else\<close> is the fallback; an unregistered target corrupts the registry, destruction deletes each module once.
    \<open>Proxy_Machine\<close>: the table \<open>main\<close> builds equals a reference function; \<open>Proxy_Server\<close>: it
    always leads to the end module; \<open>Proxy_Exchange\<close>: its forks split, and no handler of the proxy
    fails otherwise than by the exception above.
  \<^item> Fork and join: what is started, that exactly one branch continues after the join under
    every interleaving, and that the result equals that of sequential arrivals. The increment of the
    join's counter is a load and a store, so that these rest on the mutex around it.
  \<^item> Pools and balancing: first usable client, sweep, round trips; where an address of \<open>LoadBalancer\<close>
    stands as a function of the periods in which it was reported.
  \<^item> Processes: the parent keeps its workers up, a stopped server stays stopped, and what
    a forked worker does to its siblings.

  \<^bold>\<open>Bounds and fuel.\<close> \<open>_run\<close>, \<open>resume\<close> and \<open>_end_request\<close> call each other; the model counts
  stack frames, and running out is the error \<open>Stack_overflow\<close>. For a machine whose links descend
  in a rank, rank + 4 frames are enough (\<open>stack_ok\<close>): 15 for the proxy. Nothing else takes fuel.

  \<^bold>\<open>Choices.\<close> boost::asio is not part of the repository: any pending operation may complete next,
  with any error code and bytes, so a statement about all reachable states covers every order asio
  can choose, and more. Timers are names. A handler runs without interruption, except that
  \<open>JoinModule::run\<close> and the methods of \<open>TcpModule\<close> are also modelled action by action for several threads; the
  thread model has the control of one context (calls, mutexes, events, pending operations), not its data,
  so application code may answer anything at any time. Application code (the
  virtual methods, the data factory, the module classes of the example) is a parameter. What
  synchronous calls answer (\<open>asio_env\<close>, \<open>fork\<close>, \<open>waitpid\<close>, \<open>rand_r\<close>, the order in which an
  unordered map is iterated, uninitialised memory) is an argument of the definitions.

  \<^bold>\<open>Assumptions about asio.\<close> The theorems about marks and connections (\<open>Net_Refinement\<close>,
  \<open>Served_Forever\<close>, \<open>Proxy_Balance\<close>) are about runs in which \<open>deadline_timer::cancel(ec)\<close> leaves \<open>ec\<close> unset
  (\<open>sound_env\<close>). asio documents \<open>ec\<close> as the place of an error, and a handler that finds one returns and
  leaves its request where it is, so without this the statements would be false; the other theorems hold for
  every answer. Socket calls may fail in every way. \<open>socket().cancel()\<close> without an error argument throws
  when it fails; a run ends there. Starting an operation (\<open>async_read\<close>, \<open>async_wait\<close> and so on) and
  \<open>expires_from_now\<close> are taken to return: their overloads that throw are not distinguished.

  \<^bold>\<open>Integers.\<close> Widths are kept where a value can reach its bound (the counter of a join, fork numbers,
  states, hash values, lengths, ports). Three \<open>int\<close>s are unbounded in the model. The size of a pool counts
  clients that each hold an open descriptor, so it cannot come near \<open>2^31\<close>. \<open>times_\<close> of a client differs from
  the source only for a \<open>max_times\<close> of \<open>2^31 - 1\<close>, after as many uses of one connection. The product of the
  two flags in \<open>main\<close> is required to fit an \<open>int\<close> (\<open>flags_ok\<close>).

  \<^bold>\<open>Not modelled.\<close> Log output (framework/p_log.h) and its set-up in \<open>main\<close>; \<open>ParallelModule\<close>, which has no
  code; the macro \<open>BEGIN_CLASS_V2\<close>, which is not used; what \<open>main\<close> does after the server has stopped (it
  stops a timer of the configuration loader, which is not in the repository, and deletes the factory).
\<close>

end
